(* ===== verification/TFS_Prelude.thy ===== *)
theory TFS_Prelude
  imports Main "HOL-Library.Word"
begin

text \<open>
  Shared vocabulary of the development: the machine types of the C sources, the outcome of a C
  call, flat byte memory with the accesses the sources make to it (array reads, \<open>memcpy\<close>,
  \<open>strcmp\<close>, \<open>strncmp\<close>, little-endian \<open>int\<close> fields), the search loop that every
  allocator of the program is an instance of, and the generic lemmas about them.
\<close>

unbundle bit_operations_syntax

section \<open>Machine types\<close>

type_synonym byte = "8 word"          \<comment> \<open>\<open>char\<close>\<close>
type_synonym size_t = "64 word"       \<comment> \<open>\<open>size_t\<close>, \<open>uint64_t\<close>: arithmetic wraps\<close>
type_synonym uint32 = "32 word"       \<comment> \<open>\<open>unsigned int\<close>\<close>

text \<open>
  A C string argument is the list of its bytes before the terminating NUL. A \<open>char const *\<close>
  that the code compares with \<open>NULL\<close> is an option.
\<close>

type_synonym cstring = "byte list"

definition cstr :: "string \<Rightarrow> cstring" where
  "cstr s = map of_char s"

named_theorems tfs_simps \<open>exact results of the C-level operations in sane states\<close>
named_theorems tfs_intros \<open>introduction rules of the file system invariants\<close>

section \<open>Outcome of a C call\<close>

text \<open>
  A call returns (\<open>Ok\<close>), ends the process through \<open>PANIC\<close>, \<open>abort\<close> or \<open>exit\<close>
  (\<open>Abort\<close>), has undefined behaviour (\<open>Undef\<close>: an access outside an array or through a null
  pointer, a division by zero), or blocks for ever on a lock its own thread holds
  (\<open>Deadlock\<close>).
\<close>

datatype 'a result = Ok 'a | Abort | Undef | Deadlock

fun bindR :: "'a result \<Rightarrow> ('a \<Rightarrow> 'b result) \<Rightarrow> 'b result" where
  "bindR (Ok x) f = f x"
| "bindR Abort f = Abort"
| "bindR Undef f = Undef"
| "bindR Deadlock f = Deadlock"

definition is_Ok :: "'a result \<Rightarrow> bool" where
  "is_Ok r = (case r of Ok _ \<Rightarrow> True | _ \<Rightarrow> False)"

lemma bindR_eq_Ok: "bindR r f = Ok y \<longleftrightarrow> (\<exists>x. r = Ok x \<and> f x = Ok y)"
  by (cases r) auto

lemma bindR_assoc: "bindR (bindR r f) g = bindR r (\<lambda>x. bindR (f x) g)"
  by (cases r) auto

lemma is_Ok_iff: "is_Ok r \<longleftrightarrow> (\<exists>x. r = Ok x)"
  by (cases r) (auto simp: is_Ok_def)

lemma is_Ok_Ok [simp]: "is_Ok (Ok x)"
  by (simp add: is_Ok_def)

section \<open>Arrays\<close>

text \<open>\<open>a[i]\<close> and \<open>a[i] = v\<close>; an index outside the array is undefined behaviour.\<close>

definition arr_get :: "'a list \<Rightarrow> nat \<Rightarrow> 'a result" where
  "arr_get xs i = (if i < length xs then Ok (xs ! i) else Undef)"

definition arr_set :: "'a list \<Rightarrow> nat \<Rightarrow> 'a \<Rightarrow> 'a list result" where
  "arr_set xs i v = (if i < length xs then Ok (xs[i := v]) else Undef)"

lemma arr_get_Ok [simp]: "i < length xs \<Longrightarrow> arr_get xs i = Ok (xs ! i)"
  by (simp add: arr_get_def)

lemma arr_set_Ok [simp]: "i < length xs \<Longrightarrow> arr_set xs i v = Ok (xs[i := v])"
  by (simp add: arr_set_def)

lemma arr_get_Undef [simp]: "length xs \<le> i \<Longrightarrow> arr_get xs i = Undef"
  by (simp add: arr_get_def)

lemma nth_upd: "j < length xs \<Longrightarrow> xs[k := v] ! j = (if k = j then v else xs ! j)"
  by (cases "k < length xs") (auto simp: nth_list_update list_update_beyond)

section \<open>Search loops\<close>

text \<open>
  \<open>for (i = 0; i < n; i++) if (p(i)) return i;\<close> where evaluating \<open>p(i)\<close> may fail. The loop
  stops at the first hit or at the first failing test.
\<close>

fun findR :: "('a \<Rightarrow> bool result) \<Rightarrow> 'a list \<Rightarrow> 'a option result" where
  "findR p [] = Ok None"
| "findR p (x # xs) = bindR (p x) (\<lambda>b. if b then Ok (Some x) else findR p xs)"

text \<open>\<open>for (i = 0; i < n; i++) body(i);\<close> over a state, where the body may fail.\<close>

fun foldR :: "('a \<Rightarrow> 's \<Rightarrow> 's result) \<Rightarrow> 'a list \<Rightarrow> 's \<Rightarrow> 's result" where
  "foldR f [] s = Ok s"
| "foldR f (x # xs) s = bindR (f x s) (foldR f xs)"

lemma foldR_append: "foldR f (xs @ ys) s = bindR (foldR f xs s) (foldR f ys)"
proof (induction xs arbitrary: s)
  case Nil
  then show ?case by simp
next
  case (Cons x xs)
  show ?case by (cases "f x s") (auto simp: Cons.IH)
qed

lemma foldR_fill:
  "n = length xs \<Longrightarrow> foldR (\<lambda>i ys. arr_set ys i v) [0..<n] xs = Ok (replicate n v)"
proof -
  have "k \<le> length xs \<Longrightarrow> foldR (\<lambda>i ys. arr_set ys i v) [0..<k] xs = Ok (replicate k v @ drop k xs)" for k
  proof (induction k)
    case 0
    then show ?case by simp
  next
    case (Suc k)
    then have "(replicate k v @ drop k xs)[k := v] = replicate (Suc k) v @ drop (Suc k) xs"
      by (simp add: list_update_append replicate_append_same Cons_nth_drop_Suc [symmetric])
    with Suc show ?case by (simp add: foldR_append)
  qed
  moreover assume "n = length xs"
  ultimately show ?thesis by simp
qed

lemma findR_find:
  "(\<And>x. x \<in> set xs \<Longrightarrow> p x = Ok (q x)) \<Longrightarrow> findR p xs = Ok (find q xs)"
  by (induction xs) auto

lemma findR_append:
  "findR p (xs @ ys) = bindR (findR p xs) (\<lambda>r. case r of None \<Rightarrow> findR p ys | Some x \<Rightarrow> Ok (Some x))"
proof (induction xs)
  case Nil
  then show ?case by simp
next
  case (Cons x xs)
  show ?case by (cases "p x") (auto simp: Cons.IH)
qed

text \<open>A search that hits at \<open>k\<close> and is defined on everything before it.\<close>

lemma findR_hit:
  assumes "\<And>x. x \<in> set xs \<Longrightarrow> p x = Ok False" and "p k = Ok True"
  shows "findR p (xs @ k # ys) = Ok (Some k)"
  using assms(1) by (induction xs) (auto simp: assms(2))

lemma find_upt_Some:
  "find p [0..<n] = Some i \<longleftrightarrow> i < n \<and> p i \<and> (\<forall>j<i. \<not> p j)"
  by (auto simp: find_Some_iff)

lemma find_upt_None: "find p [0..<n] = None \<longleftrightarrow> (\<forall>i<n. \<not> p i)"
  by (auto simp: find_None_iff)

text \<open>The hit of an indexed search splits the list at the index.\<close>

lemma find_index_split:
  assumes "find (\<lambda>k. p (xs ! k)) [0..<length xs] = Some k"
  obtains us x vs where "xs = us @ x # vs" "length us = k" "p x" "\<forall>y\<in>set us. \<not> p y"
proof -
  from assms have k: "k < length xs" "p (xs ! k)" "\<forall>j<k. \<not> p (xs ! j)"
    by (auto simp: find_upt_Some)
  show thesis
  proof
    show "xs = take k xs @ xs ! k # drop (Suc k) xs"
      using k(1) by (rule id_take_nth_drop)
    show "\<forall>y\<in>set (take k xs). \<not> p y"
      using k by (auto simp: in_set_conv_nth)
  qed (use k in auto)
qed

lemma find_index_of_split:
  assumes "xs = us @ x # vs" "p x" "\<forall>y\<in>set us. \<not> p y"
  shows "find (\<lambda>k. p (xs ! k)) [0..<length xs] = Some (length us)"
proof -
  have "\<forall>j<length us. \<not> p (xs ! j)"
    using assms by (auto simp: nth_append)
  with assms(1,2) show ?thesis
    unfolding find_upt_Some by simp
qed

lemma find_index_None:
  "find (\<lambda>k. p (xs ! k)) [0..<length xs] = None \<longleftrightarrow> (\<forall>x\<in>set xs. \<not> p x)"
  by (auto simp: find_upt_None all_set_conv_all_nth)

section \<open>Byte memory\<close>

definition read_at :: "nat \<Rightarrow> nat \<Rightarrow> 'a list \<Rightarrow> 'a list" where
  "read_at p n m = take n (drop p m)"

definition write_at :: "nat \<Rightarrow> 'a list \<Rightarrow> 'a list \<Rightarrow> 'a list" where
  "write_at p xs m = take p m @ xs @ drop (p + length xs) m"

text \<open>\<open>memcpy\<close> into and out of an array, with the bounds of the array checked.\<close>

definition mem_read :: "'a list \<Rightarrow> nat \<Rightarrow> nat \<Rightarrow> 'a list result" where
  "mem_read m p n = (if p + n \<le> length m then Ok (read_at p n m) else Undef)"

definition mem_write :: "'a list \<Rightarrow> nat \<Rightarrow> 'a list \<Rightarrow> 'a list result" where
  "mem_write m p xs = (if p + length xs \<le> length m then Ok (write_at p xs m) else Undef)"

lemma mem_read_Ok [simp]: "p + n \<le> length m \<Longrightarrow> mem_read m p n = Ok (read_at p n m)"
  by (simp add: mem_read_def)

lemma mem_write_Ok [simp]:
  "p + length xs \<le> length m \<Longrightarrow> mem_write m p xs = Ok (write_at p xs m)"
  by (simp add: mem_write_def)

lemma length_read_at [simp]: "p + n \<le> length m \<Longrightarrow> length (read_at p n m) = n"
  by (simp add: read_at_def)

lemma length_write_at [simp]: "p + length xs \<le> length m \<Longrightarrow> length (write_at p xs m) = length m"
  by (simp add: write_at_def)

lemma nth_read_at: "i < n \<Longrightarrow> p + n \<le> length m \<Longrightarrow> read_at p n m ! i = m ! (p + i)"
  by (simp add: read_at_def)

lemma nth_write_at:
  assumes "p + length xs \<le> length m" and "i < length m"
  shows "write_at p xs m ! i = (if p \<le> i \<and> i < p + length xs then xs ! (i - p) else m ! i)"
  using assms by (auto simp: write_at_def nth_append min_def add.commute)

lemma write_at_Nil [simp]: "write_at p [] m = m"
  by (simp add: write_at_def)

lemma read_at_0 [simp]: "read_at p 0 m = []"
  by (simp add: read_at_def)

lemma read_at_take: "n \<le> k \<Longrightarrow> read_at p n m = take n (read_at p k m)"
  by (simp add: read_at_def min_def)

text \<open>The three cases of reading back after a write: disjoint, covering, and inside.\<close>

lemma read_write_disjoint:
  assumes "p + length xs \<le> length m" and "q + n \<le> length m"
    and "q + n \<le> p \<or> p + length xs \<le> q"
  shows "read_at q n (write_at p xs m) = read_at q n m"
  using assms by (intro nth_equalityI) (auto simp: nth_read_at nth_write_at)

lemma read_write_inside:
  assumes "p + length xs \<le> length m" and "q \<le> p" and "p + length xs \<le> q + n" and "q + n \<le> length m"
  shows "read_at q n (write_at p xs m) = write_at (p - q) xs (read_at q n m)"
  using assms by (intro nth_equalityI) (auto simp: nth_read_at nth_write_at add.commute)

lemma read_write_same: "p + length xs \<le> length m \<Longrightarrow> read_at p (length xs) (write_at p xs m) = xs"
  by (intro nth_equalityI) (auto simp: nth_read_at nth_write_at)

lemma write_at_append:
  "p + length xs + length ys \<le> length m \<Longrightarrow>
     write_at (p + length xs) ys (write_at p xs m) = write_at p (xs @ ys) m"
  by (intro nth_equalityI) (auto simp: nth_write_at nth_append)

section \<open>C string comparison against memory\<close>

text \<open>
  \<open>strcmp(p, s) == 0\<close> for a pointer \<open>p\<close> into memory: bytes are read until the strings
  differ or end, and a read past the end of memory is undefined.
\<close>

fun strcmp_mem :: "byte list \<Rightarrow> nat \<Rightarrow> cstring \<Rightarrow> bool result" where
  "strcmp_mem m p [] = bindR (arr_get m p) (\<lambda>c. Ok (c = 0))"
| "strcmp_mem m p (x # xs) =
     bindR (arr_get m p) (\<lambda>c. if c = x then strcmp_mem m (Suc p) xs else Ok False)"

text \<open>\<open>strncmp(p, s, n) == 0\<close>: the same with at most \<open>n\<close> bytes looked at.\<close>

fun strncmp_mem :: "byte list \<Rightarrow> nat \<Rightarrow> cstring \<Rightarrow> nat \<Rightarrow> bool result" where
  "strncmp_mem m p xs 0 = Ok True"
| "strncmp_mem m p [] (Suc n) = bindR (arr_get m p) (\<lambda>c. Ok (c = 0))"
| "strncmp_mem m p (x # xs) (Suc n) =
     bindR (arr_get m p) (\<lambda>c. if c = x then strncmp_mem m (Suc p) xs n else Ok False)"

text \<open>The C string at \<open>p\<close>: what \<open>strlen(p)\<close> measures. It is undefined without a NUL.\<close>

definition string_at :: "byte list \<Rightarrow> nat \<Rightarrow> cstring result" where
  "string_at m p =
     (let s = takeWhile (\<lambda>c. c \<noteq> 0) (drop p m) in
      if p + length s < length m then Ok s else Undef)"

lemma string_at_terminated:
  assumes "read_at p (length s + 1) m = s @ [0]" and "0 \<notin> set s"
  shows "string_at m p = Ok s"
proof -
  have split: "drop p m = (s @ [0]) @ drop (length s + 1) (drop p m)"
    using assms(1) by (metis append_take_drop_id read_at_def)
  have "\<And>c. c \<in> set s \<Longrightarrow> c \<noteq> 0"
    using assms(2) by auto
  then have tw: "takeWhile (\<lambda>c. c \<noteq> 0) (drop p m) = s"
    by (subst split) (simp add: takeWhile_append2)
  have "length (drop p m) \<ge> length s + 1"
    by (subst split) simp
  then show ?thesis by (simp add: string_at_def tw)
qed

text \<open>The bytes of a NUL-padded array of \<open>n\<close> bytes that holds the string \<open>s\<close>.\<close>

definition pad :: "nat \<Rightarrow> cstring \<Rightarrow> byte list" where
  "pad n s = s @ replicate (n - length s) 0"

lemma length_pad [simp]: "length s \<le> n \<Longrightarrow> length (pad n s) = n"
  by (simp add: pad_def)

lemma pad_inj:
  assumes "0 \<notin> set s" "0 \<notin> set t" "length s < n" "length t < n" "pad n s = pad n t"
  shows "s = t"
proof -
  have *: "takeWhile (\<lambda>c. c \<noteq> 0) (pad n u) = u" if "0 \<notin> set u" "length u < n" for u
  proof -
    have "takeWhile (\<lambda>c. c \<noteq> 0) (u @ replicate (n - length u) (0::byte)) =
        u @ takeWhile (\<lambda>c. c \<noteq> 0) (replicate (n - length u) 0)"
      using that(1) by (intro takeWhile_append2) auto
    then show ?thesis by (simp add: pad_def)
  qed
  from assms * show ?thesis by metis
qed

lemma strcmp_mem_pad:
  assumes "p + n \<le> length m" "read_at p n m = pad n t" "0 \<notin> set s" "0 \<notin> set t" "length t < n"
  shows "strcmp_mem m p s = Ok (s = t)"
  using assms
proof (induction s arbitrary: t p n)
  case Nil
  have "m ! p = pad n t ! 0"
    using Nil.prems(1,2,5) nth_read_at [of 0 n p m] by simp
  with Nil.prems show ?case by (cases t) (auto simp: pad_def)
next
  case (Cons x xs)
  have hd: "m ! p = pad n t ! 0"
    using Cons.prems(1,2,5) nth_read_at [of 0 n p m] by simp
  show ?case
  proof (cases t)
    case Nil
    with hd Cons.prems show ?thesis by (auto simp: pad_def)
  next
    case (Cons y ys)
    from \<open>length t < n\<close> Cons obtain k where k: "n = Suc k" by (cases n) auto
    have "read_at (Suc p) k m = pad k ys"
    proof -
      have "read_at p n m = m ! p # read_at (Suc p) k m"
        using Cons.prems(1) k by (simp add: read_at_def Cons_nth_drop_Suc [symmetric])
      with Cons.prems(2) Cons k show ?thesis by (simp add: pad_def)
    qed
    then have "strcmp_mem m (Suc p) xs = Ok (xs = ys)"
      using Cons.prems Cons k by (intro Cons.IH [where n = k]) auto
    with hd Cons Cons.prems show ?thesis by (auto simp: pad_def)
  qed
qed

lemma strncmp_mem_pad:
  assumes "p + n \<le> length m" "read_at p n m = pad n t" "0 \<notin> set s" "0 \<notin> set t" "length t < n"
  shows "strncmp_mem m p s n = Ok (s = t)"
  using assms
proof (induction s arbitrary: t p n)
  case Nil
  have "m ! p = pad n t ! 0"
    using Nil.prems(1,2,5) nth_read_at [of 0 n p m] by simp
  with Nil.prems show ?case by (cases t; cases n) (auto simp: pad_def)
next
  case (Cons x xs)
  have hd: "m ! p = pad n t ! 0"
    using Cons.prems(1,2,5) nth_read_at [of 0 n p m] by simp
  from Cons.prems(5) obtain k where k: "n = Suc k" by (cases n) auto
  show ?case
  proof (cases t)
    case Nil
    with hd k Cons.prems show ?thesis by (auto simp: pad_def)
  next
    case (Cons y ys)
    have "read_at (Suc p) k m = pad k ys"
    proof -
      have "read_at p n m = m ! p # read_at (Suc p) k m"
        using Cons.prems(1) k by (simp add: read_at_def Cons_nth_drop_Suc [symmetric])
      with Cons.prems(2) Cons k show ?thesis by (simp add: pad_def)
    qed
    then have "strncmp_mem m (Suc p) xs k = Ok (xs = ys)"
      using Cons.prems Cons k by (intro Cons.IH) auto
    with hd Cons Cons.prems k show ?thesis by (auto simp: pad_def)
  qed
qed

lemma strncmp_mem_total: "p + n \<le> length m \<Longrightarrow> is_Ok (strncmp_mem m p s n)"
  by (induction m p s n rule: strncmp_mem.induct) auto

section \<open>Little-endian \<open>int\<close> fields\<close>

text \<open>A C \<open>int\<close> is an \<open>int\<close> of the logic; memory holds its four bytes, least first.\<close>

definition enc32 :: "int \<Rightarrow> byte list" where
  "enc32 i = (let w = (word_of_int i :: 32 word) in
     [ucast w, ucast (drop_bit 8 w), ucast (drop_bit 16 w), ucast (drop_bit 24 w)])"

definition dec32 :: "byte list \<Rightarrow> int" where
  "dec32 b = sint ((ucast (b ! 0) OR push_bit 8 (ucast (b ! 1)) OR
     push_bit 16 (ucast (b ! 2)) OR push_bit 24 (ucast (b ! 3))) :: 32 word)"

definition int32_range :: "int \<Rightarrow> bool" where
  "int32_range i \<longleftrightarrow> - (2 ^ 31) \<le> i \<and> i < 2 ^ 31"

lemma length_enc32 [simp]: "length (enc32 i) = 4"
  by (simp add: enc32_def Let_def)

lemma split_word32:
  fixes w :: "32 word"
  shows "ucast (ucast w :: 8 word) OR push_bit 8 (ucast (ucast (drop_bit 8 w) :: 8 word)) OR
    push_bit 16 (ucast (ucast (drop_bit 16 w) :: 8 word)) OR
    push_bit 24 (ucast (ucast (drop_bit 24 w) :: 8 word)) = w" (is "?l = w")
proof (rule bit_word_eqI)
  fix n
  assume "n < LENGTH(32)"
  then have "n < 8 \<or> (8 \<le> n \<and> n < 16) \<or> (16 \<le> n \<and> n < 24) \<or> (24 \<le> n \<and> n < 32)"
    by auto
  then show "bit ?l n = bit w n"
    by (elim disjE) (auto simp: bit_or_iff bit_push_bit_iff bit_ucast_iff bit_drop_bit_eq)
qed

lemma dec32_enc32: "int32_range i \<Longrightarrow> dec32 (enc32 i) = i"
proof -
  assume r: "int32_range i"
  have "dec32 (enc32 i) = sint (word_of_int i :: 32 word)"
    by (simp add: dec32_def enc32_def Let_def split_word32)
  also have "\<dots> = i"
    using r by (simp add: int32_range_def sint_word_ariths signed_of_int signed_take_bit_int_eq_self)
  finally show ?thesis .
qed

end
