(* ===== verification/FS_State.thy ===== *)
theory FS_State
  imports TFS_Prelude
begin

text \<open>
  The state layer of TecnicoFS (\<open>fs/state.c\<close>, \<open>fs/state.h\<close>, \<open>fs/config.h\<close>,
  \<open>fs/utils.c\<close>): the inode table, the data blocks, the open file table, their allocation
  tables and locks. The contents of all data blocks are one flat byte array, as in the source, and
  a directory is an array of \<open>dir_entry_t\<close> laid over the bytes of its block: 40 bytes of
  name, then the \<open>int\<close> inumber, least byte first.

  A pointer to an inode or to an open file entry is the index of the entry; a pointer into
  \<open>fs_data\<close> is an offset. \<open>insert_delay\<close> only burns time and has no counterpart.
\<close>

section \<open>Data\<close>

abbreviation ROOT_DIR_INUM :: int where "ROOT_DIR_INUM \<equiv> 0"
abbreviation MAX_FILE_NAME :: nat where "MAX_FILE_NAME \<equiv> 40"
abbreviation sizeof_dir_entry :: nat where "sizeof_dir_entry \<equiv> 44"

record tfs_params =
  max_inode_count :: size_t
  max_block_count :: size_t
  max_open_files_count :: size_t
  block_size :: size_t

datatype inode_type = T_FILE | T_DIRECTORY | T_LINK

record inode_t =
  i_node_type :: inode_type
  i_links_count :: uint32
  i_size :: size_t
  i_data_block :: int

datatype allocation_state_t = FREE | TAKEN

record open_file_entry_t =
  of_inumber :: int
  of_offset :: size_t

datatype fs_lock =
    Inode_table_rwl | Free_blocks_rwl | Open_file_table_rwl
  | Inode_rwl int | Open_file_mutex int

text \<open>
  The static variables of \<open>state.c\<close>. \<open>allocated\<close> is \<open>inode_table != NULL\<close>,
  \<open>locks_init\<close> says that the locks have been initialised and not destroyed, and \<open>held\<close> is
  the set of locks the running thread holds.
\<close>

record fs_state =
  fs_params :: tfs_params
  allocated :: bool
  inode_table :: "inode_t list"
  freeinode_ts :: "allocation_state_t list"
  fs_data :: "byte list"
  free_blocks :: "allocation_state_t list"
  open_file_table :: "open_file_entry_t list"
  free_open_file_entries :: "allocation_state_t list"
  locks_init :: bool
  held :: "fs_lock set"

abbreviation INODE_TABLE_SIZE :: "fs_state \<Rightarrow> size_t" where
  "INODE_TABLE_SIZE s \<equiv> max_inode_count (fs_params s)"
abbreviation DATA_BLOCKS :: "fs_state \<Rightarrow> size_t" where
  "DATA_BLOCKS s \<equiv> max_block_count (fs_params s)"
abbreviation MAX_OPEN_FILES :: "fs_state \<Rightarrow> size_t" where
  "MAX_OPEN_FILES s \<equiv> max_open_files_count (fs_params s)"
abbreviation BLOCK_SIZE :: "fs_state \<Rightarrow> size_t" where
  "BLOCK_SIZE s \<equiv> block_size (fs_params s)"

definition MAX_DIR_ENTRIES :: "fs_state \<Rightarrow> nat" where
  "MAX_DIR_ENTRIES s = unat (BLOCK_SIZE s) div sizeof_dir_entry"

definition valid_inumber :: "fs_state \<Rightarrow> int \<Rightarrow> bool" where
  "valid_inumber s inumber \<longleftrightarrow> 0 \<le> inumber \<and> inumber < uint (INODE_TABLE_SIZE s)"

definition valid_block_number :: "fs_state \<Rightarrow> int \<Rightarrow> bool" where
  "valid_block_number s block_number \<longleftrightarrow> 0 \<le> block_number \<and> block_number < uint (DATA_BLOCKS s)"

definition valid_file_handle :: "fs_state \<Rightarrow> int \<Rightarrow> bool" where
  "valid_file_handle s file_handle \<longleftrightarrow> 0 \<le> file_handle \<and> file_handle < uint (MAX_OPEN_FILES s)"

definition state_block_size :: "fs_state \<Rightarrow> size_t" where
  "state_block_size s = BLOCK_SIZE s"

section \<open>Lock wrappers\<close>

text \<open>
  The wrappers of \<open>fs/utils.c\<close> for one thread. Locking a lock this thread already holds
  blocks it for ever; unlocking a lock it does not hold, destroying or re-initialising a held lock
  and using a lock that is not initialised are undefined. For a thread on its own, read and write
  locks behave alike.
\<close>

definition rwl_wrlock :: "fs_lock \<Rightarrow> fs_state \<Rightarrow> fs_state result" where
  "rwl_wrlock l s =
     (if \<not> locks_init s then Undef
      else if l \<in> held s then Deadlock
      else Ok (s\<lparr>held := insert l (held s)\<rparr>))"

definition rwl_rdlock :: "fs_lock \<Rightarrow> fs_state \<Rightarrow> fs_state result" where
  "rwl_rdlock l s =
     (if \<not> locks_init s then Undef
      else if l \<in> held s then Deadlock
      else Ok (s\<lparr>held := insert l (held s)\<rparr>))"

definition rwl_unlock :: "fs_lock \<Rightarrow> fs_state \<Rightarrow> fs_state result" where
  "rwl_unlock l s =
     (if locks_init s \<and> l \<in> held s then Ok (s\<lparr>held := held s - {l}\<rparr>) else Undef)"

definition mutex_lock :: "fs_lock \<Rightarrow> fs_state \<Rightarrow> fs_state result" where
  "mutex_lock l s =
     (if \<not> locks_init s then Undef
      else if l \<in> held s then Deadlock
      else Ok (s\<lparr>held := insert l (held s)\<rparr>))"

definition mutex_unlock :: "fs_lock \<Rightarrow> fs_state \<Rightarrow> fs_state result" where
  "mutex_unlock l s =
     (if locks_init s \<and> l \<in> held s then Ok (s\<lparr>held := held s - {l}\<rparr>) else Undef)"

definition rwl_init :: "fs_lock \<Rightarrow> fs_state \<Rightarrow> fs_state result" where
  "rwl_init l s = (if l \<in> held s then Undef else Ok s)"

definition rwl_destroy :: "fs_lock \<Rightarrow> fs_state \<Rightarrow> fs_state result" where
  "rwl_destroy l s = (if \<not> locks_init s \<or> l \<in> held s then Undef else Ok s)"

section \<open>Initialisation\<close>

text \<open>
  The results of the seven \<open>malloc\<close> calls of \<open>state_init\<close>: \<open>None\<close> is \<open>NULL\<close>,
  and a block that was obtained holds arbitrary values.
\<close>

record fs_allocs =
  a_inode_table :: "inode_t list option"
  a_inode_rwl :: bool
  a_freeinode_ts :: "allocation_state_t list option"
  a_fs_data :: "byte list option"
  a_free_blocks :: "allocation_state_t list option"
  a_open_file_table :: "open_file_entry_t list option"
  a_free_open_file_entries :: "allocation_state_t list option"

definition or_null :: "'a list option \<Rightarrow> 'a list" where
  "or_null x = (case x of None \<Rightarrow> [] | Some xs \<Rightarrow> xs)"

definition state_init :: "tfs_params \<Rightarrow> fs_allocs \<Rightarrow> fs_state \<Rightarrow> (int \<times> fs_state) result" where
  "state_init params al s0 =
     (let s = s0\<lparr>fs_params := params\<rparr> in
      if allocated s then Ok (-1, s)
      else
       let s = s\<lparr>allocated := (a_inode_table al \<noteq> None),
                 inode_table := or_null (a_inode_table al),
                 freeinode_ts := or_null (a_freeinode_ts al),
                 fs_data := or_null (a_fs_data al),
                 free_blocks := or_null (a_free_blocks al),
                 open_file_table := or_null (a_open_file_table al),
                 free_open_file_entries := or_null (a_free_open_file_entries al)\<rparr> in
       if a_inode_table al = None \<or> a_freeinode_ts al = None \<or> a_fs_data al = None \<or>
          a_free_blocks al = None \<or> a_open_file_table al = None \<or> a_free_open_file_entries al = None
       then Ok (-1, s)
       else
        bindR (foldR (\<lambda>i ys. arr_set ys i FREE) [0..<unat (INODE_TABLE_SIZE s)] (freeinode_ts s)) (\<lambda>fi.
        bindR (foldR (\<lambda>i ys. arr_set ys i FREE) [0..<unat (DATA_BLOCKS s)] (free_blocks s)) (\<lambda>fb.
        bindR (foldR (\<lambda>i ys. arr_set ys i FREE) [0..<unat (MAX_OPEN_FILES s)] (free_open_file_entries s)) (\<lambda>fo.
        if held s \<noteq> {} \<or> (\<not> a_inode_rwl al \<and> INODE_TABLE_SIZE s \<noteq> 0) then Undef
        else Ok (0, s\<lparr>freeinode_ts := fi, free_blocks := fb, free_open_file_entries := fo,
                      locks_init := True\<rparr>)))))"

text \<open>
  \<open>state_destroy\<close> destroys every lock and releases every array; \<open>fs_params\<close> is not reset.
\<close>

definition state_destroy :: "fs_state \<Rightarrow> (int \<times> fs_state) result" where
  "state_destroy s =
     (if \<not> locks_init s \<or> held s \<noteq> {} then Undef
      else Ok (0, s\<lparr>allocated := False, inode_table := [], freeinode_ts := [], fs_data := [],
                    free_blocks := [], open_file_table := [], free_open_file_entries := [],
                    locks_init := False\<rparr>))"

section \<open>Data blocks\<close>

definition data_block_alloc :: "fs_state \<Rightarrow> (int \<times> fs_state) result" where
  "data_block_alloc s =
     bindR (rwl_wrlock Free_blocks_rwl s) (\<lambda>s.
     bindR (findR (\<lambda>i. if BLOCK_SIZE s = 0 then Undef
                       else bindR (arr_get (free_blocks s) i) (\<lambda>a. Ok (a = FREE)))
             [0..<unat (DATA_BLOCKS s)]) (\<lambda>r.
     case r of
       Some i \<Rightarrow>
         bindR (rwl_unlock Free_blocks_rwl (s\<lparr>free_blocks := (free_blocks s)[i := TAKEN]\<rparr>)) (\<lambda>s.
         Ok (int i, s))
     | None \<Rightarrow> bindR (rwl_unlock Free_blocks_rwl s) (\<lambda>s. Ok (-1, s))))"

definition data_block_free :: "int \<Rightarrow> fs_state \<Rightarrow> (int \<times> fs_state) result" where
  "data_block_free block_number s =
     (if \<not> valid_block_number s block_number then Ok (-1, s)
      else
       bindR (rwl_wrlock Free_blocks_rwl s) (\<lambda>s.
       bindR (arr_set (free_blocks s) (nat block_number) FREE) (\<lambda>fb.
       bindR (rwl_unlock Free_blocks_rwl (s\<lparr>free_blocks := fb\<rparr>)) (\<lambda>s. Ok (0, s)))))"

definition data_block_get :: "int \<Rightarrow> fs_state \<Rightarrow> nat option" where
  "data_block_get block_number s =
     (if \<not> valid_block_number s block_number then None
      else Some (unat ((word_of_int block_number :: size_t) * BLOCK_SIZE s)))"

section \<open>Inodes\<close>

text \<open>Reading and writing \<open>*inode\<close>, for the inode pointer \<open>&inode_table[i]\<close>.\<close>

definition inode_at :: "fs_state \<Rightarrow> int \<Rightarrow> inode_t result" where
  "inode_at s i = (if i < 0 then Undef else arr_get (inode_table s) (nat i))"

definition inode_put :: "int \<Rightarrow> inode_t \<Rightarrow> fs_state \<Rightarrow> fs_state result" where
  "inode_put i ino s =
     (if i < 0 then Undef
      else bindR (arr_set (inode_table s) (nat i) ino) (\<lambda>t. Ok (s\<lparr>inode_table := t\<rparr>)))"

definition inode_alloc :: "fs_state \<Rightarrow> (int \<times> fs_state) result" where
  "inode_alloc s =
     bindR (rwl_wrlock Inode_table_rwl s) (\<lambda>s.
     bindR (findR (\<lambda>i. if BLOCK_SIZE s = 0 then Undef
                       else bindR (arr_get (freeinode_ts s) i) (\<lambda>a. Ok (a = FREE)))
             [0..<unat (INODE_TABLE_SIZE s)]) (\<lambda>r.
     case r of
       Some i \<Rightarrow>
         bindR (rwl_unlock Inode_table_rwl (s\<lparr>freeinode_ts := (freeinode_ts s)[i := TAKEN]\<rparr>)) (\<lambda>s.
         Ok (int i, s))
     | None \<Rightarrow> bindR (rwl_unlock Inode_table_rwl s) (\<lambda>s. Ok (-1, s))))"

definition inode_delete :: "int \<Rightarrow> fs_state \<Rightarrow> (int \<times> fs_state) result" where
  "inode_delete inumber s =
     (if \<not> valid_inumber s inumber then Ok (-1, s)
      else
       bindR (rwl_wrlock Inode_table_rwl s) (\<lambda>s.
       bindR (arr_get (freeinode_ts s) (nat inumber)) (\<lambda>a.
       if a = FREE then bindR (rwl_unlock Inode_table_rwl s) (\<lambda>s. Ok (-1, s))
       else
        bindR (inode_at s inumber) (\<lambda>ino.
        bindR (if i_size ino > 0 then data_block_free (i_data_block ino) s else Ok (0, s)) (\<lambda>(_, s).
        bindR (rwl_unlock Inode_table_rwl
                 (s\<lparr>freeinode_ts := (freeinode_ts s)[nat inumber := FREE]\<rparr>)) (\<lambda>s.
        Ok (0, s)))))))"

text \<open>Addresses of the fields of \<open>dir_entry[k]\<close> for a directory block at address \<open>a\<close>.\<close>

definition d_name_addr :: "nat \<Rightarrow> nat \<Rightarrow> nat" where
  "d_name_addr a k = a + sizeof_dir_entry * k"

definition d_inumber_addr :: "nat \<Rightarrow> nat \<Rightarrow> nat" where
  "d_inumber_addr a k = a + sizeof_dir_entry * k + MAX_FILE_NAME"

text \<open>
  \<open>inode_create\<close>. A directory gets a data block whose entries are all marked free; only the
  \<open>d_inumber\<close> fields are written, the names keep whatever the block held.
\<close>

definition inode_create :: "inode_type \<Rightarrow> fs_state \<Rightarrow> (int \<times> fs_state) result" where
  "inode_create i_type s =
     bindR (inode_alloc s) (\<lambda>(inumber, s).
     if inumber = -1 then Ok (-1, s)
     else
      bindR (inode_at s inumber) (\<lambda>ino.
      bindR (inode_put inumber (ino\<lparr>i_node_type := i_type, i_links_count := 1\<rparr>) s) (\<lambda>s.
      bindR (rwl_init (Inode_rwl inumber) s) (\<lambda>s.
      case i_type of
        T_DIRECTORY \<Rightarrow>
          bindR (data_block_alloc s) (\<lambda>(b, s).
          bindR (inode_at s inumber) (\<lambda>ino.
          if b = -1 then
            bindR (inode_put inumber (ino\<lparr>i_size := 0, i_data_block := -1\<rparr>) s) (\<lambda>s.
            bindR (inode_delete inumber s) (\<lambda>(_, s). Ok (-1, s)))
          else
            bindR (inode_put inumber (ino\<lparr>i_size := BLOCK_SIZE s, i_data_block := b\<rparr>) s) (\<lambda>s.
            case data_block_get b s of
              None \<Rightarrow> Ok (-1, s)
            | Some a \<Rightarrow>
                bindR (foldR (\<lambda>k m. mem_write m (d_inumber_addr a k) (enc32 (-1)))
                         [0..<MAX_DIR_ENTRIES s] (fs_data s)) (\<lambda>m.
                Ok (inumber, s\<lparr>fs_data := m\<rparr>)))))
      | T_FILE \<Rightarrow>
          bindR (inode_at s inumber) (\<lambda>ino.
          bindR (inode_put inumber (ino\<lparr>i_size := 0, i_data_block := -1\<rparr>) s) (\<lambda>s. Ok (inumber, s)))
      | T_LINK \<Rightarrow>
          bindR (inode_at s inumber) (\<lambda>ino.
          bindR (inode_put inumber (ino\<lparr>i_size := 0, i_data_block := -1\<rparr>) s) (\<lambda>s. Ok (inumber, s)))))))"

definition inode_get :: "int \<Rightarrow> fs_state \<Rightarrow> int option" where
  "inode_get inumber s = (if \<not> valid_inumber s inumber then None else Some inumber)"

definition inode_rwl_get :: "int \<Rightarrow> fs_state \<Rightarrow> fs_lock option" where
  "inode_rwl_get inumber s = (if \<not> valid_inumber s inumber then None else Some (Inode_rwl inumber))"

section \<open>Directory entries\<close>

definition clear_dir_entry :: "int \<Rightarrow> cstring \<Rightarrow> fs_state \<Rightarrow> (int \<times> fs_state) result" where
  "clear_dir_entry inode sub_name s =
     bindR (inode_at s inode) (\<lambda>ino.
     if i_node_type ino \<noteq> T_DIRECTORY then Ok (-1, s)
     else case data_block_get (i_data_block ino) s of
       None \<Rightarrow> Abort
     | Some a \<Rightarrow>
         bindR (findR (\<lambda>k. strcmp_mem (fs_data s) (d_name_addr a k) sub_name)
                  [0..<MAX_DIR_ENTRIES s]) (\<lambda>r.
         case r of
           None \<Rightarrow> Ok (-1, s)
         | Some k \<Rightarrow>
             bindR (mem_write (fs_data s) (d_inumber_addr a k) (enc32 (-1))) (\<lambda>m.
             bindR (mem_write m (d_name_addr a k) (replicate MAX_FILE_NAME 0)) (\<lambda>m.
             Ok (0, s\<lparr>fs_data := m\<rparr>)))))"

text \<open>The bytes \<open>strncpy(d, s, n)\<close> writes to \<open>d\<close>.\<close>

definition strncpy_bytes :: "cstring \<Rightarrow> nat \<Rightarrow> byte list" where
  "strncpy_bytes s n = take n s @ replicate (n - length s) 0"

definition add_dir_entry :: "int \<Rightarrow> cstring \<Rightarrow> int \<Rightarrow> fs_state \<Rightarrow> (int \<times> fs_state) result" where
  "add_dir_entry inode sub_name sub_inumber s =
     (if length sub_name = 0 \<or> length sub_name > MAX_FILE_NAME - 1 then Ok (-1, s)
      else
       bindR (inode_at s inode) (\<lambda>ino.
       if i_node_type ino \<noteq> T_DIRECTORY then Ok (-1, s)
       else case data_block_get (i_data_block ino) s of
         None \<Rightarrow> Abort
       | Some a \<Rightarrow>
           bindR (findR (\<lambda>k. bindR (mem_read (fs_data s) (d_inumber_addr a k) 4) (\<lambda>b.
                             Ok (dec32 b = -1)))
                    [0..<MAX_DIR_ENTRIES s]) (\<lambda>r.
           case r of
             None \<Rightarrow> Ok (-1, s)
           | Some k \<Rightarrow>
               bindR (mem_write (fs_data s) (d_inumber_addr a k) (enc32 sub_inumber)) (\<lambda>m.
               bindR (mem_write m (d_name_addr a k)
                        (strncpy_bytes sub_name (MAX_FILE_NAME - 1))) (\<lambda>m.
               bindR (mem_write m (d_name_addr a k + (MAX_FILE_NAME - 1)) [0]) (\<lambda>m.
               Ok (0, s\<lparr>fs_data := m\<rparr>)))))))"

definition find_in_dir :: "int \<Rightarrow> cstring \<Rightarrow> fs_state \<Rightarrow> int result" where
  "find_in_dir inode sub_name s =
     bindR (inode_at s inode) (\<lambda>ino.
     if i_node_type ino \<noteq> T_DIRECTORY then Ok (-1)
     else case data_block_get (i_data_block ino) s of
       None \<Rightarrow> Ok (-1)
     | Some a \<Rightarrow>
         bindR (findR (\<lambda>k. bindR (mem_read (fs_data s) (d_inumber_addr a k) 4) (\<lambda>b.
                           if dec32 b \<noteq> -1
                           then strncmp_mem (fs_data s) (d_name_addr a k) sub_name MAX_FILE_NAME
                           else Ok False))
                  [0..<MAX_DIR_ENTRIES s]) (\<lambda>r.
         case r of
           None \<Rightarrow> Ok (-1)
         | Some k \<Rightarrow>
             bindR (mem_read (fs_data s) (d_inumber_addr a k) 4) (\<lambda>b. Ok (dec32 b))))"

section \<open>Open file table\<close>

definition add_to_open_file_table :: "int \<Rightarrow> size_t \<Rightarrow> fs_state \<Rightarrow> (int \<times> fs_state) result" where
  "add_to_open_file_table inumber offset s =
     bindR (rwl_wrlock Open_file_table_rwl s) (\<lambda>s.
     bindR (findR (\<lambda>i. bindR (arr_get (free_open_file_entries s) i) (\<lambda>a. Ok (a = FREE)))
              [0..<unat (MAX_OPEN_FILES s)]) (\<lambda>r.
     case r of
       Some i \<Rightarrow>
         bindR (mutex_lock (Open_file_mutex (int i))
                  (s\<lparr>free_open_file_entries := (free_open_file_entries s)[i := TAKEN]\<rparr>)) (\<lambda>s.
         bindR (arr_set (open_file_table s) i \<lparr>of_inumber = inumber, of_offset = offset\<rparr>) (\<lambda>t.
         bindR (mutex_unlock (Open_file_mutex (int i)) (s\<lparr>open_file_table := t\<rparr>)) (\<lambda>s.
         bindR (rwl_unlock Open_file_table_rwl s) (\<lambda>s. Ok (int i, s)))))
     | None \<Rightarrow> bindR (rwl_unlock Open_file_table_rwl s) (\<lambda>s. Ok (-1, s))))"

definition remove_from_open_file_table :: "int \<Rightarrow> fs_state \<Rightarrow> (int \<times> fs_state) result" where
  "remove_from_open_file_table fhandle s =
     (if \<not> valid_file_handle s fhandle then Ok (-1, s)
      else
       bindR (rwl_wrlock Open_file_table_rwl s) (\<lambda>s.
       bindR (arr_get (free_open_file_entries s) (nat fhandle)) (\<lambda>a.
       if a = FREE then bindR (rwl_unlock Open_file_table_rwl s) (\<lambda>s. Ok (-1, s))
       else
        bindR (rwl_unlock Open_file_table_rwl
                 (s\<lparr>free_open_file_entries := (free_open_file_entries s)[nat fhandle := FREE]\<rparr>)) (\<lambda>s.
        Ok (0, s)))))"

definition get_open_file_entry :: "int \<Rightarrow> fs_state \<Rightarrow> int option result" where
  "get_open_file_entry fhandle s =
     (if \<not> valid_file_handle s fhandle then Ok None
      else bindR (arr_get (free_open_file_entries s) (nat fhandle)) (\<lambda>a.
           Ok (if a = FREE then None else Some fhandle)))"

definition is_in_open_file_table :: "int \<Rightarrow> fs_state \<Rightarrow> (bool \<times> fs_state) result" where
  "is_in_open_file_table inumber s =
     (if \<not> valid_inumber s inumber then Ok (False, s)
      else
       bindR (rwl_rdlock Open_file_table_rwl s) (\<lambda>s.
       bindR (findR (\<lambda>i. bindR (arr_get (free_open_file_entries s) i) (\<lambda>a.
                         if a = TAKEN
                         then bindR (arr_get (open_file_table s) i) (\<lambda>e. Ok (of_inumber e = inumber))
                         else Ok False))
                [0..<unat (MAX_OPEN_FILES s)]) (\<lambda>r.
       bindR (rwl_unlock Open_file_table_rwl s) (\<lambda>s. Ok (r \<noteq> None, s)))))"

end
