(* ===== verification/FS_Operations.thy ===== *)
theory FS_Operations
  imports FS_State
begin

text \<open>
  The client interface of TecnicoFS (\<open>fs/operations.c\<close>, \<open>fs/operations.h\<close>), one definition
  per function, with the branches, early returns, lock and unlock calls of the source.
\<close>

section \<open>Parameters and initialisation\<close>

definition tfs_default_params :: tfs_params where
  "tfs_default_params =
     \<lparr>max_inode_count = 64, max_block_count = 1024, max_open_files_count = 16, block_size = 1024\<rparr>"

definition tfs_init ::
  "tfs_params option \<Rightarrow> fs_allocs \<Rightarrow> fs_state \<Rightarrow> (int \<times> fs_state) result" where
  "tfs_init params_ptr al s =
     (let params = (case params_ptr of Some p \<Rightarrow> p | None \<Rightarrow> tfs_default_params) in
      bindR (state_init params al s) (\<lambda>(r, s).
      if r \<noteq> 0 then Ok (-1, s)
      else
       bindR (inode_create T_DIRECTORY s) (\<lambda>(root, s).
       if root \<noteq> ROOT_DIR_INUM then Ok (-1, s) else Ok (0, s))))"

definition tfs_destroy :: "fs_state \<Rightarrow> (int \<times> fs_state) result" where
  "tfs_destroy s =
     bindR (state_destroy s) (\<lambda>(r, s). if r \<noteq> 0 then Ok (-1, s) else Ok (0, s))"

section \<open>Path names\<close>

definition slash :: byte where "slash = 47"

definition valid_pathname :: "cstring option \<Rightarrow> bool" where
  "valid_pathname name =
     (case name of None \<Rightarrow> False | Some n \<Rightarrow> length n > 1 \<and> n ! 0 = slash)"

definition tfs_lookup :: "cstring option \<Rightarrow> int \<Rightarrow> fs_state \<Rightarrow> int result" where
  "tfs_lookup name root_inode s =
     (if \<not> valid_pathname name then Ok (-1)
      else
       bindR (inode_at s root_inode) (\<lambda>ino.
       if i_node_type ino \<noteq> T_DIRECTORY then Ok (-1)
       else find_in_dir root_inode (tl (the name)) s))"

text \<open>A lock obtained as a pointer: locking through \<open>NULL\<close> is undefined.\<close>

definition some_lock :: "fs_lock option \<Rightarrow> fs_lock result" where
  "some_lock l = (case l of None \<Rightarrow> Undef | Some l \<Rightarrow> Ok l)"

section \<open>Opening a file\<close>

type_synonym tfs_file_mode_t = "32 word"

definition TFS_O_CREAT :: tfs_file_mode_t where "TFS_O_CREAT = 1"
definition TFS_O_TRUNC :: tfs_file_mode_t where "TFS_O_TRUNC = 2"
definition TFS_O_APPEND :: tfs_file_mode_t where "TFS_O_APPEND = 4"

definition has_flag :: "tfs_file_mode_t \<Rightarrow> tfs_file_mode_t \<Rightarrow> bool" where
  "has_flag mode flag \<longleftrightarrow> mode AND flag \<noteq> 0"

text \<open>
  One activation of \<open>tfs_open\<close> ends by returning a value or, at a symbolic link, by calling
  itself on the path stored in the link and returning what that call returns.
\<close>

datatype open_next = Returned int | Follow cstring

definition tfs_open_body ::
  "cstring option \<Rightarrow> tfs_file_mode_t \<Rightarrow> fs_state \<Rightarrow> (open_next \<times> fs_state) result" where
  "tfs_open_body name mode s =
     (if \<not> valid_pathname name then Ok (Returned (-1), s)
      else case inode_get ROOT_DIR_INUM s of
        None \<Rightarrow> Ok (Returned (-1), s)
      | Some root_dir_inode \<Rightarrow>
        bindR (some_lock (inode_rwl_get ROOT_DIR_INUM s)) (\<lambda>root_dir_rwl.
        bindR (rwl_wrlock root_dir_rwl s) (\<lambda>s.
        bindR (tfs_lookup name root_dir_inode s) (\<lambda>inum.
        bindR
         (if inum \<ge> 0 then
            bindR (rwl_unlock root_dir_rwl s) (\<lambda>s.
            case inode_get inum s of
              None \<Rightarrow> Abort
            | Some inode \<Rightarrow>
              bindR (some_lock (inode_rwl_get inum s)) (\<lambda>inode_rwl.
              bindR (rwl_wrlock inode_rwl s) (\<lambda>s.
              bindR (inode_at s inode) (\<lambda>ino.
              if i_node_type ino = T_LINK then
                if has_flag mode TFS_O_CREAT then
                  bindR (rwl_unlock inode_rwl s) (\<lambda>s. Ok (Inl (Returned (-1)), s))
                else
                  (case data_block_get (i_data_block ino) s of
                     None \<Rightarrow> Undef
                   | Some block \<Rightarrow>
                     bindR (string_at (fs_data s) block) (\<lambda>buffer.
                     if length buffer + 1 > MAX_FILE_NAME then Undef
                     else bindR (rwl_unlock inode_rwl s) (\<lambda>s. Ok (Inl (Follow buffer), s))))
              else
                bindR (if has_flag mode TFS_O_TRUNC \<and> i_size ino > 0
                       then bindR (data_block_free (i_data_block ino) s) (\<lambda>(_, s).
                            inode_put inode (ino\<lparr>i_size := 0\<rparr>) s)
                       else Ok s) (\<lambda>s.
                bindR (inode_at s inode) (\<lambda>ino.
                let offset = (if has_flag mode TFS_O_APPEND then i_size ino else 0) in
                bindR (rwl_unlock inode_rwl s) (\<lambda>s. Ok (Inr (inum, offset), s))))))))
          else if has_flag mode TFS_O_CREAT then
            bindR (inode_create T_FILE s) (\<lambda>(inum, s).
            if inum = -1 then bindR (rwl_unlock root_dir_rwl s) (\<lambda>s. Ok (Inl (Returned (-1)), s))
            else
             bindR (add_dir_entry root_dir_inode (tl (the name)) inum s) (\<lambda>(r, s).
             if r = -1 then
               bindR (inode_delete inum s) (\<lambda>(_, s).
               bindR (rwl_unlock root_dir_rwl s) (\<lambda>s. Ok (Inl (Returned (-1)), s)))
             else bindR (rwl_unlock root_dir_rwl s) (\<lambda>s. Ok (Inr (inum, 0), s))))
          else bindR (rwl_unlock root_dir_rwl s) (\<lambda>s. Ok (Inl (Returned (-1)), s)))
         (\<lambda>(next, s).
          case next of
            Inl nx \<Rightarrow> Ok (nx, s)
          | Inr (inum, offset) \<Rightarrow>
              bindR (add_to_open_file_table inum offset s) (\<lambda>(fd, s). Ok (Returned fd, s)))))))"

text \<open>
  \<open>tfs_open\<close> with its recursion. \<open>None\<close> means that the recursion never ends, as on a
  cycle of symbolic links.
\<close>

partial_function (option) tfs_open ::
  "cstring option \<Rightarrow> tfs_file_mode_t \<Rightarrow> fs_state \<Rightarrow> (int \<times> fs_state) result option" where
  "tfs_open name mode s =
     (case tfs_open_body name mode s of
        Ok (nx, s') \<Rightarrow>
          (case nx of
             Returned fd \<Rightarrow> Some (Ok (fd, s'))
           | Follow buffer \<Rightarrow> tfs_open (Some buffer) mode s')
      | Abort \<Rightarrow> Some Abort
      | Undef \<Rightarrow> Some Undef
      | Deadlock \<Rightarrow> Some Deadlock)"

declare tfs_open.simps [code]

section \<open>Links\<close>

definition tfs_sym_link ::
  "cstring option \<Rightarrow> cstring option \<Rightarrow> fs_state \<Rightarrow> (int \<times> fs_state) result" where
  "tfs_sym_link target link_name s =
     (if \<not> valid_pathname link_name then Ok (-1, s)
      else
       bindR (some_lock (inode_rwl_get ROOT_DIR_INUM s)) (\<lambda>root_lock.
       bindR (rwl_wrlock root_lock s) (\<lambda>s.
       bindR (tfs_lookup target ROOT_DIR_INUM s) (\<lambda>target_inumber.
       if target_inumber = -1 then bindR (rwl_unlock root_lock s) (\<lambda>s. Ok (-1, s))
       else
        bindR (tfs_lookup link_name ROOT_DIR_INUM s) (\<lambda>r.
        if r \<noteq> -1 then bindR (rwl_unlock root_lock s) (\<lambda>s. Ok (-1, s))
        else
         bindR (inode_create T_LINK s) (\<lambda>(new_inum, s).
         if new_inum = -1 then bindR (rwl_unlock root_lock s) (\<lambda>s. Ok (-1, s))
         else
          bindR (data_block_alloc s) (\<lambda>(new_bnum, s).
          if new_bnum = -1 then
            bindR (inode_delete new_inum s) (\<lambda>(_, s).
            bindR (rwl_unlock root_lock s) (\<lambda>s. Ok (-1, s)))
          else
           (case data_block_get new_bnum s of
              None \<Rightarrow> Undef
            | Some block \<Rightarrow>
              bindR (mem_write (fs_data s) block (the target @ [0])) (\<lambda>m.
              bindR (inode_at s new_inum) (\<lambda>ino.
              bindR (inode_put new_inum (ino\<lparr>i_data_block := new_bnum\<rparr>) (s\<lparr>fs_data := m\<rparr>)) (\<lambda>s.
              bindR (add_dir_entry ROOT_DIR_INUM (tl (the link_name)) new_inum s) (\<lambda>(r, s).
              if r = -1 then
                bindR (inode_delete new_inum s) (\<lambda>(_, s).
                bindR (rwl_unlock root_lock s) (\<lambda>s. Ok (-1, s)))
              else bindR (rwl_unlock root_lock s) (\<lambda>s. Ok (0, s))))))))))))))"

definition tfs_link ::
  "cstring option \<Rightarrow> cstring option \<Rightarrow> fs_state \<Rightarrow> (int \<times> fs_state) result" where
  "tfs_link target link_name s =
     (if \<not> valid_pathname link_name then Ok (-1, s)
      else
       bindR (some_lock (inode_rwl_get ROOT_DIR_INUM s)) (\<lambda>root_lock.
       bindR (rwl_wrlock root_lock s) (\<lambda>s.
       bindR (tfs_lookup target ROOT_DIR_INUM s) (\<lambda>target_inumber.
       if target_inumber = -1 then bindR (rwl_unlock root_lock s) (\<lambda>s. Ok (-1, s))
       else
        bindR (tfs_lookup link_name ROOT_DIR_INUM s) (\<lambda>r.
        if r \<noteq> -1 then bindR (rwl_unlock root_lock s) (\<lambda>s. Ok (-1, s))
        else
         bindR (some_lock (inode_rwl_get target_inumber s)) (\<lambda>target_inode_lock.
         bindR (rwl_wrlock target_inode_lock s) (\<lambda>s.
         bindR (inode_at s target_inumber) (\<lambda>target_inode.
         if i_node_type target_inode = T_LINK then
           bindR (rwl_unlock target_inode_lock s) (\<lambda>s.
           bindR (rwl_unlock root_lock s) (\<lambda>s. Ok (-1, s)))
         else
          bindR (add_dir_entry ROOT_DIR_INUM (tl (the link_name)) target_inumber s) (\<lambda>(r, s).
          if r = -1 then
            bindR (rwl_unlock target_inode_lock s) (\<lambda>s.
            bindR (rwl_unlock root_lock s) (\<lambda>s. Ok (-1, s)))
          else
           bindR (inode_at s target_inumber) (\<lambda>ino.
           bindR (inode_put target_inumber (ino\<lparr>i_links_count := i_links_count ino + 1\<rparr>) s) (\<lambda>s.
           bindR (rwl_unlock target_inode_lock s) (\<lambda>s.
           bindR (rwl_unlock root_lock s) (\<lambda>s. Ok (0, s))))))))))))))"

text \<open>
  \<open>tfs_unlink\<close>. The branch where \<open>inode_delete\<close> fails returns without unlocking the
  target inode, as the source does.
\<close>

definition tfs_unlink :: "cstring option \<Rightarrow> fs_state \<Rightarrow> (int \<times> fs_state) result" where
  "tfs_unlink target s =
     bindR (some_lock (inode_rwl_get ROOT_DIR_INUM s)) (\<lambda>root_lock.
     bindR (rwl_wrlock root_lock s) (\<lambda>s.
     bindR (tfs_lookup target ROOT_DIR_INUM s) (\<lambda>target_inum.
     if target_inum = -1 then bindR (rwl_unlock root_lock s) (\<lambda>s. Ok (-1, s))
     else
      bindR (inode_at s target_inum) (\<lambda>target_inode.
      bindR (if i_node_type target_inode \<noteq> T_LINK then is_in_open_file_table target_inum s
             else Ok (False, s)) (\<lambda>(opened, s).
      if opened then bindR (rwl_unlock root_lock s) (\<lambda>s. Ok (-1, s))
      else
       bindR (clear_dir_entry ROOT_DIR_INUM (tl (the target)) s) (\<lambda>(r, s).
       if r = -1 then bindR (rwl_unlock root_lock s) (\<lambda>s. Ok (-1, s))
       else
        bindR (some_lock (inode_rwl_get target_inum s)) (\<lambda>target_rwl.
        bindR (rwl_wrlock target_rwl s) (\<lambda>s.
        bindR (inode_at s target_inum) (\<lambda>ino.
        if i_links_count ino = 1 then
          bindR (inode_delete target_inum s) (\<lambda>(r, s).
          if r = -1 then bindR (rwl_unlock root_lock s) (\<lambda>s. Ok (-1, s))
          else
           bindR (rwl_unlock target_rwl s) (\<lambda>s.
           bindR (rwl_unlock root_lock s) (\<lambda>s. Ok (0, s))))
        else
          bindR (inode_put target_inum (ino\<lparr>i_links_count := i_links_count ino - 1\<rparr>) s) (\<lambda>s.
          bindR (rwl_unlock target_rwl s) (\<lambda>s.
          bindR (rwl_unlock root_lock s) (\<lambda>s. Ok (0, s)))))))))))))"

section \<open>Open files\<close>

definition tfs_close :: "int \<Rightarrow> fs_state \<Rightarrow> (int \<times> fs_state) result" where
  "tfs_close fhandle s =
     bindR (get_open_file_entry fhandle s) (\<lambda>file.
     case file of
       None \<Rightarrow> Ok (-1, s)
     | Some _ \<Rightarrow> bindR (remove_from_open_file_table fhandle s) (\<lambda>(_, s). Ok (0, s)))"

text \<open>
  \<open>tfs_write\<close>. \<open>buffer\<close> is the array the caller passes; a copy of more bytes than it has
  is undefined. Lengths and offsets are \<open>size_t\<close> and wrap.
\<close>

definition tfs_write :: "int \<Rightarrow> byte list \<Rightarrow> size_t \<Rightarrow> fs_state \<Rightarrow> (int \<times> fs_state) result" where
  "tfs_write fhandle buffer to_write s =
     bindR (get_open_file_entry fhandle s) (\<lambda>file.
     case file of
       None \<Rightarrow> Ok (-1, s)
     | Some f \<Rightarrow>
       bindR (mutex_lock (Open_file_mutex f) s) (\<lambda>s.
       bindR (arr_get (open_file_table s) (nat f)) (\<lambda>entry.
       let inode = of_inumber entry in
       bindR (some_lock (inode_rwl_get inode s)) (\<lambda>inode_lock.
       bindR (rwl_wrlock inode_lock s) (\<lambda>s.
       let to_write = (if to_write + of_offset entry > state_block_size s
                       then state_block_size s - of_offset entry else to_write) in
       if to_write > 0 then
         bindR (inode_at s inode) (\<lambda>ino.
         bindR (if i_size ino = 0
                then bindR (data_block_alloc s) (\<lambda>(bnum, s).
                     if bnum = -1 then Ok (False, s)
                     else bindR (inode_put inode (ino\<lparr>i_data_block := bnum\<rparr>) s) (\<lambda>s. Ok (True, s)))
                else Ok (True, s)) (\<lambda>(space, s).
         if \<not> space then
           bindR (rwl_unlock inode_lock s) (\<lambda>s.
           bindR (mutex_unlock (Open_file_mutex f) s) (\<lambda>s. Ok (-1, s)))
         else
          bindR (inode_at s inode) (\<lambda>ino.
          case data_block_get (i_data_block ino) s of
            None \<Rightarrow>
              bindR (rwl_unlock inode_lock s) (\<lambda>s.
              bindR (mutex_unlock (Open_file_mutex f) s) (\<lambda>s. Ok (-1, s)))
          | Some block \<Rightarrow>
              bindR (mem_read buffer 0 (unat to_write)) (\<lambda>bytes.
              bindR (mem_write (fs_data s) (block + unat (of_offset entry)) bytes) (\<lambda>m.
              let offset = of_offset entry + to_write in
              bindR (arr_set (open_file_table s) (nat f) (entry\<lparr>of_offset := offset\<rparr>)) (\<lambda>t.
              bindR (inode_put inode (if offset > i_size ino then ino\<lparr>i_size := offset\<rparr> else ino)
                       (s\<lparr>fs_data := m, open_file_table := t\<rparr>)) (\<lambda>s.
              bindR (rwl_unlock inode_lock s) (\<lambda>s.
              bindR (mutex_unlock (Open_file_mutex f) s) (\<lambda>s.
              Ok (sint to_write, s))))))))))
       else
         bindR (rwl_unlock inode_lock s) (\<lambda>s.
         bindR (mutex_unlock (Open_file_mutex f) s) (\<lambda>s. Ok (sint to_write, s))))))))"

text \<open>
  \<open>tfs_read\<close> returns the count and the bytes it copied to the caller's buffer, which has room
  for \<open>len\<close> bytes. \<open>i_size - of_offset\<close> is computed in \<open>size_t\<close>.
\<close>

definition tfs_read :: "int \<Rightarrow> size_t \<Rightarrow> fs_state \<Rightarrow> (int \<times> byte list \<times> fs_state) result" where
  "tfs_read fhandle len s =
     bindR (get_open_file_entry fhandle s) (\<lambda>file.
     case file of
       None \<Rightarrow> Ok (-1, [], s)
     | Some f \<Rightarrow>
       bindR (mutex_lock (Open_file_mutex f) s) (\<lambda>s.
       bindR (arr_get (open_file_table s) (nat f)) (\<lambda>entry.
       let inode = of_inumber entry in
       bindR (some_lock (inode_rwl_get inode s)) (\<lambda>inode_lock.
       bindR (rwl_rdlock inode_lock s) (\<lambda>s.
       bindR (inode_at s inode) (\<lambda>ino.
       let to_read = i_size ino - of_offset entry;
           to_read = (if to_read > len then len else to_read) in
       if to_read > 0 then
         (case data_block_get (i_data_block ino) s of
            None \<Rightarrow>
              bindR (rwl_unlock inode_lock s) (\<lambda>s.
              bindR (mutex_unlock (Open_file_mutex f) s) (\<lambda>s. Ok (-1, [], s)))
          | Some block \<Rightarrow>
              bindR (mem_read (fs_data s) (block + unat (of_offset entry)) (unat to_read)) (\<lambda>bytes.
              bindR (arr_set (open_file_table s) (nat f)
                       (entry\<lparr>of_offset := of_offset entry + to_read\<rparr>)) (\<lambda>t.
              bindR (rwl_unlock inode_lock (s\<lparr>open_file_table := t\<rparr>)) (\<lambda>s.
              bindR (mutex_unlock (Open_file_mutex f) s) (\<lambda>s.
              Ok (sint to_read, bytes, s))))))
       else
         bindR (rwl_unlock inode_lock s) (\<lambda>s.
         bindR (mutex_unlock (Open_file_mutex f) s) (\<lambda>s. Ok (sint to_read, [], s)))))))))"

section \<open>Copying from the host file system\<close>

text \<open>
  The host file is a parameter: \<open>None\<close> when \<open>fopen\<close> fails, otherwise its contents, of which
  \<open>fread\<close> delivers at most \<open>BLOCK_SIZE + 1\<close> bytes; \<open>close_fails\<close> says whether
  \<open>fclose\<close> reports an error.
\<close>

definition tfs_copy_from_external_fs ::
  "byte list option \<Rightarrow> bool \<Rightarrow> cstring option \<Rightarrow> fs_state \<Rightarrow> (int \<times> fs_state) result option" where
  "tfs_copy_from_external_fs source close_fails dest_path s =
     (case source of
        None \<Rightarrow> Some (Ok (-1, s))
      | Some contents \<Rightarrow>
          let buffer = take (unat (state_block_size s + 1)) contents;
              bytes_read = (of_nat (length buffer) :: size_t) in
          if bytes_read = -1 \<or> bytes_read > state_block_size s then Some (Ok (-1, s))
          else
            Option.bind (tfs_open dest_path (TFS_O_TRUNC OR TFS_O_CREAT) s) (\<lambda>opened.
            Some (bindR opened (\<lambda>(fd, s).
              if fd = -1 then Ok (-1, s)
              else
                bindR (tfs_write fd buffer bytes_read s) (\<lambda>(bytes_size, s).
                if bytes_size = -1 then bindR (tfs_close fd s) (\<lambda>(_, s). Ok (-1, s))
                else if close_fails then Ok (-1, s)
                else bindR (tfs_close fd s) (\<lambda>(r, s).
                     if r = -1 then Ok (-1, s) else Ok (0, s)))))))"

end
