(* ===== verification/Dir_Entries.thy ===== *)
theory Dir_Entries
  imports FS_State
begin

text \<open>
  The directory block seen as a list of entries. The first part relates the bytes of a block to the
  list of \<open>(d_name, d_inumber)\<close> pairs it encodes; the second part is the directory as a finite
  map from names to inumbers, with the search, insertion and removal that \<open>find_in_dir\<close>,
  \<open>add_dir_entry\<close> and \<open>clear_dir_entry\<close> carry out on it.
\<close>

section \<open>Entries encoded in memory\<close>

type_synonym dirent = "byte list \<times> int"

definition entry_at :: "byte list \<Rightarrow> nat \<Rightarrow> nat \<Rightarrow> dirent" where
  "entry_at m a k =
     (read_at (d_name_addr a k) MAX_FILE_NAME m, dec32 (read_at (d_inumber_addr a k) 4 m))"

definition entries :: "byte list \<Rightarrow> nat \<Rightarrow> nat \<Rightarrow> dirent list" where
  "entries m a n = map (entry_at m a) [0..<n]"

definition set_entry :: "nat \<Rightarrow> nat \<Rightarrow> byte list \<Rightarrow> int \<Rightarrow> byte list \<Rightarrow> byte list" where
  "set_entry a k nm i m = write_at (d_name_addr a k) nm (write_at (d_inumber_addr a k) (enc32 i) m)"

section \<open>The directory as a map\<close>

definition cname :: "byte list \<Rightarrow> cstring" where
  "cname nm = takeWhile (\<lambda>c. c \<noteq> 0) nm"

definition good_name :: "cstring \<Rightarrow> bool" where
  "good_name t \<longleftrightarrow> t \<noteq> [] \<and> length t < MAX_FILE_NAME \<and> 0 \<notin> set t"

definition live :: "dirent \<Rightarrow> bool" where
  "live e \<longleftrightarrow> snd e \<noteq> -1"

definition ename :: "dirent \<Rightarrow> cstring" where
  "ename e = cname (fst e)"

text \<open>
  An entry the code has written: cleared to zeroes, or in use with a NUL-padded name. Entries never
  used since the block was allocated are marked free but their name bytes are arbitrary; they all
  lie behind the entries that have been used.
\<close>

definition wf_entry :: "dirent \<Rightarrow> bool" where
  "wf_entry e \<longleftrightarrow>
     (if live e then good_name (ename e) \<and> fst e = pad MAX_FILE_NAME (ename e)
      else fst e = replicate MAX_FILE_NAME 0)"

definition wf_dir :: "dirent list \<Rightarrow> bool" where
  "wf_dir es \<longleftrightarrow>
     (\<exists>h\<le>length es. (\<forall>k<h. wf_entry (es ! k)) \<and> (\<forall>k<length es. h \<le> k \<longrightarrow> \<not> live (es ! k))) \<and>
     distinct (map ename (filter live es))"

definition dir_map :: "dirent list \<Rightarrow> cstring \<rightharpoonup> int" where
  "dir_map es = map_of (map (\<lambda>e. (ename e, snd e)) (filter live es))"

definition refs :: "dirent list \<Rightarrow> int \<Rightarrow> nat" where
  "refs es i = length (filter (\<lambda>e. snd e = i) es)"

definition dir_add :: "cstring \<Rightarrow> int \<Rightarrow> dirent list \<Rightarrow> dirent list option" where
  "dir_add t i es =
     (case find (\<lambda>k. \<not> live (es ! k)) [0..<length es] of
        None \<Rightarrow> None
      | Some k \<Rightarrow> Some (es[k := (pad MAX_FILE_NAME t, i)]))"

definition dir_clear :: "cstring \<Rightarrow> dirent list \<Rightarrow> dirent list option" where
  "dir_clear t es =
     (case find (\<lambda>k. live (es ! k) \<and> ename (es ! k) = t) [0..<length es] of
        None \<Rightarrow> None
      | Some k \<Rightarrow> Some (es[k := (replicate MAX_FILE_NAME 0, -1)]))"

section \<open>Lemmas about encoded entries\<close>

lemmas entry_addrs = d_name_addr_def d_inumber_addr_def

lemma length_entries [simp]: "length (entries m a n) = n"
  by (simp add: entries_def)

lemma nth_entries [simp]: "k < n \<Longrightarrow> entries m a n ! k = entry_at m a k"
  by (simp add: entries_def)

lemma entries_outside:
  assumes "p + length xs \<le> length m" "a + sizeof_dir_entry * n \<le> length m"
    and "p + length xs \<le> a \<or> a + sizeof_dir_entry * n \<le> p"
  shows "entries (write_at p xs m) a n = entries m a n"
proof -
  have "entry_at (write_at p xs m) a k = entry_at m a k" if "k < n" for k
  proof -
    from that have "44 * k + 44 \<le> 44 * n" by simp
    with assms show ?thesis
      by (auto simp: entry_at_def entry_addrs intro!: read_write_disjoint arg_cong [of _ _ dec32])
  qed
  then show ?thesis by (simp add: entries_def)
qed

lemma length_set_entry [simp]:
  assumes "k < n" "a + sizeof_dir_entry * n \<le> length m" "length nm = MAX_FILE_NAME"
  shows "length (set_entry a k nm i m) = length m"
proof -
  from assms(1) have "44 * k + 44 \<le> 44 * n" by simp
  with assms show ?thesis by (simp add: set_entry_def entry_addrs)
qed

lemma entries_set_entry:
  assumes "k < n" "a + sizeof_dir_entry * n \<le> length m" "length nm = MAX_FILE_NAME" "int32_range i"
  shows "entries (set_entry a k nm i m) a n = (entries m a n)[k := (nm, i)]"
proof (rule nth_equalityI)
  fix j
  assume j: "j < length (entries (set_entry a k nm i m) a n)"
  then have jn: "j < n" by simp
  have k44: "44 * k + 44 \<le> 44 * n" and j44: "44 * j + 44 \<le> 44 * n"
    using assms(1) jn by simp_all
  show "entries (set_entry a k nm i m) a n ! j = (entries m a n)[k := (nm, i)] ! j"
  proof (cases "j = k")
    case True
    have "read_at (d_name_addr a k) MAX_FILE_NAME (set_entry a k nm i m) = nm"
      using assms k44 read_write_same [of "d_name_addr a k" nm "write_at (d_inumber_addr a k) (enc32 i) m"]
      by (simp add: set_entry_def entry_addrs)
    moreover have "read_at (d_inumber_addr a k) 4 (set_entry a k nm i m) = enc32 i"
      using assms k44 read_write_same [of "d_inumber_addr a k" "enc32 i" m]
      by (simp add: set_entry_def entry_addrs read_write_disjoint)
    ultimately show ?thesis
      using True jn assms(4) by (simp add: entry_at_def dec32_enc32)
  next
    case False
    then have "44 * j + 44 \<le> 44 * k \<or> 44 * k + 44 \<le> 44 * j" by arith
    then have "entry_at (set_entry a k nm i m) a j = entry_at m a j"
      using assms k44 j44 by (auto simp: entry_at_def set_entry_def entry_addrs read_write_disjoint)
    with False jn show ?thesis by simp
  qed
qed simp

lemma set_entry_outside:
  assumes "k < n" "a + sizeof_dir_entry * n \<le> length m" "length nm = MAX_FILE_NAME"
    and "q + l \<le> length m" "q + l \<le> a \<or> a + sizeof_dir_entry * n \<le> q"
  shows "read_at q l (set_entry a k nm i m) = read_at q l m"
proof -
  from assms(1) have "44 * k + 44 \<le> 44 * n" by simp
  with assms show ?thesis
    by (auto simp: set_entry_def entry_addrs read_write_disjoint)
qed

section \<open>Lemmas about the directory map\<close>

lemma cname_pad: "0 \<notin> set t \<Longrightarrow> cname (pad n t) = t"
proof -
  assume "0 \<notin> set t"
  then have "takeWhile (\<lambda>c. c \<noteq> 0) (t @ replicate (n - length t) (0::byte)) =
      t @ takeWhile (\<lambda>c. c \<noteq> 0) (replicate (n - length t) 0)"
    by (intro takeWhile_append2) auto
  then show ?thesis by (simp add: cname_def pad_def)
qed

lemma ename_pad [simp]: "good_name t \<Longrightarrow> ename (pad MAX_FILE_NAME t, i) = t"
  by (simp add: ename_def cname_pad good_name_def)

lemma ename_cleared [simp]: "ename (replicate n 0, i) = []"
  by (simp add: ename_def cname_def)

lemma live_simps [simp]: "live (nm, i) \<longleftrightarrow> i \<noteq> -1"
  by (simp add: live_def)

lemma wf_dir_distinct: "wf_dir es \<Longrightarrow> distinct (map ename (filter live es))"
  by (simp add: wf_dir_def)

lemma wf_dir_live: "wf_dir es \<Longrightarrow> e \<in> set es \<Longrightarrow> live e \<Longrightarrow> wf_entry e"
  by (metis wf_dir_def in_set_conv_nth not_le)

lemma wf_dir_before_live:
  "wf_dir es \<Longrightarrow> k < length es \<Longrightarrow> live (es ! k) \<Longrightarrow> j \<le> k \<Longrightarrow> wf_entry (es ! j)"
  by (metis wf_dir_def le_less_trans not_le)

lemma dir_map_Some:
  assumes "wf_dir es"
  shows "dir_map es t = Some i \<longleftrightarrow> (\<exists>e\<in>set es. live e \<and> ename e = t \<and> snd e = i)"
proof -
  have "distinct (map fst (map (\<lambda>e. (ename e, snd e)) (filter live es)))"
    using wf_dir_distinct [OF assms] by (simp add: o_def)
  from map_of_eq_Some_iff [OF this] show ?thesis
    by (auto simp: dir_map_def)
qed

lemma dir_map_None: "dir_map es t = None \<longleftrightarrow> (\<forall>e\<in>set es. live e \<longrightarrow> ename e \<noteq> t)"
  by (force simp: dir_map_def map_of_eq_None_iff)

lemma dir_map_not_minus1: "dir_map es t = Some i \<Longrightarrow> i \<noteq> -1"
  by (auto simp: dir_map_def live_def dest!: map_of_SomeD)

lemma dir_map_refs: "dir_map es t = Some i \<Longrightarrow> 0 < refs es i"
  by (auto simp: dir_map_def refs_def live_def filter_empty_conv dest!: map_of_SomeD)

lemma good_name_dir_map: "wf_dir es \<Longrightarrow> dir_map es t = Some i \<Longrightarrow> good_name t"
  by (auto simp: dir_map_Some wf_entry_def dest: wf_dir_live)

lemma refs_pos_dir_map: "wf_dir es \<Longrightarrow> i \<noteq> -1 \<Longrightarrow> 0 < refs es i \<Longrightarrow> \<exists>t. dir_map es t = Some i"
  by (auto simp: dir_map_Some refs_def live_def filter_empty_conv)

subsection \<open>Insertion\<close>

lemma dir_add_SomeE:
  assumes "dir_add t i es = Some es'"
  obtains us e vs where "es = us @ e # vs" "\<forall>u\<in>set us. live u" "\<not> live e"
    "es' = us @ (pad MAX_FILE_NAME t, i) # vs"
  using assms
  by (auto simp: dir_add_def split: option.splits elim!: find_index_split [where p = "\<lambda>e. \<not> live e"])

lemma dir_add_None: "dir_add t i es = None \<longleftrightarrow> (\<forall>e\<in>set es. live e)"
  using find_index_None [of "\<lambda>e. \<not> live e" es] by (auto simp: dir_add_def split: option.splits)

lemma length_dir_add: "dir_add t i es = Some es' \<Longrightarrow> length es' = length es"
  by (auto elim!: dir_add_SomeE)

lemma dir_add_index:
  assumes "dir_add t i es = Some es'"
  obtains k where "k < length es" "\<not> live (es ! k)" "\<forall>j<k. live (es ! j)"
    "es' = es[k := (pad MAX_FILE_NAME t, i)]"
  using assms by (auto simp: dir_add_def find_upt_Some split: option.splits)

lemma wf_dir_add:
  assumes wf: "wf_dir es" and nm: "good_name t" and i: "i \<noteq> -1"
    and fresh: "dir_map es t = None" and add: "dir_add t i es = Some es'"
  shows "wf_dir es'"
proof -
  obtain k where k: "k < length es" "\<not> live (es ! k)" "\<forall>j<k. live (es ! j)"
    and es': "es' = es[k := (pad MAX_FILE_NAME t, i)]"
    using add by (rule dir_add_index)
  obtain h where h: "h \<le> length es" "\<forall>j<h. wf_entry (es ! j)"
    "\<forall>j<length es. h \<le> j \<longrightarrow> \<not> live (es ! j)"
    using wf by (auto simp: wf_dir_def)
  have new: "wf_entry (pad MAX_FILE_NAME t, i)"
    using nm i by (simp add: wf_entry_def)
  have "k \<le> h"
    using k(1,3) h(3) by (metis less_trans not_le order_refl)
  then have "\<forall>j<max h (Suc k). wf_entry (es' ! j)"
    using k(1) h(1,2) new by (auto simp: es' nth_list_update less_max_iff_disj less_Suc_eq)
  moreover have "\<forall>j<length es'. max h (Suc k) \<le> j \<longrightarrow> \<not> live (es' ! j)"
    using h(3) by (simp add: es')
  moreover have "max h (Suc k) \<le> length es'"
    using k(1) h(1) es' by simp
  moreover have "distinct (map ename (filter live es'))"
  proof -
    obtain us e vs where es: "es = us @ e # vs" "\<not> live e" "es' = us @ (pad MAX_FILE_NAME t, i) # vs"
      using add by (rule dir_add_SomeE)
    show ?thesis
      using wf_dir_distinct [OF wf] fresh nm i by (auto simp: es dir_map_None)
  qed
  ultimately show ?thesis unfolding wf_dir_def by blast
qed

lemma dir_map_add:
  assumes nm: "good_name t" and i: "i \<noteq> -1"
    and fresh: "dir_map es t = None" and add: "dir_add t i es = Some es'"
  shows "dir_map es' = (dir_map es)(t \<mapsto> i)"
proof -
  obtain us e vs where es: "es = us @ e # vs" "\<not> live e" "es' = us @ (pad MAX_FILE_NAME t, i) # vs"
    using add by (rule dir_add_SomeE)
  have "map_of (map (\<lambda>e. (ename e, snd e)) (filter live us)) t = None"
    using fresh by (auto simp: es dir_map_None map_of_eq_None_iff)
  then show ?thesis
    using nm i by (auto simp: dir_map_def es fun_eq_iff map_add_def split: option.splits)
qed

lemma refs_add:
  assumes "dir_add t i es = Some es'" "j \<noteq> -1"
  shows "refs es' j = refs es j + (if j = i then 1 else 0)"
  using assms by (auto simp: refs_def live_def elim!: dir_add_SomeE)

subsection \<open>Removal\<close>

lemma dir_clear_SomeE:
  assumes "dir_clear t es = Some es'"
  obtains us e vs where "es = us @ e # vs" "live e" "ename e = t"
    "es' = us @ (replicate MAX_FILE_NAME 0, -1) # vs"
  using assms
  by (auto simp: dir_clear_def split: option.splits
      elim!: find_index_split [where p = "\<lambda>e. live e \<and> ename e = t"])

lemma dir_clear_None: "dir_clear t es = None \<longleftrightarrow> dir_map es t = None"
  using find_index_None [of "\<lambda>e. live e \<and> ename e = t" es]
  by (auto simp: dir_clear_def dir_map_None split: option.splits)

lemma length_dir_clear: "dir_clear t es = Some es' \<Longrightarrow> length es' = length es"
  by (auto elim!: dir_clear_SomeE)

lemma dir_clear_index:
  assumes "dir_clear t es = Some es'"
  obtains k where "k < length es" "live (es ! k)" "ename (es ! k) = t"
    "es' = es[k := (replicate MAX_FILE_NAME 0, -1)]"
  using assms by (auto simp: dir_clear_def find_upt_Some split: option.splits)

lemma wf_dir_clear:
  assumes wf: "wf_dir es" and clr: "dir_clear t es = Some es'"
  shows "wf_dir es'"
proof -
  obtain k where k: "k < length es" "live (es ! k)"
    and es': "es' = es[k := (replicate MAX_FILE_NAME 0, -1)]"
    using clr by (rule dir_clear_index)
  obtain h where h: "h \<le> length es" "\<forall>j<h. wf_entry (es ! j)"
    "\<forall>j<length es. h \<le> j \<longrightarrow> \<not> live (es ! j)"
    using wf by (auto simp: wf_dir_def)
  have "(\<forall>j<h. wf_entry (es' ! j)) \<and> (\<forall>j<length es'. h \<le> j \<longrightarrow> \<not> live (es' ! j))"
    using k(1) h by (auto simp: es' nth_list_update wf_entry_def)
  moreover have "distinct (map ename (filter live es'))"
  proof -
    obtain us e vs where es: "es = us @ e # vs" "live e"
      "es' = us @ (replicate MAX_FILE_NAME 0, -1) # vs"
      using clr by (rule dir_clear_SomeE)
    show ?thesis
      using wf_dir_distinct [OF wf] by (auto simp: es)
  qed
  ultimately show ?thesis using h(1) es' unfolding wf_dir_def by auto
qed

lemma dir_map_clear:
  assumes wf: "wf_dir es" and clr: "dir_clear t es = Some es'"
  shows "dir_map es' = (dir_map es)(t := None)"
proof
  fix u
  obtain us e vs where es: "es = us @ e # vs" "live e" "ename e = t"
    "es' = us @ (replicate MAX_FILE_NAME 0, -1) # vs"
    using clr by (rule dir_clear_SomeE)
  have "t \<notin> ename ` {x \<in> set us \<union> set vs. live x}"
    using wf_dir_distinct [OF wf] es by auto
  then have "map_of (map (\<lambda>e. (ename e, snd e)) (filter live us)) t = None"
    "map_of (map (\<lambda>e. (ename e, snd e)) (filter live vs)) t = None"
    by (auto simp: map_of_eq_None_iff)
  then show "dir_map es' u = ((dir_map es)(t := None)) u"
    using es by (auto simp: dir_map_def map_add_def split: option.splits)
qed

lemma refs_clear:
  assumes "dir_clear t es = Some es'" "dir_map es t = Some i" "wf_dir es" "j \<noteq> -1"
  shows "refs es j = refs es' j + (if j = i then 1 else 0)"
proof -
  obtain us e vs where es: "es = us @ e # vs" "live e" "ename e = t"
    "es' = us @ (replicate MAX_FILE_NAME 0, -1) # vs"
    using assms(1) by (rule dir_clear_SomeE)
  have "dir_map es t = Some (snd e)"
    using es assms(3) by (auto simp: dir_map_Some)
  with assms(2,4) es show ?thesis by (auto simp: refs_def)
qed

end
