(* ===== verification/Interfaces.thy ===== *)
theory Interfaces
  imports TFS_Prelude
begin

text \<open>
  The contracts the components rely on, as locales: a table of slots, a directory of names, a
  bounded queue, a system whose steps keep an invariant, and a component that implements an
  abstract one operation by operation. Each locale is interpreted on the definitions that model the
  code, in the theory of the component that provides the operations.
\<close>

section \<open>Sequences of operations\<close>

fun run_ops :: "('op \<Rightarrow> 's \<Rightarrow> ('r \<times> 's) result option) \<Rightarrow> 'op list \<Rightarrow> 's \<Rightarrow> ('r list \<times> 's) result option" where
  "run_ops step [] s = Some (Ok ([], s))"
| "run_ops step (x # xs) s =
     (case step x s of
        None \<Rightarrow> None
      | Some (Ok (r, s')) \<Rightarrow>
          map_option (\<lambda>res. bindR res (\<lambda>(rs, s''). Ok (r # rs, s''))) (run_ops step xs s')
      | Some Abort \<Rightarrow> Some Abort
      | Some Undef \<Rightarrow> Some Undef
      | Some Deadlock \<Rightarrow> Some Deadlock)"

fun run_spec :: "('op \<Rightarrow> 'a \<Rightarrow> 'r \<times> 'a) \<Rightarrow> 'op list \<Rightarrow> 'a \<Rightarrow> 'r list \<times> 'a" where
  "run_spec f [] a = ([], a)"
| "run_spec f (x # xs) a = (case f x a of (r, a') \<Rightarrow> map_prod ((#) r) id (run_spec f xs a'))"

fun allowed :: "('op \<Rightarrow> 'a \<Rightarrow> bool) \<Rightarrow> ('op \<Rightarrow> 'a \<Rightarrow> 'r \<times> 'a) \<Rightarrow> 'op list \<Rightarrow> 'a \<Rightarrow> bool" where
  "allowed ok f [] a = True"
| "allowed ok f (x # xs) a \<longleftrightarrow> ok x a \<and> allowed ok f xs (snd (f x a))"

text \<open>
  A component that implements an abstract one: as long as the caller keeps the contract, every call
  returns, keeps the invariant and has the abstract effect.
\<close>

locale implements =
  fixes inv :: "'s \<Rightarrow> bool" and abs :: "'s \<Rightarrow> 'a"
    and step :: "'op \<Rightarrow> 's \<Rightarrow> ('r \<times> 's) result option"
    and spec :: "'op \<Rightarrow> 'a \<Rightarrow> 'r \<times> 'a" and ok :: "'op \<Rightarrow> 'a \<Rightarrow> bool"
  assumes step_spec: "inv s \<Longrightarrow> ok x (abs s) \<Longrightarrow>
    \<exists>r s'. step x s = Some (Ok (r, s')) \<and> inv s' \<and> spec x (abs s) = (r, abs s')"
begin

lemma run_refines:
  "inv s \<Longrightarrow> allowed ok spec xs (abs s) \<Longrightarrow>
     \<exists>rs s'. run_ops step xs s = Some (Ok (rs, s')) \<and> inv s' \<and> run_spec spec xs (abs s) = (rs, abs s')"
proof (induction xs arbitrary: s)
  case Nil
  then show ?case by simp
next
  case (Cons x xs)
  from Cons.prems step_spec [of s x] obtain r s' where
    x: "step x s = Some (Ok (r, s'))" "inv s'" "spec x (abs s) = (r, abs s')" by auto
  from Cons.IH [OF x(2)] Cons.prems x obtain rs s'' where
    "run_ops step xs s' = Some (Ok (rs, s''))" "inv s''" "run_spec spec xs (abs s') = (rs, abs s'')" by auto
  with x show ?case by simp
qed

end

section \<open>Steps that keep an invariant\<close>

locale stepping =
  fixes init :: "'s \<Rightarrow> bool" and step :: "'s \<Rightarrow> 's \<Rightarrow> bool" and good :: "'s \<Rightarrow> bool"
  assumes init_good: "init s \<Longrightarrow> good s"
    and step_good: "good s \<Longrightarrow> step s s' \<Longrightarrow> good s'"
begin

lemma reachable_good:
  assumes "step\<^sup>*\<^sup>* s s'" "init s"
  shows "good s'"
  using assms by (induction rule: rtranclp_induct) (auto intro: init_good step_good)

end

section \<open>A table of slots\<close>

text \<open>
  \<open>alloc\<close> takes the first free slot or reports -1, \<open>release\<close> gives one back; \<open>used\<close> says
  which slots are taken.
\<close>

locale slot_table =
  fixes wf :: "'s \<Rightarrow> bool" and slots :: "'s \<Rightarrow> nat" and used :: "'s \<Rightarrow> nat \<Rightarrow> bool"
    and alloc :: "'s \<Rightarrow> (int \<times> 's) result" and release :: "int \<Rightarrow> 's \<Rightarrow> (int \<times> 's) result"
  assumes alloc_full: "wf s \<Longrightarrow> \<forall>k < slots s. used s k \<Longrightarrow> alloc s = Ok (-1, s)"
    and alloc_free: "wf s \<Longrightarrow> k < slots s \<Longrightarrow> \<not> used s k \<Longrightarrow> \<forall>j<k. used s j \<Longrightarrow>
      \<exists>s'. alloc s = Ok (int k, s') \<and> wf s' \<and> slots s' = slots s \<and>
        (\<forall>j < slots s. used s' j \<longleftrightarrow> used s j \<or> j = k)"
    and release_used: "wf s \<Longrightarrow> k < slots s \<Longrightarrow> used s k \<Longrightarrow>
      \<exists>s'. release (int k) s = Ok (0, s') \<and> wf s' \<and> slots s' = slots s \<and>
        (\<forall>j < slots s. used s' j \<longleftrightarrow> used s j \<and> j \<noteq> k)"
begin

lemma alloc_cases:
  assumes "wf s"
  obtains (full) "alloc s = Ok (-1, s)" "\<forall>k < slots s. used s k"
  | (slot) k s' where "alloc s = Ok (int k, s')" "k < slots s" "\<not> used s k" "wf s'" "slots s' = slots s"
      "\<forall>j < slots s. used s' j \<longleftrightarrow> used s j \<or> j = k"
proof (cases "\<forall>k < slots s. used s k")
  case True
  then show thesis using full alloc_full [OF assms] by blast
next
  case False
  let ?P = "\<lambda>k. k < slots s \<and> \<not> used s k"
  from False have "\<exists>k. ?P k" by blast
  then obtain k where "?P k" "\<forall>j<k. \<not> ?P j" using exists_least_iff [of ?P] by blast
  then have k: "k < slots s" "\<not> used s k" "\<forall>j<k. used s j" using less_trans by blast+
  from alloc_free [OF assms k] k show thesis using slot by blast
qed

lemma alloc_succeeds_iff: "wf s \<Longrightarrow> (\<exists>k s'. alloc s = Ok (int k, s')) \<longleftrightarrow> (\<exists>k < slots s. \<not> used s k)"
  by (erule alloc_cases) auto

text \<open>Two allocations in a row never give the same slot.\<close>

lemma alloc_distinct:
  assumes "wf s" "alloc s = Ok (int j, s1)" "alloc s1 = Ok (int k, s2)"
  shows "j \<noteq> k"
proof
  assume "j = k"
  from assms(1) show False
  proof (cases rule: alloc_cases)
    case (slot i s')
    then have s': "i = j" "s' = s1" "wf s1" using assms(2) by auto
    from s'(3) show False
      by (cases rule: alloc_cases) (use assms(3) slot s' \<open>j = k\<close> in auto)
  qed (use assms(2) in auto)
qed

text \<open>Releasing what was just allocated frees exactly that slot again.\<close>

lemma alloc_release:
  assumes "wf s" "alloc s = Ok (int k, s1)"
  obtains s2 where "release (int k) s1 = Ok (0, s2)" "wf s2" "\<forall>j < slots s. used s2 j \<longleftrightarrow> used s j"
  using assms(1)
proof (cases rule: alloc_cases)
  case (slot i s')
  then have s': "i = k" "s' = s1" using assms(2) by auto
  then have "used s1 k" "k < slots s1" "wf s1" using slot by auto
  from release_used [OF this(3,2,1)] obtain s2 where "release (int k) s1 = Ok (0, s2)" "wf s2"
    "\<forall>j < slots s1. used s2 j \<longleftrightarrow> used s1 j \<and> j \<noteq> k" by blast
  with slot s' show thesis by (intro that [of s2]) auto
qed (use assms(2) in auto)

end

section \<open>A directory\<close>

text \<open>
  Names are looked up, added and cleared; \<open>names\<close> is the directory as a map and \<open>room\<close> says
  whether an entry is left. -1 is the answer for a missing name and for a failed operation.
\<close>

locale directory =
  fixes wf :: "'s \<Rightarrow> bool" and names :: "'s \<Rightarrow> 'n \<rightharpoonup> int" and room :: "'s \<Rightarrow> bool"
    and good :: "'n \<Rightarrow> bool" and inum :: "int \<Rightarrow> bool"
    and find :: "'n \<Rightarrow> 's \<Rightarrow> int result" and add :: "'n \<Rightarrow> int \<Rightarrow> 's \<Rightarrow> (int \<times> 's) result"
    and clear :: "'n \<Rightarrow> 's \<Rightarrow> (int \<times> 's) result"
  assumes find_names: "wf s \<Longrightarrow> good nm \<Longrightarrow> find nm s = Ok (case names s nm of None \<Rightarrow> -1 | Some i \<Rightarrow> i)"
    and names_good: "wf s \<Longrightarrow> names s nm = Some i \<Longrightarrow> good nm \<and> i \<noteq> -1"
    and inum_ok: "inum i \<Longrightarrow> i \<noteq> -1"
    and add_full: "wf s \<Longrightarrow> good nm \<Longrightarrow> \<not> room s \<Longrightarrow> add nm i s = Ok (-1, s)"
    and add_room: "wf s \<Longrightarrow> good nm \<Longrightarrow> room s \<Longrightarrow> inum i \<Longrightarrow> names s nm = None \<Longrightarrow>
      \<exists>s'. add nm i s = Ok (0, s') \<and> wf s' \<and> names s' = (names s)(nm \<mapsto> i)"
    and clear_name: "wf s \<Longrightarrow> names s nm = Some i \<Longrightarrow>
      \<exists>s'. clear nm s = Ok (0, s') \<and> wf s' \<and> room s' \<and> names s' = (names s)(nm := None)"
begin

lemma find_present: "wf s \<Longrightarrow> names s nm = Some i \<Longrightarrow> find nm s = Ok i"
  using find_names [of s nm] names_good [of s nm i] by simp

lemma find_absent: "wf s \<Longrightarrow> good nm \<Longrightarrow> names s nm = None \<longleftrightarrow> find nm s = Ok (-1)"
  using find_names [of s nm] names_good [of s nm] by (cases "names s nm") auto

lemma add_then_find:
  assumes "wf s" "good nm" "good m" "inum i" "names s nm = None" "add nm i s = Ok (0, s')"
  shows "find m s' = (if m = nm then Ok i else find m s)"
proof -
  have "room s" using add_full [OF assms(1,2)] assms(6) by fastforce
  then have "wf s'" "names s' = (names s)(nm \<mapsto> i)"
    using add_room [OF assms(1,2) _ assms(4,5)] assms(6) by auto
  with assms(1,3) show ?thesis by (simp add: find_names)
qed

lemma clear_then_find:
  assumes "wf s" "names s nm = Some i" "good m"
  obtains s' where "clear nm s = Ok (0, s')" "find m s' = (if m = nm then Ok (-1) else find m s)"
proof -
  obtain s' where "clear nm s = Ok (0, s')" "wf s'" "names s' = (names s)(nm := None)"
    using clear_name [OF assms(1,2)] by blast
  with assms that show thesis by (simp add: find_names)
qed

text \<open>A name that was added can be cleared again, and the directory is as before.\<close>

lemma add_clear:
  assumes "wf s" "good nm" "inum i" "names s nm = None" "add nm i s = Ok (0, s1)"
  obtains s2 where "clear nm s1 = Ok (0, s2)" "wf s2" "names s2 = names s"
proof -
  have "room s" using add_full [OF assms(1,2)] assms(5) by fastforce
  then have s1: "wf s1" "names s1 = (names s)(nm \<mapsto> i)"
    using add_room [OF assms(1,2) _ assms(3,4)] assms(5) by auto
  then obtain s2 where "clear nm s1 = Ok (0, s2)" "wf s2" "names s2 = (names s1)(nm := None)"
    using clear_name [of s1 nm i] by auto
  with s1 assms(4) that show thesis by (simp add: fun_upd_idem)
qed

text \<open>Clearing a name makes room for another one.\<close>

lemma clear_makes_room:
  assumes "wf s" "names s nm = Some i" "good m" "inum j" "names s m = None"
  obtains s1 s2 where "clear nm s = Ok (0, s1)" "add m j s1 = Ok (0, s2)" "wf s2" "find m s2 = Ok j"
proof -
  obtain s1 where s1: "clear nm s = Ok (0, s1)" "wf s1" "room s1" "names s1 = (names s)(nm := None)"
    using clear_name [OF assms(1,2)] by blast
  have "names s1 m = None" using s1(4) assms(5) by simp
  then obtain s2 where "add m j s1 = Ok (0, s2)" "wf s2" "names s2 = (names s1)(m \<mapsto> j)"
    using add_room [OF s1(2) assms(3) s1(3) assms(4)] by blast
  with s1 assms(3) that show thesis by (simp add: find_names)
qed

end

section \<open>A bounded queue\<close>

fun put_all :: "('e \<Rightarrow> 'q \<Rightarrow> (int \<times> 'q) result option) \<Rightarrow> 'e list \<Rightarrow> 'q \<Rightarrow> 'q option" where
  "put_all enq [] q = Some q"
| "put_all enq (e # es) q = (case enq e q of Some (Ok (_, q')) \<Rightarrow> put_all enq es q' | _ \<Rightarrow> None)"

fun take_all :: "('q \<Rightarrow> ('e \<times> 'q) result option) \<Rightarrow> nat \<Rightarrow> 'q \<Rightarrow> ('e list \<times> 'q) option" where
  "take_all deq 0 q = Some ([], q)"
| "take_all deq (Suc n) q =
     (case deq q of Some (Ok (e, q')) \<Rightarrow> map_option (map_prod ((#) e) id) (take_all deq n q') | _ \<Rightarrow> None)"

text \<open>\<open>None\<close> means that the caller would have to wait.\<close>

locale bounded_queue =
  fixes wf :: "'q \<Rightarrow> bool" and elems :: "'q \<Rightarrow> 'e list" and cap :: "'q \<Rightarrow> nat"
    and enq :: "'e \<Rightarrow> 'q \<Rightarrow> (int \<times> 'q) result option" and deq :: "'q \<Rightarrow> ('e \<times> 'q) result option"
  assumes bounded: "wf q \<Longrightarrow> length (elems q) \<le> cap q"
    and enq_waits: "wf q \<Longrightarrow> length (elems q) = cap q \<Longrightarrow> enq e q = None"
    and enq_adds: "wf q \<Longrightarrow> length (elems q) < cap q \<Longrightarrow>
      \<exists>q'. enq e q = Some (Ok (0, q')) \<and> wf q' \<and> elems q' = elems q @ [e] \<and> cap q' = cap q"
    and deq_waits: "wf q \<Longrightarrow> elems q = [] \<Longrightarrow> deq q = None"
    and deq_takes: "wf q \<Longrightarrow> elems q = x # xs \<Longrightarrow>
      \<exists>q'. deq q = Some (Ok (x, q')) \<and> wf q' \<and> elems q' = xs \<and> cap q' = cap q"
begin

lemma put_all_elems:
  "wf q \<Longrightarrow> length (elems q) + length es \<le> cap q \<Longrightarrow>
     \<exists>q'. put_all enq es q = Some q' \<and> wf q' \<and> elems q' = elems q @ es \<and> cap q' = cap q"
proof (induction es arbitrary: q)
  case (Cons e es)
  then obtain q1 where q1: "enq e q = Some (Ok (0, q1))" "wf q1" "elems q1 = elems q @ [e]" "cap q1 = cap q"
    using enq_adds [of q e] by auto
  with Cons.IH [OF q1(2)] Cons.prems show ?case by auto
qed simp

lemma put_all_waits:
  "wf q \<Longrightarrow> cap q < length (elems q) + length es \<Longrightarrow> put_all enq es q = None"
proof (induction es arbitrary: q)
  case Nil
  then show ?case using bounded [of q] by simp
next
  case (Cons e es)
  show ?case
  proof (cases "length (elems q) = cap q")
    case True
    with Cons.prems enq_waits [of q e] show ?thesis by simp
  next
    case False
    then have "length (elems q) < cap q" using bounded [OF Cons.prems(1)] by simp
    from enq_adds [OF Cons.prems(1) this, of e] obtain q1 where
      "enq e q = Some (Ok (0, q1))" "wf q1" "elems q1 = elems q @ [e]" "cap q1 = cap q" by blast
    with Cons.IH [of q1] Cons.prems show ?thesis by simp
  qed
qed

lemma take_all_elems:
  "wf q \<Longrightarrow> n \<le> length (elems q) \<Longrightarrow>
     \<exists>q'. take_all deq n q = Some (take n (elems q), q') \<and> wf q' \<and> elems q' = drop n (elems q)"
proof (induction n arbitrary: q)
  case (Suc n)
  then obtain x xs where xs: "elems q = x # xs" by (cases "elems q") auto
  from deq_takes [OF Suc.prems(1) xs] obtain q1 where "deq q = Some (Ok (x, q1))" "wf q1" "elems q1 = xs" by blast
  with Suc.IH [of q1] Suc.prems xs show ?case by auto
qed simp

text \<open>First in, first out.\<close>

lemma fifo:
  assumes "wf q" "elems q = []" "length es \<le> cap q"
  obtains q1 q2 where "put_all enq es q = Some q1" "take_all deq (length es) q1 = Some (es, q2)" "elems q2 = []"
proof -
  obtain q1 where q1: "put_all enq es q = Some q1" "wf q1" "elems q1 = es"
    using put_all_elems [of q es] assms by auto
  from take_all_elems [OF q1(2), of "length es"] q1 show thesis using that by auto
qed

end

end
