(* ===== verification/FS_Exact.thy ===== *)
theory FS_Exact
  imports FS_Operations Dir_Entries Interfaces
begin

text \<open>
  Exact results of the functions of \<open>fs/state.c\<close> in a state of the right shape: every array has
  the length the parameters say, the locks are initialised and the sizes fit the machine types.
  There each function returns, the lock calls cancel, and what remains is a plain state update.
\<close>

section \<open>Shape of a state\<close>

definition params_ok :: "tfs_params \<Rightarrow> bool" where
  "params_ok p \<longleftrightarrow>
     unat (max_inode_count p) < 2 ^ 31 \<and> unat (max_block_count p) < 2 ^ 31 \<and>
     unat (max_open_files_count p) < 2 ^ 31 \<and> sizeof_dir_entry \<le> unat (block_size p) \<and>
     unat (block_size p) < 2 ^ 32 \<and> unat (max_block_count p) * unat (block_size p) < 2 ^ 63"

definition shape :: "fs_state \<Rightarrow> bool" where
  "shape s \<longleftrightarrow>
     params_ok (fs_params s) \<and> allocated s \<and> locks_init s \<and>
     length (inode_table s) = unat (INODE_TABLE_SIZE s) \<and>
     length (freeinode_ts s) = unat (INODE_TABLE_SIZE s) \<and>
     length (free_blocks s) = unat (DATA_BLOCKS s) \<and>
     length (fs_data s) = unat (DATA_BLOCKS s) * unat (BLOCK_SIZE s) \<and>
     length (open_file_table s) = unat (MAX_OPEN_FILES s) \<and>
     length (free_open_file_entries s) = unat (MAX_OPEN_FILES s)"

definition first_free :: "allocation_state_t list \<Rightarrow> nat option" where
  "first_free xs = find (\<lambda>k. xs ! k = FREE) [0..<length xs]"

definition new_inode :: "inode_type \<Rightarrow> inode_t" where
  "new_inode ty = \<lparr>i_node_type = ty, i_links_count = 1, i_size = 0, i_data_block = -1\<rparr>"

text \<open>The address of a block, and the entries of the root directory.\<close>

definition blk_addr :: "fs_state \<Rightarrow> int \<Rightarrow> nat" where
  "blk_addr s b = nat b * unat (BLOCK_SIZE s)"

definition root_inode :: "fs_state \<Rightarrow> inode_t" where
  "root_inode s = inode_table s ! 0"

definition root_addr :: "fs_state \<Rightarrow> nat" where
  "root_addr s = blk_addr s (i_data_block (root_inode s))"

definition root_ok :: "fs_state \<Rightarrow> bool" where
  "root_ok s \<longleftrightarrow>
     0 < unat (INODE_TABLE_SIZE s) \<and> i_node_type (root_inode s) = T_DIRECTORY \<and>
     valid_block_number s (i_data_block (root_inode s))"

definition dents :: "fs_state \<Rightarrow> dirent list" where
  "dents s = entries (fs_data s) (root_addr s) (MAX_DIR_ENTRIES s)"

definition put_dent :: "nat \<Rightarrow> dirent \<Rightarrow> fs_state \<Rightarrow> fs_state" where
  "put_dent k e s = s\<lparr>fs_data := set_entry (root_addr s) k (fst e) (snd e) (fs_data s)\<rparr>"

section \<open>Shape under updates\<close>

lemma shape_held [simp]: "shape (s\<lparr>held := H\<rparr>) = shape s"
  by (simp add: shape_def)

lemma shape_inode_table [simp]:
  "length t = length (inode_table s) \<Longrightarrow> shape (s\<lparr>inode_table := t\<rparr>) = shape s"
  by (simp add: shape_def)

lemma shape_freeinode [simp]:
  "length t = length (freeinode_ts s) \<Longrightarrow> shape (s\<lparr>freeinode_ts := t\<rparr>) = shape s"
  by (simp add: shape_def)

lemma shape_free_blocks [simp]:
  "length t = length (free_blocks s) \<Longrightarrow> shape (s\<lparr>free_blocks := t\<rparr>) = shape s"
  by (simp add: shape_def)

lemma shape_fs_data [simp]:
  "length t = length (fs_data s) \<Longrightarrow> shape (s\<lparr>fs_data := t\<rparr>) = shape s"
  by (simp add: shape_def)

lemma shape_open_file_table [simp]:
  "length t = length (open_file_table s) \<Longrightarrow> shape (s\<lparr>open_file_table := t\<rparr>) = shape s"
  by (simp add: shape_def)

lemma shape_free_open [simp]:
  "length t = length (free_open_file_entries s) \<Longrightarrow>
     shape (s\<lparr>free_open_file_entries := t\<rparr>) = shape s"
  by (simp add: shape_def)

lemma shape_locks: "shape s \<Longrightarrow> locks_init s"
  by (simp add: shape_def)

lemma shape_lengths:
  assumes "shape s"
  shows "length (inode_table s) = unat (INODE_TABLE_SIZE s)"
    and "length (freeinode_ts s) = unat (INODE_TABLE_SIZE s)"
    and "length (free_blocks s) = unat (DATA_BLOCKS s)"
    and "length (fs_data s) = unat (DATA_BLOCKS s) * unat (BLOCK_SIZE s)"
    and "length (open_file_table s) = unat (MAX_OPEN_FILES s)"
    and "length (free_open_file_entries s) = unat (MAX_OPEN_FILES s)"
  using assms by (simp_all add: shape_def)

lemma shape_block_size: "shape s \<Longrightarrow> BLOCK_SIZE s \<noteq> 0"
  by (auto simp: shape_def params_ok_def)

lemma valid_inumber_iff:
  "valid_inumber s i \<longleftrightarrow> 0 \<le> i \<and> nat i < unat (INODE_TABLE_SIZE s)"
  by (auto simp: valid_inumber_def nat_less_iff)

lemma valid_block_number_iff:
  "valid_block_number s i \<longleftrightarrow> 0 \<le> i \<and> nat i < unat (DATA_BLOCKS s)"
  by (auto simp: valid_block_number_def nat_less_iff)

lemma valid_file_handle_iff:
  "valid_file_handle s i \<longleftrightarrow> 0 \<le> i \<and> nat i < unat (MAX_OPEN_FILES s)"
  by (auto simp: valid_file_handle_def nat_less_iff)

lemma first_free_Some:
  "first_free xs = Some i \<longleftrightarrow> i < length xs \<and> xs ! i = FREE \<and> (\<forall>j<i. xs ! j = TAKEN)"
  by (auto simp: first_free_def find_upt_Some) (metis allocation_state_t.exhaust)+

lemma first_free_None: "first_free xs = None \<longleftrightarrow> (\<forall>i<length xs. xs ! i = TAKEN)"
  by (auto simp: first_free_def find_upt_None) (metis allocation_state_t.exhaust)+

lemma blk_addr_simps [simp]:
  "blk_addr (s\<lparr>held := H\<rparr>) b = blk_addr s b"
  "blk_addr (s\<lparr>inode_table := t\<rparr>) b = blk_addr s b"
  "blk_addr (s\<lparr>freeinode_ts := f\<rparr>) b = blk_addr s b"
  "blk_addr (s\<lparr>free_blocks := f\<rparr>) b = blk_addr s b"
  "blk_addr (s\<lparr>fs_data := m\<rparr>) b = blk_addr s b"
  "blk_addr (s\<lparr>open_file_table := ot\<rparr>) b = blk_addr s b"
  "blk_addr (s\<lparr>free_open_file_entries := f\<rparr>) b = blk_addr s b"
  by (simp_all add: blk_addr_def)

lemma blk_in_data:
  assumes "shape s" "valid_block_number s b"
  shows "blk_addr s b + unat (BLOCK_SIZE s) \<le> length (fs_data s)"
proof -
  have "Suc (nat b) * unat (BLOCK_SIZE s) \<le> unat (DATA_BLOCKS s) * unat (BLOCK_SIZE s)"
    using assms(2) by (intro mult_le_mono1) (simp add: valid_block_number_iff)
  then show ?thesis
    by (simp add: blk_addr_def shape_lengths [OF assms(1)])
qed

lemma blk_disjoint:
  assumes "b \<noteq> c" "0 \<le> b" "0 \<le> c"
  shows "blk_addr s b + unat (BLOCK_SIZE s) \<le> blk_addr s c \<or>
    blk_addr s c + unat (BLOCK_SIZE s) \<le> blk_addr s b"
proof -
  have "Suc (nat b) \<le> nat c \<or> Suc (nat c) \<le> nat b"
    using assms by linarith
  then have "Suc (nat b) * unat (BLOCK_SIZE s) \<le> nat c * unat (BLOCK_SIZE s) \<or>
      Suc (nat c) * unat (BLOCK_SIZE s) \<le> nat b * unat (BLOCK_SIZE s)"
    using mult_le_mono1 by blast
  then show ?thesis
    by (simp add: blk_addr_def add.commute)
qed

lemma data_block_get_eq [tfs_simps]:
  assumes "shape s"
  shows "data_block_get b s = (if valid_block_number s b then Some (blk_addr s b) else None)"
proof (cases "valid_block_number s b")
  case True
  then have b: "0 \<le> b" "nat b < unat (DATA_BLOCKS s)"
    by (auto simp: valid_block_number_iff)
  have small: "unat (DATA_BLOCKS s) * unat (BLOCK_SIZE s) < 2 ^ 63" "unat (DATA_BLOCKS s) < 2 ^ 31"
    using assms by (auto simp: shape_def params_ok_def)
  have "nat b < 2 ^ 64" using b small by simp
  then have ub: "unat (word_of_int b :: size_t) = nat b"
    using b(1) by (simp add: unat_eq_nat_uint uint_word_of_int_eq take_bit_int_eq_self nat_less_iff)
  have "nat b * unat (BLOCK_SIZE s) \<le> unat (DATA_BLOCKS s) * unat (BLOCK_SIZE s)"
    using b by (intro mult_le_mono1) simp
  moreover have "(2::nat) ^ 63 < 2 ^ 64" by simp
  ultimately have "nat b * unat (BLOCK_SIZE s) < 2 ^ 64"
    using small(1) by linarith
  then have "unat ((word_of_int b :: size_t) * BLOCK_SIZE s) = nat b * unat (BLOCK_SIZE s)"
    by (simp add: unat_word_ariths ub)
  with True show ?thesis by (simp add: data_block_get_def blk_addr_def)
qed (simp add: data_block_get_def)

section \<open>Locks\<close>

lemma wrlock_Ok [tfs_simps]:
  "locks_init s \<Longrightarrow> l \<notin> held s \<Longrightarrow> rwl_wrlock l s = Ok (s\<lparr>held := insert l (held s)\<rparr>)"
  by (simp add: rwl_wrlock_def)

lemma rdlock_Ok [tfs_simps]:
  "locks_init s \<Longrightarrow> l \<notin> held s \<Longrightarrow> rwl_rdlock l s = Ok (s\<lparr>held := insert l (held s)\<rparr>)"
  by (simp add: rwl_rdlock_def)

lemma mutex_lock_Ok [tfs_simps]:
  "locks_init s \<Longrightarrow> l \<notin> held s \<Longrightarrow> mutex_lock l s = Ok (s\<lparr>held := insert l (held s)\<rparr>)"
  by (simp add: mutex_lock_def)

lemma unlock_Ok [tfs_simps]:
  "locks_init s \<Longrightarrow> l \<in> held s \<Longrightarrow> rwl_unlock l s = Ok (s\<lparr>held := held s - {l}\<rparr>)"
  by (simp add: rwl_unlock_def)

lemma mutex_unlock_Ok [tfs_simps]:
  "locks_init s \<Longrightarrow> l \<in> held s \<Longrightarrow> mutex_unlock l s = Ok (s\<lparr>held := held s - {l}\<rparr>)"
  by (simp add: mutex_unlock_def)

lemma rwl_init_Ok [tfs_simps]: "l \<notin> held s \<Longrightarrow> rwl_init l s = Ok s"
  by (simp add: rwl_init_def)

section \<open>Allocation tables\<close>

lemma search_free_entry:
  assumes "length xs = n"
  shows "findR (\<lambda>i. bindR (arr_get xs i) (\<lambda>a. Ok (a = FREE))) [0..<n] = Ok (first_free xs)"
  using assms findR_find [of "[0..<n]" _ "\<lambda>k. xs ! k = FREE"] by (simp add: first_free_def)

lemma data_block_alloc_eq [tfs_simps]:
  assumes "shape s" "Free_blocks_rwl \<notin> held s"
  shows "data_block_alloc s =
    (case first_free (free_blocks s) of
       None \<Rightarrow> Ok (-1, s)
     | Some i \<Rightarrow> Ok (int i, s\<lparr>free_blocks := (free_blocks s)[i := TAKEN]\<rparr>))"
  using assms shape_lengths(3) [OF assms(1)] shape_block_size [OF assms(1)]
  by (simp add: data_block_alloc_def tfs_simps shape_locks search_free_entry split: option.split)

lemma data_block_free_eq [tfs_simps]:
  assumes "shape s" "Free_blocks_rwl \<notin> held s" "valid_block_number s b"
  shows "data_block_free b s = Ok (0, s\<lparr>free_blocks := (free_blocks s)[nat b := FREE]\<rparr>)"
  using assms shape_lengths(3) [OF assms(1)]
  by (simp add: data_block_free_def tfs_simps shape_locks valid_block_number_iff)

lemma inode_alloc_eq [tfs_simps]:
  assumes "shape s" "Inode_table_rwl \<notin> held s"
  shows "inode_alloc s =
    (case first_free (freeinode_ts s) of
       None \<Rightarrow> Ok (-1, s)
     | Some i \<Rightarrow> Ok (int i, s\<lparr>freeinode_ts := (freeinode_ts s)[i := TAKEN]\<rparr>))"
  using assms shape_lengths(2) [OF assms(1)] shape_block_size [OF assms(1)]
  by (simp add: inode_alloc_def tfs_simps shape_locks search_free_entry split: option.split)

lemma inode_at_eq [tfs_simps]:
  "0 \<le> i \<Longrightarrow> nat i < length (inode_table s) \<Longrightarrow> inode_at s i = Ok (inode_table s ! nat i)"
  by (simp add: inode_at_def)

lemma inode_put_eq [tfs_simps]:
  "0 \<le> i \<Longrightarrow> nat i < length (inode_table s) \<Longrightarrow>
     inode_put i ino s = Ok (s\<lparr>inode_table := (inode_table s)[nat i := ino]\<rparr>)"
  by (simp add: inode_put_def)

lemma init_inode:
  "ino\<lparr>i_node_type := ty, i_links_count := 1, i_size := 0, i_data_block := -1\<rparr> = new_inode ty"
  by (cases ino) (simp add: new_inode_def)

lemma inode_create_eq:
  assumes "shape s" "Inode_table_rwl \<notin> held s" "ty \<noteq> T_DIRECTORY"
    and "\<And>i. first_free (freeinode_ts s) = Some i \<Longrightarrow> Inode_rwl (int i) \<notin> held s"
  shows "inode_create ty s =
    (case first_free (freeinode_ts s) of
       None \<Rightarrow> Ok (-1, s)
     | Some i \<Rightarrow> Ok (int i, s\<lparr>freeinode_ts := (freeinode_ts s)[i := TAKEN],
                              inode_table := (inode_table s)[i := new_inode ty]\<rparr>))"
proof (cases "first_free (freeinode_ts s)")
  case None
  then show ?thesis using assms by (simp add: inode_create_def tfs_simps)
next
  case (Some i)
  then have "i < length (inode_table s)"
    using shape_lengths [OF assms(1)] by (simp add: first_free_Some)
  then show ?thesis
    using assms Some
    by (cases ty) (simp_all add: inode_create_def tfs_simps init_inode)
qed

lemma inode_delete_eq:
  assumes "shape s" "Inode_table_rwl \<notin> held s" "Free_blocks_rwl \<notin> held s"
    and "valid_inumber s i" "freeinode_ts s ! nat i = TAKEN"
    and "i_size (inode_table s ! nat i) > 0 \<Longrightarrow>
      valid_block_number s (i_data_block (inode_table s ! nat i))"
  shows "inode_delete i s =
    Ok (0, s\<lparr>free_blocks :=
              (if i_size (inode_table s ! nat i) > 0
               then (free_blocks s)[nat (i_data_block (inode_table s ! nat i)) := FREE]
               else free_blocks s),
            freeinode_ts := (freeinode_ts s)[nat i := FREE]\<rparr>)"
proof -
  have len: "nat i < length (freeinode_ts s)" "nat i < length (inode_table s)" "0 \<le> i"
    using assms shape_lengths [OF assms(1)] by (auto simp: valid_inumber_iff)
  have vb: "valid_block_number (s\<lparr>held := H\<rparr>) b = valid_block_number s b" for H b
    by (simp add: valid_block_number_def)
  show ?thesis
    using assms len by (simp add: inode_delete_def tfs_simps shape_locks vb)
qed

section \<open>The root directory\<close>

lemma root_addr_in_data:
  assumes "shape s" "root_ok s"
  shows "root_addr s + sizeof_dir_entry * MAX_DIR_ENTRIES s \<le> length (fs_data s)"
proof -
  have "sizeof_dir_entry * MAX_DIR_ENTRIES s \<le> unat (BLOCK_SIZE s)"
    by (simp add: MAX_DIR_ENTRIES_def)
  moreover have "root_addr s + unat (BLOCK_SIZE s) \<le> length (fs_data s)"
    using assms by (simp add: root_addr_def root_ok_def blk_in_data)
  ultimately show ?thesis by linarith
qed

lemma entry_in_data:
  assumes "shape s" "root_ok s" "k < MAX_DIR_ENTRIES s"
  shows "d_inumber_addr (root_addr s) k + 4 \<le> length (fs_data s)"
    and "d_name_addr (root_addr s) k + MAX_FILE_NAME \<le> length (fs_data s)"
proof -
  have "44 * k + 44 \<le> 44 * MAX_DIR_ENTRIES s"
    using assms(3) by simp
  with root_addr_in_data [OF assms(1,2)]
  show "d_inumber_addr (root_addr s) k + 4 \<le> length (fs_data s)"
    and "d_name_addr (root_addr s) k + MAX_FILE_NAME \<le> length (fs_data s)"
    by (simp_all add: entry_addrs)
qed

lemma length_dents [simp]: "length (dents s) = MAX_DIR_ENTRIES s"
  by (simp add: dents_def)

lemma dents_nth:
  assumes "k < MAX_DIR_ENTRIES s"
  shows "fst (dents s ! k) = read_at (d_name_addr (root_addr s) k) MAX_FILE_NAME (fs_data s)"
    and "snd (dents s ! k) = dec32 (read_at (d_inumber_addr (root_addr s) k) 4 (fs_data s))"
  using assms by (simp_all add: dents_def entry_at_def)

lemma root_at:
  assumes "shape s" "root_ok s"
  shows "inode_at s ROOT_DIR_INUM = Ok (root_inode s)"
  using assms by (simp add: inode_at_def root_inode_def root_ok_def shape_lengths)

lemma root_block:
  assumes "shape s" "root_ok s"
  shows "data_block_get (i_data_block (root_inode s)) s = Some (root_addr s)"
  using assms by (simp add: data_block_get_eq root_ok_def root_addr_def)

lemma find_in_dir_eq:
  assumes s: "shape s" "root_ok s" and wf: "wf_dir (dents s)" and nm: "0 \<notin> set nm"
  shows "find_in_dir ROOT_DIR_INUM nm s =
    Ok (case dir_map (dents s) nm of None \<Rightarrow> -1 | Some i \<Rightarrow> i)"
proof -
  let ?a = "root_addr s" and ?n = "MAX_DIR_ENTRIES s" and ?m = "fs_data s"
  let ?test = "\<lambda>k. bindR (mem_read ?m (d_inumber_addr ?a k) 4) (\<lambda>b.
      if dec32 b \<noteq> -1 then strncmp_mem ?m (d_name_addr ?a k) nm MAX_FILE_NAME else Ok False)"
  have "?test k = Ok (live (dents s ! k) \<and> ename (dents s ! k) = nm)" if k: "k < ?n" for k
  proof (cases "live (dents s ! k)")
    case True
    then have wfe: "wf_entry (dents s ! k)"
      using wf k by (intro wf_dir_live [OF wf]) simp_all
    then have "strncmp_mem ?m (d_name_addr ?a k) nm MAX_FILE_NAME = Ok (nm = ename (dents s ! k))"
      using True k nm entry_in_data(2) [OF s k] dents_nth(1) [OF k]
      by (intro strncmp_mem_pad) (auto simp: wf_entry_def good_name_def)
    with True k show ?thesis
      using entry_in_data(1) [OF s k] by (auto simp: dents_nth live_def)
  next
    case False
    then show ?thesis
      using entry_in_data(1) [OF s k] k by (simp add: dents_nth live_def)
  qed
  then have search: "findR ?test [0..<?n] =
      Ok (find (\<lambda>k. live (dents s ! k) \<and> ename (dents s ! k) = nm) [0..<?n])"
    by (intro findR_find) simp
  show ?thesis
  proof (cases "find (\<lambda>k. live (dents s ! k) \<and> ename (dents s ! k) = nm) [0..<?n]")
    case None
    then have "dir_map (dents s) nm = None"
      using find_index_None [of "\<lambda>e. live e \<and> ename e = nm" "dents s"] by (simp add: dir_map_None)
    with None search s show ?thesis
      by (simp add: find_in_dir_def root_at root_block root_ok_def)
  next
    case (Some k)
    then have k: "k < ?n" "live (dents s ! k)" "ename (dents s ! k) = nm"
      by (auto simp: find_upt_Some)
    then have "dir_map (dents s) nm = Some (snd (dents s ! k))"
      using wf by (auto simp: dir_map_Some intro!: bexI [of _ "dents s ! k"])
    with Some search s k show ?thesis
      by (simp add: find_in_dir_def root_at root_block root_ok_def dents_nth entry_in_data)
  qed
qed

lemma strncpy_pad: "length nm < MAX_FILE_NAME \<Longrightarrow> strncpy_bytes nm 39 @ [0] = pad MAX_FILE_NAME nm"
proof -
  assume "length nm < MAX_FILE_NAME"
  then have "MAX_FILE_NAME - length nm = Suc (39 - length nm)" by simp
  then show ?thesis by (simp add: strncpy_bytes_def pad_def replicate_append_same)
qed

lemma add_dir_entry_eq:
  assumes s: "shape s" "root_ok s" and nm: "nm \<noteq> []" "length nm < MAX_FILE_NAME"
  shows "add_dir_entry ROOT_DIR_INUM nm i s =
    (case find (\<lambda>k. \<not> live (dents s ! k)) [0..<MAX_DIR_ENTRIES s] of
       None \<Rightarrow> Ok (-1, s)
     | Some k \<Rightarrow> Ok (0, put_dent k (pad MAX_FILE_NAME nm, i) s))"
proof -
  let ?a = "root_addr s" and ?n = "MAX_DIR_ENTRIES s" and ?m = "fs_data s"
  let ?test = "\<lambda>k. bindR (mem_read ?m (d_inumber_addr ?a k) 4) (\<lambda>b. Ok (dec32 b = -1))"
  have search: "findR ?test [0..<?n] = Ok (find (\<lambda>k. \<not> live (dents s ! k)) [0..<?n])"
    using entry_in_data [OF s] by (intro findR_find) (simp add: dents_nth live_def)
  show ?thesis
  proof (cases "find (\<lambda>k. \<not> live (dents s ! k)) [0..<?n]")
    case None
    with search s nm show ?thesis
      by (simp add: add_dir_entry_def root_at root_block root_ok_def)
  next
    case (Some k)
    then have k: "k < ?n" by (simp add: find_upt_Some)
    let ?m1 = "write_at (d_inumber_addr ?a k) (enc32 i) ?m"
    have len: "length (strncpy_bytes nm 39) = 39"
      using nm by (simp add: strncpy_bytes_def)
    have "write_at (d_name_addr ?a k + 39) [0] (write_at (d_name_addr ?a k) (strncpy_bytes nm 39) ?m1) =
        write_at (d_name_addr ?a k) (pad MAX_FILE_NAME nm) ?m1"
      using write_at_append [of "d_name_addr ?a k" "strncpy_bytes nm 39" "[0]" ?m1]
        entry_in_data [OF s k] len nm by (simp add: strncpy_pad)
    then show ?thesis
      using Some search s nm len entry_in_data [OF s k]
      by (simp add: add_dir_entry_def root_at root_block root_ok_def put_dent_def set_entry_def)
  qed
qed

lemma clear_dir_entry_eq:
  assumes s: "shape s" "root_ok s" and wf: "wf_dir (dents s)"
    and nm: "dir_map (dents s) nm \<noteq> None"
  obtains k where "k < MAX_DIR_ENTRIES s"
    and "dir_clear nm (dents s) = Some ((dents s)[k := (replicate MAX_FILE_NAME 0, -1)])"
    and "clear_dir_entry ROOT_DIR_INUM nm s = Ok (0, put_dent k (replicate MAX_FILE_NAME 0, -1) s)"
proof -
  let ?a = "root_addr s" and ?n = "MAX_DIR_ENTRIES s" and ?m = "fs_data s"
  have good: "good_name nm"
    using nm wf good_name_dir_map by blast
  have "find (\<lambda>k. live (dents s ! k) \<and> ename (dents s ! k) = nm) [0..<?n] \<noteq> None"
    using nm find_index_None [of "\<lambda>e. live e \<and> ename e = nm" "dents s"]
    by (auto simp: dir_map_None)
  then obtain k where hit: "find (\<lambda>k. live (dents s ! k) \<and> ename (dents s ! k) = nm) [0..<?n] = Some k"
    by blast
  then have k: "k < ?n" "live (dents s ! k)" "ename (dents s ! k) = nm"
    and first: "\<forall>j<k. \<not> (live (dents s ! j) \<and> ename (dents s ! j) = nm)"
    by (auto simp: find_upt_Some)
  have test: "strcmp_mem ?m (d_name_addr ?a j) nm = Ok (nm = ename (dents s ! j))" if "j \<le> k" for j
  proof -
    have j: "j < ?n" using that k(1) by simp
    have wfe: "wf_entry (dents s ! j)"
      using wf_dir_before_live [OF wf, of k j] k that by simp
    have "fst (dents s ! j) = pad MAX_FILE_NAME (ename (dents s ! j)) \<and>
        0 \<notin> set (ename (dents s ! j)) \<and> length (ename (dents s ! j)) < MAX_FILE_NAME"
    proof (cases "live (dents s ! j)")
      case True
      with wfe show ?thesis by (simp add: wf_entry_def good_name_def)
    next
      case False
      with wfe have "fst (dents s ! j) = replicate MAX_FILE_NAME 0" by (simp add: wf_entry_def)
      then show ?thesis by (simp add: ename_def cname_def pad_def)
    qed
    then show ?thesis
      using good entry_in_data(2) [OF s j] dents_nth(1) [OF j]
      by (intro strcmp_mem_pad) (auto simp: good_name_def)
  qed
  have "ename (dents s ! j) \<noteq> nm" if "j < k" for j
  proof (cases "live (dents s ! j)")
    case True
    with first that show ?thesis by blast
  next
    case False
    have "wf_entry (dents s ! j)"
      using wf_dir_before_live [OF wf, of k j] k that by simp
    with False good show ?thesis
      by (auto simp: wf_entry_def ename_def cname_def good_name_def)
  qed
  then have "findR (\<lambda>k. strcmp_mem ?m (d_name_addr ?a k) nm) ([0..<k] @ k # [Suc k..<?n]) = Ok (Some k)"
    using test k by (intro findR_hit) (auto simp: eq_commute [of nm])
  moreover have "[0..<?n] = [0..<k] @ k # [Suc k..<?n]"
    using k(1) upt_add_eq_append [of 0 k "?n - k"] by (simp add: upt_conv_Cons)
  ultimately have search: "findR (\<lambda>k. strcmp_mem ?m (d_name_addr ?a k) nm) [0..<?n] = Ok (Some k)"
    by simp
  have "clear_dir_entry ROOT_DIR_INUM nm s = Ok (0, put_dent k (replicate MAX_FILE_NAME 0, -1) s)"
    using search s entry_in_data [OF s k(1)]
    by (simp add: clear_dir_entry_def root_at root_block root_ok_def put_dent_def set_entry_def)
  with hit k show thesis by (intro that) (simp_all add: dir_clear_def)
qed

section \<open>Open file table\<close>

lemma add_to_open_file_table_eq:
  assumes "shape s" "Open_file_table_rwl \<notin> held s" "\<And>i. Open_file_mutex i \<notin> held s"
  shows "add_to_open_file_table inum off s =
    (case first_free (free_open_file_entries s) of
       None \<Rightarrow> Ok (-1, s)
     | Some i \<Rightarrow> Ok (int i, s\<lparr>free_open_file_entries := (free_open_file_entries s)[i := TAKEN],
                 open_file_table := (open_file_table s)[i := \<lparr>of_inumber = inum, of_offset = off\<rparr>]\<rparr>))"
proof (cases "first_free (free_open_file_entries s)")
  case None
  then show ?thesis
    using assms shape_lengths [OF assms(1)]
    by (simp add: add_to_open_file_table_def tfs_simps shape_locks search_free_entry)
next
  case (Some i)
  then have "i < length (open_file_table s)"
    using shape_lengths [OF assms(1)] by (simp add: first_free_Some)
  with Some show ?thesis
    using assms shape_lengths [OF assms(1)]
    by (simp add: add_to_open_file_table_def tfs_simps shape_locks search_free_entry insert_Diff_if)
qed

lemma get_open_file_entry_eq:
  assumes "shape s"
  shows "get_open_file_entry fh s =
    Ok (if valid_file_handle s fh \<and> free_open_file_entries s ! nat fh = TAKEN then Some fh else None)"
  using assms shape_lengths [OF assms]
  by (cases "free_open_file_entries s ! nat fh")
    (auto simp: get_open_file_entry_def valid_file_handle_iff)

lemma remove_from_open_file_table_eq:
  assumes "shape s" "Open_file_table_rwl \<notin> held s"
    and "valid_file_handle s fh" "free_open_file_entries s ! nat fh = TAKEN"
  shows "remove_from_open_file_table fh s =
    Ok (0, s\<lparr>free_open_file_entries := (free_open_file_entries s)[nat fh := FREE]\<rparr>)"
  using assms shape_lengths [OF assms(1)]
  by (simp add: remove_from_open_file_table_def tfs_simps shape_locks valid_file_handle_iff)

definition opened :: "fs_state \<Rightarrow> int \<Rightarrow> bool" where
  "opened s i \<longleftrightarrow>
     (\<exists>k<length (free_open_file_entries s).
        free_open_file_entries s ! k = TAKEN \<and> of_inumber (open_file_table s ! k) = i)"

lemma is_in_open_file_table_eq:
  assumes "shape s" "Open_file_table_rwl \<notin> held s" "valid_inumber s i"
  shows "is_in_open_file_table i s = Ok (opened s i, s)"
proof -
  let ?fo = "free_open_file_entries s" and ?n = "unat (MAX_OPEN_FILES s)"
  have "findR (\<lambda>k. bindR (arr_get ?fo k) (\<lambda>a. if a = TAKEN
          then bindR (arr_get (open_file_table s) k) (\<lambda>e. Ok (of_inumber e = i)) else Ok False)) [0..<?n] =
      Ok (find (\<lambda>k. ?fo ! k = TAKEN \<and> of_inumber (open_file_table s ! k) = i) [0..<?n])"
    using shape_lengths [OF assms(1)] by (intro findR_find) auto
  moreover have "find (\<lambda>k. ?fo ! k = TAKEN \<and> of_inumber (open_file_table s ! k) = i) [0..<?n] \<noteq> None
      \<longleftrightarrow> opened s i"
    using shape_lengths [OF assms(1)] by (auto simp: find_upt_None opened_def)
  ultimately show ?thesis
    using assms by (simp add: is_in_open_file_table_def tfs_simps shape_locks cong: if_cong)
qed

end
