(* ===== verification/FS_Invariant.thy ===== *)
theory FS_Invariant
  imports FS_Exact
begin

text \<open>
  The well-formedness invariant of TecnicoFS and its preservation by each kind of state update the
  operations make. The invariant relates the four tables: directory entries point to allocated
  inodes, the link counter of an inode is the number of entries that name it, every non-empty file
  and every symbolic link owns an allocated block that no other inode owns, a symbolic link's block
  holds a terminated path, and an open handle names an allocated file and stands inside a block.
\<close>

section \<open>The invariant\<close>

definition file_inode :: "fs_state \<Rightarrow> int \<Rightarrow> bool" where
  "file_inode s i \<longleftrightarrow> 0 < i \<and> nat i < length (freeinode_ts s) \<and> freeinode_ts s ! nat i = TAKEN"

definition inode_of :: "fs_state \<Rightarrow> int \<Rightarrow> inode_t" where
  "inode_of s i = inode_table s ! nat i"

definition root_inv :: "fs_state \<Rightarrow> bool" where
  "root_inv s \<longleftrightarrow>
     root_ok s \<and> freeinode_ts s ! 0 = TAKEN \<and> i_size (root_inode s) = BLOCK_SIZE s"

definition dir_inv :: "fs_state \<Rightarrow> bool" where
  "dir_inv s \<longleftrightarrow> wf_dir (dents s) \<and> (\<forall>e\<in>set (dents s). live e \<longrightarrow> file_inode s (snd e))"

definition inode_wf :: "fs_state \<Rightarrow> int \<Rightarrow> bool" where
  "inode_wf s i \<longleftrightarrow>
     i_node_type (inode_of s i) \<noteq> T_DIRECTORY \<and>
     unat (i_links_count (inode_of s i)) = refs (dents s) i \<and> 0 < refs (dents s) i \<and>
     i_size (inode_of s i) \<le> BLOCK_SIZE s \<and>
     (i_node_type (inode_of s i) = T_LINK \<longrightarrow> i_size (inode_of s i) = 0)"

definition inode_inv :: "fs_state \<Rightarrow> bool" where
  "inode_inv s \<longleftrightarrow> (\<forall>i. file_inode s i \<longrightarrow> inode_wf s i)"

definition owns :: "fs_state \<Rightarrow> int \<Rightarrow> int \<Rightarrow> bool" where
  "owns s i b \<longleftrightarrow>
     (i = ROOT_DIR_INUM \<or> file_inode s i) \<and>
     (i_node_type (inode_of s i) \<noteq> T_FILE \<or> i_size (inode_of s i) \<noteq> 0) \<and>
     i_data_block (inode_of s i) = b"

definition block_inv :: "fs_state \<Rightarrow> bool" where
  "block_inv s \<longleftrightarrow>
     (\<forall>i b. owns s i b \<longrightarrow> valid_block_number s b \<and> free_blocks s ! nat b = TAKEN) \<and>
     (\<forall>i j b. owns s i b \<longrightarrow> owns s j b \<longrightarrow> i = j)"

definition link_at :: "fs_state \<Rightarrow> int \<Rightarrow> cstring \<Rightarrow> bool" where
  "link_at s b t \<longleftrightarrow>
     good_name t \<and> length t + 2 \<le> MAX_FILE_NAME \<and>
     read_at (blk_addr s b) (length t + 2) (fs_data s) = slash # t @ [0]"

definition link_inv :: "fs_state \<Rightarrow> bool" where
  "link_inv s \<longleftrightarrow>
     (\<forall>i. file_inode s i \<longrightarrow> i_node_type (inode_of s i) = T_LINK \<longrightarrow>
        (\<exists>t. link_at s (i_data_block (inode_of s i)) t))"

definition handle :: "fs_state \<Rightarrow> nat \<Rightarrow> bool" where
  "handle s k \<longleftrightarrow> k < length (free_open_file_entries s) \<and> free_open_file_entries s ! k = TAKEN"

definition handle_wf :: "fs_state \<Rightarrow> open_file_entry_t \<Rightarrow> bool" where
  "handle_wf s e \<longleftrightarrow>
     file_inode s (of_inumber e) \<and> i_node_type (inode_of s (of_inumber e)) = T_FILE \<and>
     of_offset e \<le> BLOCK_SIZE s"

definition open_inv :: "fs_state \<Rightarrow> bool" where
  "open_inv s \<longleftrightarrow> (\<forall>k. handle s k \<longrightarrow> handle_wf s (open_file_table s ! k))"

definition fs_inv :: "fs_state \<Rightarrow> bool" where
  "fs_inv s \<longleftrightarrow>
     shape s \<and> held s = {} \<and> root_inv s \<and> dir_inv s \<and> inode_inv s \<and> block_inv s \<and>
     link_inv s \<and> open_inv s"

lemma fs_invD:
  assumes "fs_inv s"
  shows "shape s" "held s = {}" "root_inv s" "root_ok s" "dir_inv s" "wf_dir (dents s)"
    "inode_inv s" "block_inv s" "link_inv s" "open_inv s"
  using assms by (auto simp: fs_inv_def root_inv_def dir_inv_def)

lemma fs_invI:
  "shape s \<Longrightarrow> held s = {} \<Longrightarrow> root_inv s \<Longrightarrow> dir_inv s \<Longrightarrow> inode_inv s \<Longrightarrow> block_inv s \<Longrightarrow>
    link_inv s \<Longrightarrow> open_inv s \<Longrightarrow> fs_inv s"
  by (simp add: fs_inv_def)

section \<open>What the pieces of the invariant look at\<close>

named_theorems view_simps \<open>projections of the state through the updates\<close>

lemma root_inode_simps [view_simps]:
  "root_inode (s\<lparr>freeinode_ts := f\<rparr>) = root_inode s"
  "root_inode (s\<lparr>free_blocks := f\<rparr>) = root_inode s"
  "root_inode (s\<lparr>fs_data := m\<rparr>) = root_inode s"
  "root_inode (s\<lparr>open_file_table := ot\<rparr>) = root_inode s"
  "root_inode (s\<lparr>free_open_file_entries := f\<rparr>) = root_inode s"
  "root_inode (s\<lparr>held := H\<rparr>) = root_inode s"
  "0 < k \<Longrightarrow> root_inode (s\<lparr>inode_table := t[k := ino]\<rparr>) = t ! 0"
  by (simp_all add: root_inode_def)

lemma inode_table_0 [view_simps]: "inode_table s ! 0 = root_inode s"
  by (simp add: root_inode_def)

lemma MAX_DIR_ENTRIES_simps [view_simps]:
  "MAX_DIR_ENTRIES (s\<lparr>freeinode_ts := f\<rparr>) = MAX_DIR_ENTRIES s"
  "MAX_DIR_ENTRIES (s\<lparr>free_blocks := f\<rparr>) = MAX_DIR_ENTRIES s"
  "MAX_DIR_ENTRIES (s\<lparr>fs_data := m\<rparr>) = MAX_DIR_ENTRIES s"
  "MAX_DIR_ENTRIES (s\<lparr>open_file_table := ot\<rparr>) = MAX_DIR_ENTRIES s"
  "MAX_DIR_ENTRIES (s\<lparr>free_open_file_entries := f\<rparr>) = MAX_DIR_ENTRIES s"
  "MAX_DIR_ENTRIES (s\<lparr>held := H\<rparr>) = MAX_DIR_ENTRIES s"
  "MAX_DIR_ENTRIES (s\<lparr>inode_table := t\<rparr>) = MAX_DIR_ENTRIES s"
  by (simp_all add: MAX_DIR_ENTRIES_def)

lemma root_addr_simps [view_simps]:
  "root_addr (s\<lparr>freeinode_ts := f\<rparr>) = root_addr s"
  "root_addr (s\<lparr>free_blocks := f\<rparr>) = root_addr s"
  "root_addr (s\<lparr>fs_data := m\<rparr>) = root_addr s"
  "root_addr (s\<lparr>open_file_table := ot\<rparr>) = root_addr s"
  "root_addr (s\<lparr>free_open_file_entries := f\<rparr>) = root_addr s"
  "root_addr (s\<lparr>held := H\<rparr>) = root_addr s"
  "t ! 0 = root_inode s \<Longrightarrow> root_addr (s\<lparr>inode_table := t\<rparr>) = root_addr s"
  by (simp_all add: root_addr_def view_simps) (simp add: root_inode_def)

lemma dents_simps [view_simps]:
  "dents (s\<lparr>freeinode_ts := f\<rparr>) = dents s"
  "dents (s\<lparr>free_blocks := f\<rparr>) = dents s"
  "dents (s\<lparr>open_file_table := ot\<rparr>) = dents s"
  "dents (s\<lparr>free_open_file_entries := f\<rparr>) = dents s"
  "dents (s\<lparr>held := H\<rparr>) = dents s"
  "t ! 0 = root_inode s \<Longrightarrow> dents (s\<lparr>inode_table := t\<rparr>) = dents s"
  by (simp_all add: dents_def view_simps)

lemma valid_block_simps [view_simps]:
  "valid_block_number (s\<lparr>freeinode_ts := f\<rparr>) b = valid_block_number s b"
  "valid_block_number (s\<lparr>free_blocks := f\<rparr>) b = valid_block_number s b"
  "valid_block_number (s\<lparr>fs_data := m\<rparr>) b = valid_block_number s b"
  "valid_block_number (s\<lparr>open_file_table := ot\<rparr>) b = valid_block_number s b"
  "valid_block_number (s\<lparr>free_open_file_entries := f\<rparr>) b = valid_block_number s b"
  "valid_block_number (s\<lparr>held := H\<rparr>) b = valid_block_number s b"
  "valid_block_number (s\<lparr>inode_table := t\<rparr>) b = valid_block_number s b"
  by (simp_all add: valid_block_number_def)

lemma valid_inumber_simps [view_simps]:
  "valid_inumber (s\<lparr>freeinode_ts := f\<rparr>) b = valid_inumber s b"
  "valid_inumber (s\<lparr>free_blocks := f\<rparr>) b = valid_inumber s b"
  "valid_inumber (s\<lparr>fs_data := m\<rparr>) b = valid_inumber s b"
  "valid_inumber (s\<lparr>open_file_table := ot\<rparr>) b = valid_inumber s b"
  "valid_inumber (s\<lparr>free_open_file_entries := f\<rparr>) b = valid_inumber s b"
  "valid_inumber (s\<lparr>held := H\<rparr>) b = valid_inumber s b"
  "valid_inumber (s\<lparr>inode_table := t\<rparr>) b = valid_inumber s b"
  by (simp_all add: valid_inumber_def)

lemma inode_of_simps [view_simps]:
  "inode_of (s\<lparr>freeinode_ts := f\<rparr>) i = inode_of s i"
  "inode_of (s\<lparr>free_blocks := f\<rparr>) i = inode_of s i"
  "inode_of (s\<lparr>fs_data := m\<rparr>) i = inode_of s i"
  "inode_of (s\<lparr>open_file_table := ot\<rparr>) i = inode_of s i"
  "inode_of (s\<lparr>free_open_file_entries := f\<rparr>) i = inode_of s i"
  "inode_of (s\<lparr>held := H\<rparr>) i = inode_of s i"
  by (simp_all add: inode_of_def)

lemma inode_of_put [view_simps]:
  "k < length (inode_table s) \<Longrightarrow>
     inode_of (s\<lparr>inode_table := (inode_table s)[k := ino]\<rparr>) i = (if nat i = k then ino else inode_of s i)"
  by (simp add: inode_of_def nth_list_update)

lemma inode_of_0: "inode_of s 0 = root_inode s"
  by (simp add: inode_of_def root_inode_def)

lemma file_inode_simps [view_simps]:
  "file_inode (s\<lparr>free_blocks := f\<rparr>) i = file_inode s i"
  "file_inode (s\<lparr>fs_data := m\<rparr>) i = file_inode s i"
  "file_inode (s\<lparr>open_file_table := ot\<rparr>) i = file_inode s i"
  "file_inode (s\<lparr>free_open_file_entries := f\<rparr>) i = file_inode s i"
  "file_inode (s\<lparr>held := H\<rparr>) i = file_inode s i"
  "file_inode (s\<lparr>inode_table := t\<rparr>) i = file_inode s i"
  by (simp_all add: file_inode_def)

lemma file_inode_set:
  "k < length (freeinode_ts s) \<Longrightarrow>
     file_inode (s\<lparr>freeinode_ts := (freeinode_ts s)[k := a]\<rparr>) i =
       (if nat i = k then 0 < i \<and> a = TAKEN else file_inode s i)"
  by (auto simp: file_inode_def nth_list_update)

lemma file_inode_bounds:
  assumes "file_inode s i" "shape s"
  shows "0 < i" "0 \<le> i" "nat i < length (inode_table s)" "nat i < length (freeinode_ts s)"
    "valid_inumber s i" "int32_range i" "freeinode_ts s ! nat i = TAKEN" "i \<noteq> -1"
  using assms by (auto simp: file_inode_def shape_def valid_inumber_iff int32_range_def params_ok_def)

section \<open>Memory updates\<close>

lemma dents_put_dent:
  assumes "shape s" "root_ok s" "k < MAX_DIR_ENTRIES s" "length (fst e) = MAX_FILE_NAME"
    "int32_range (snd e)"
  shows "dents (put_dent k e s) = (dents s)[k := e]"
  using assms root_addr_in_data [OF assms(1,2)]
  by (simp add: put_dent_def dents_def view_simps entries_set_entry)

lemma shape_put_dent [simp]:
  assumes "shape s" "root_ok s" "k < MAX_DIR_ENTRIES s" "length (fst e) = MAX_FILE_NAME"
  shows "shape (put_dent k e s)"
  using assms root_addr_in_data [OF assms(1,2)] by (simp add: put_dent_def)

lemma put_dent_simps [simp]:
  "freeinode_ts (put_dent k e s) = freeinode_ts s" "inode_table (put_dent k e s) = inode_table s"
  "free_blocks (put_dent k e s) = free_blocks s" "open_file_table (put_dent k e s) = open_file_table s"
  "free_open_file_entries (put_dent k e s) = free_open_file_entries s"
  "held (put_dent k e s) = held s" "fs_params (put_dent k e s) = fs_params s"
  "locks_init (put_dent k e s) = locks_init s"
  by (simp_all add: put_dent_def)

lemma put_dent_views [view_simps]:
  "file_inode (put_dent k e s) i = file_inode s i" "inode_of (put_dent k e s) i = inode_of s i"
  "root_inode (put_dent k e s) = root_inode s"
  "valid_block_number (put_dent k e s) b = valid_block_number s b"
  "valid_inumber (put_dent k e s) i = valid_inumber s i"
  "blk_addr (put_dent k e s) b = blk_addr s b"
  "root_ok (put_dent k e s) = root_ok s"
  by (simp_all add: put_dent_def view_simps root_ok_def)

lemma put_dent_read:
  assumes "shape s" "root_ok s" "k < MAX_DIR_ENTRIES s" "length (fst e) = MAX_FILE_NAME"
    "valid_block_number s b" "b \<noteq> i_data_block (root_inode s)" "off + n \<le> unat (BLOCK_SIZE s)"
  shows "read_at (blk_addr s b + off) n (fs_data (put_dent k e s)) = read_at (blk_addr s b + off) n (fs_data s)"
proof -
  have disj: "blk_addr s b + unat (BLOCK_SIZE s) \<le> root_addr s \<or>
      root_addr s + unat (BLOCK_SIZE s) \<le> blk_addr s b"
    unfolding root_addr_def using assms
    by (intro blk_disjoint) (auto simp: root_ok_def valid_block_number_iff)
  have "44 * MAX_DIR_ENTRIES s \<le> unat (BLOCK_SIZE s)"
    by (simp add: MAX_DIR_ENTRIES_def)
  then show ?thesis
    using disj assms blk_in_data [OF assms(1,5)] root_addr_in_data [OF assms(1,2)]
    by (auto simp: put_dent_def intro!: set_entry_outside)
qed

lemma blk_write_dents:
  assumes "shape s" "root_ok s" "valid_block_number s b" "b \<noteq> i_data_block (root_inode s)"
    "off + length xs \<le> unat (BLOCK_SIZE s)"
  shows "dents (s\<lparr>fs_data := write_at (blk_addr s b + off) xs (fs_data s)\<rparr>) = dents s"
proof -
  have disj: "blk_addr s b + unat (BLOCK_SIZE s) \<le> root_addr s \<or>
      root_addr s + unat (BLOCK_SIZE s) \<le> blk_addr s b"
    unfolding root_addr_def using assms
    by (intro blk_disjoint) (auto simp: root_ok_def valid_block_number_iff)
  have "44 * MAX_DIR_ENTRIES s \<le> unat (BLOCK_SIZE s)"
    by (simp add: MAX_DIR_ENTRIES_def)
  then show ?thesis
    using disj assms blk_in_data [OF assms(1,3)] root_addr_in_data [OF assms(1,2)]
    by (auto simp: dents_def view_simps intro!: entries_outside)
qed

lemma blk_write_read:
  assumes "shape s" "valid_block_number s b" "valid_block_number s c" "b \<noteq> c"
    "off + length xs \<le> unat (BLOCK_SIZE s)" "off' + n \<le> unat (BLOCK_SIZE s)"
  shows "read_at (blk_addr s c + off') n (write_at (blk_addr s b + off) xs (fs_data s)) =
    read_at (blk_addr s c + off') n (fs_data s)"
proof -
  have "blk_addr s b + unat (BLOCK_SIZE s) \<le> blk_addr s c \<or>
      blk_addr s c + unat (BLOCK_SIZE s) \<le> blk_addr s b"
    using assms by (intro blk_disjoint) (auto simp: valid_block_number_iff)
  then show ?thesis
    using assms blk_in_data [OF assms(1,2)] blk_in_data [OF assms(1,3)]
    by (intro read_write_disjoint) auto
qed

section \<open>Preservation, one kind of update at a time\<close>

lemmas inv_defs = root_inv_def root_ok_def dir_inv_def inode_inv_def inode_wf_def block_inv_def
  link_inv_def link_at_def open_inv_def handle_def handle_wf_def

lemma opened_iff: "opened s i \<longleftrightarrow> (\<exists>k. handle s k \<and> of_inumber (open_file_table s ! k) = i)"
  by (auto simp: opened_def handle_def)

lemma owns_root: "root_inv s \<Longrightarrow> owns s ROOT_DIR_INUM (i_data_block (root_inode s))"
  by (simp add: owns_def root_inv_def root_ok_def inode_of_0)

lemma owns_block:
  assumes "fs_inv s" "owns s i b"
  shows "valid_block_number s b" "free_blocks s ! nat b = TAKEN" "0 \<le> b"
    "nat b < length (free_blocks s)"
  using assms fs_invD(1,8) [OF assms(1)]
  by (auto simp: block_inv_def valid_block_number_iff shape_lengths)

lemma owns_unique: "fs_inv s \<Longrightarrow> owns s i b \<Longrightarrow> owns s j b \<Longrightarrow> i = j"
  using fs_invD(8) by (auto simp: block_inv_def)

lemma owns_not_root:
  assumes "fs_inv s" "owns s i b" "i \<noteq> ROOT_DIR_INUM"
  shows "b \<noteq> i_data_block (root_inode s)"
  using assms owns_unique owns_root fs_invD(3) by blast

lemma free_block_not_owned:
  assumes "fs_inv s" "nat b < length (free_blocks s)" "free_blocks s ! nat b = FREE"
  shows "\<not> owns s i b"
  using owns_block(2) [OF assms(1)] assms(3) by fastforce

lemma block_invI:
  assumes "\<And>i b. owns s i b \<Longrightarrow> valid_block_number s b \<and> free_blocks s ! nat b = TAKEN"
    and "\<And>i j b. owns s i b \<Longrightarrow> owns s j b \<Longrightarrow> i = j"
  shows "block_inv s"
  using assms unfolding block_inv_def by blast

text \<open>A handle is taken, moved or released.\<close>

lemma inv_open_entry:
  assumes inv: "fs_inv s" and e: "handle_wf s e"
  shows "fs_inv (s\<lparr>free_open_file_entries := (free_open_file_entries s)[k := TAKEN],
                   open_file_table := (open_file_table s)[k := e]\<rparr>)" (is "fs_inv ?s")
proof (rule fs_invI)
  show "open_inv ?s"
    unfolding open_inv_def
  proof (intro allI impI)
    fix j
    assume j: "handle ?s j"
    show "handle_wf ?s (open_file_table ?s ! j)"
    proof (cases "j = k")
      case True
      with j have "k < length (open_file_table s)"
        using shape_lengths [OF fs_invD(1) [OF inv]] by (simp add: handle_def)
      with True e show ?thesis by (simp add: handle_wf_def view_simps)
    next
      case False
      with j fs_invD(10) [OF inv] show ?thesis by (simp add: open_inv_def handle_def handle_wf_def view_simps)
    qed
  qed
qed (use fs_invD [OF inv] in \<open>simp_all add: inv_defs owns_def view_simps\<close>)

lemma inv_close_entry:
  assumes inv: "fs_inv s"
  shows "fs_inv (s\<lparr>free_open_file_entries := (free_open_file_entries s)[k := FREE]\<rparr>)"
proof (rule fs_invI)
  show "open_inv (s\<lparr>free_open_file_entries := (free_open_file_entries s)[k := FREE]\<rparr>)"
    using fs_invD(10) [OF inv] by (auto simp: inv_defs view_simps nth_upd split: if_splits)
qed (use fs_invD [OF inv] in \<open>simp_all add: inv_defs owns_def view_simps\<close>)

text \<open>An inode that is not allocated is overwritten: a creation that was undone.\<close>

lemma inv_dead_inode:
  assumes inv: "fs_inv s" and k: "k < length (freeinode_ts s)" "freeinode_ts s ! k = FREE"
  shows "fs_inv (s\<lparr>inode_table := (inode_table s)[k := ino]\<rparr>)" (is "fs_inv ?s")
proof -
  have kl: "k < length (inode_table s)"
    using k shape_lengths [OF fs_invD(1) [OF inv]] by simp
  have k0: "0 < k"
    using k fs_invD(3) [OF inv] by (auto simp: root_inv_def intro: ccontr)
  have other: "inode_of ?s i = inode_of s i" if "file_inode s i \<or> i = 0" for i
    using that k k0 kl by (auto simp: view_simps file_inode_def)
  have views: "root_inode ?s = root_inode s" "dents ?s = dents s"
    using k0 by (simp_all add: view_simps)
  have own: "owns ?s i b = owns s i b" for i b
    using other by (auto simp: owns_def file_inode_simps)
  show ?thesis
  proof (rule fs_invI)
    show "inode_inv ?s"
      using fs_invD(7) [OF inv] other by (auto simp: inode_inv_def inode_wf_def views file_inode_simps)
    show "block_inv ?s"
      using fs_invD(8) [OF inv] own by (auto simp: block_inv_def view_simps)
    show "link_inv ?s"
      using fs_invD(9) [OF inv] other by (auto simp: link_inv_def link_at_def file_inode_simps)
    show "open_inv ?s"
      using fs_invD(10) [OF inv] other by (auto simp: open_inv_def handle_def handle_wf_def file_inode_simps)
  qed (use fs_invD [OF inv] views in \<open>simp_all add: root_inv_def root_ok_def dir_inv_def view_simps\<close>)
qed

text \<open>Directory updates seen through \<open>dents\<close>.\<close>

definition free_slot :: "fs_state \<Rightarrow> nat option" where
  "free_slot s = find (\<lambda>k. \<not> live (dents s ! k)) [0..<MAX_DIR_ENTRIES s]"

lemma free_slot_bound: "free_slot s = Some k \<Longrightarrow> k < MAX_DIR_ENTRIES s"
  by (simp add: free_slot_def find_upt_Some)

lemma dir_add_slot:
  "free_slot s = Some k \<Longrightarrow> dir_add nm i (dents s) = Some ((dents s)[k := (pad MAX_FILE_NAME nm, i)])"
  by (simp add: free_slot_def dir_add_def)

lemma link_at_put_dent:
  assumes "shape s" "root_ok s" "k < MAX_DIR_ENTRIES s" "length (fst e) = MAX_FILE_NAME"
    "valid_block_number s b" "b \<noteq> i_data_block (root_inode s)"
  shows "link_at (put_dent k e s) b t = link_at s b t"
proof -
  have "44 \<le> unat (BLOCK_SIZE s)"
    using assms(1) by (simp add: shape_def params_ok_def)
  with put_dent_read [OF assms(1-6), of 0 "length t + 2"] show ?thesis
    by (auto simp: link_at_def view_simps)
qed

lemma link_at_write:
  assumes "shape s" "valid_block_number s b" "valid_block_number s c" "b \<noteq> c"
    "off + length xs \<le> unat (BLOCK_SIZE s)"
  shows "link_at (s\<lparr>fs_data := write_at (blk_addr s b + off) xs (fs_data s)\<rparr>) c t = link_at s c t"
proof -
  have "44 \<le> unat (BLOCK_SIZE s)"
    using assms(1) by (simp add: shape_def params_ok_def)
  with blk_write_read [OF assms, of 0 "length t + 2"] show ?thesis
    by (auto simp: link_at_def)
qed

lemma file_inode_owns:
  "file_inode s i \<Longrightarrow> i_node_type (inode_of s i) = T_LINK \<or> i_size (inode_of s i) \<noteq> 0 \<Longrightarrow>
     owns s i (i_data_block (inode_of s i))"
  by (auto simp: owns_def)

lemma refs_free_inode:
  assumes "fs_inv s" "\<not> file_inode s i" "i \<noteq> -1"
  shows "refs (dents s) i = 0"
  using assms fs_invD(5) [OF assms(1)]
  by (auto simp: refs_def dir_inv_def live_def filter_empty_conv)

lemma dir_map_file_inode:
  assumes "fs_inv s" "dir_map (dents s) nm = Some i"
  shows "file_inode s i"
  using assms fs_invD(5,6) [OF assms(1)] by (auto simp: dir_inv_def dir_map_Some)

text \<open>A block that no inode owns is allocated and filled.\<close>

lemma inv_unowned_block:
  assumes inv: "fs_inv s" and b: "valid_block_number s b" "\<And>j. \<not> owns s j b"
    and fits: "off + length xs \<le> unat (BLOCK_SIZE s)"
  shows "fs_inv (s\<lparr>free_blocks := (free_blocks s)[nat b := TAKEN],
      fs_data := write_at (blk_addr s b + off) xs (fs_data s)\<rparr>)" (is "fs_inv ?s")
proof -
  note I = fs_invD [OF inv]
  let ?m = "s\<lparr>fs_data := write_at (blk_addr s b + off) xs (fs_data s)\<rparr>"
  have nroot: "b \<noteq> i_data_block (root_inode s)"
    using b(2) owns_root [OF I(3)] by blast
  have views: "root_inode ?s = root_inode s" "dents ?s = dents s"
    using blk_write_dents [OF I(1,4) b(1) nroot fits] by (simp_all add: dents_def view_simps)
  have own: "owns ?s j c = owns s j c" for j c
    by (simp add: owns_def view_simps)
  have lnk: "link_at ?s c t = link_at s c t" if "owns s j c" for j c t
  proof -
    have "link_at ?m c t = link_at s c t"
      using that b(2) owns_block [OF inv that] by (intro link_at_write [OF I(1) b(1) _ _ fits]) auto
    then show ?thesis by (simp add: link_at_def)
  qed
  show ?thesis
  proof (rule fs_invI)
    show "shape ?s"
      using I(1) fits blk_in_data [OF I(1) b(1)] by simp
    show "block_inv ?s"
      using owns_block [OF inv] owns_unique [OF inv]
      by (intro block_invI) (auto simp: own view_simps nth_upd)
    show "link_inv ?s"
      using I(9) lnk by (fastforce simp: link_inv_def view_simps owns_def)
  qed (use I views in \<open>simp_all add: root_inv_def root_ok_def dir_inv_def inode_inv_def inode_wf_def
      open_inv_def handle_def handle_wf_def view_simps\<close>)
qed

text \<open>
  The common case: one inode \<open>i\<close> and the directory change, and everything the other inodes
  rest on stays. The premises are what is specific to an update.
\<close>

lemma inv_change:
  assumes inv: "fs_inv s" and i: "0 < i"
    and same: "shape s'" "held s' = {}" "fs_params s' = fs_params s" "root_inode s' = root_inode s"
      "freeinode_ts s' ! 0 = TAKEN"
    and dir: "wf_dir (dents s')"
      "\<And>j. j \<noteq> -1 \<Longrightarrow> j \<noteq> i \<Longrightarrow> refs (dents s') j = refs (dents s) j"
      "0 < refs (dents s') i \<Longrightarrow> file_inode s' i"
    and others: "\<And>j. j \<noteq> i \<Longrightarrow> file_inode s' j = file_inode s j"
      "\<And>j. j \<noteq> i \<Longrightarrow> file_inode s j \<or> j = ROOT_DIR_INUM \<Longrightarrow> inode_of s' j = inode_of s j"
    and changed: "file_inode s' i \<Longrightarrow> inode_wf s' i"
    and blocks: "\<And>j b. j \<noteq> i \<Longrightarrow> owns s j b \<Longrightarrow> free_blocks s' ! nat b = TAKEN"
      "\<And>b. owns s' i b \<Longrightarrow> valid_block_number s b \<and> free_blocks s' ! nat b = TAKEN \<and>
        (\<forall>j. owns s j b \<longrightarrow> j = i)"
    and links: "\<And>j b t. j \<noteq> i \<Longrightarrow> file_inode s j \<Longrightarrow> owns s j b \<Longrightarrow> link_at s b t \<Longrightarrow> link_at s' b t"
      "file_inode s' i \<Longrightarrow> i_node_type (inode_of s' i) = T_LINK \<Longrightarrow>
        \<exists>t. link_at s' (i_data_block (inode_of s' i)) t"
    and handles: "open_inv s'"
  shows "fs_inv s'"
proof -
  note I = fs_invD [OF inv]
  have vb: "valid_block_number s' b = valid_block_number s b" for b
    by (simp add: valid_block_number_def same)
  have own: "owns s' j b = owns s j b" if "j \<noteq> i" for j b
    using others that by (auto simp: owns_def)
  show ?thesis
  proof (rule fs_invI)
    show "root_inv s'"
      using I(3) same by (simp add: root_inv_def root_ok_def vb)
    have "file_inode s' (snd e)" if "e \<in> set (dents s')" "live e" for e
    proof -
      have "0 < refs (dents s') (snd e)" "snd e \<noteq> -1"
        using that by (auto simp: refs_def filter_empty_conv live_def)
      with dir(2,3) others(1) refs_free_inode [OF inv] show ?thesis
        by (cases "snd e = i") force+
    qed
    with dir(1) show "dir_inv s'" by (simp add: dir_inv_def)
    have "inode_wf s' j" if "file_inode s' j" "j \<noteq> i" for j
    proof -
      have "file_inode s j" "j \<noteq> -1" using that others(1) by (auto simp: file_inode_def)
      with I(7) that others(2) dir(2) same(3) show ?thesis
        by (simp add: inode_inv_def inode_wf_def)
    qed
    with changed show "inode_inv s'" unfolding inode_inv_def by blast
    show "block_inv s'"
    proof (rule block_invI)
      fix j b assume "owns s' j b"
      then show "valid_block_number s' b \<and> free_blocks s' ! nat b = TAKEN"
        using blocks own owns_block(1) [OF inv] vb by (cases "j = i") auto
    next
      fix j l b assume "owns s' j b" "owns s' l b"
      then show "j = l"
        using blocks(2) own owns_unique [OF inv] by (cases "j = i"; cases "l = i") auto
    qed
    have "\<exists>t. link_at s' (i_data_block (inode_of s' j)) t"
      if j: "file_inode s' j" "i_node_type (inode_of s' j) = T_LINK" "j \<noteq> i" for j
    proof -
      have js: "file_inode s j" "inode_of s' j = inode_of s j" using j others by auto
      with j I(9) obtain t where t: "link_at s (i_data_block (inode_of s j)) t"
        by (auto simp: link_inv_def)
      have "owns s j (i_data_block (inode_of s j))" using j js by (simp add: owns_def)
      from links(1) [OF j(3) js(1) this t] js(2) show ?thesis by auto
    qed
    with links(2) show "link_inv s'" by (auto simp: link_inv_def)
  qed (use same handles in simp_all)
qed

text \<open>Handles stay well-formed when their files stay.\<close>

lemma open_inv_keep:
  assumes inv: "fs_inv s" and "free_open_file_entries s' = free_open_file_entries s"
    "open_file_table s' = open_file_table s" "fs_params s' = fs_params s"
    and "\<And>j. opened s j \<Longrightarrow> file_inode s j \<Longrightarrow> i_node_type (inode_of s j) = T_FILE \<Longrightarrow>
      file_inode s' j \<and> i_node_type (inode_of s' j) = T_FILE"
  shows "open_inv s'"
proof -
  have "handle_wf s' (open_file_table s ! k)" if "handle s k" for k
    using that fs_invD(10) [OF inv] assms(4) assms(5) [of "of_inumber (open_file_table s ! k)"]
    by (auto simp: open_inv_def handle_wf_def opened_iff)
  then show ?thesis using assms(2,3) by (simp add: open_inv_def handle_def)
qed

text \<open>A file is truncated.\<close>

lemma inv_truncate:
  assumes inv: "fs_inv s" and i: "file_inode s i" "i_node_type (inode_of s i) = T_FILE"
    and sz: "i_size (inode_of s i) \<noteq> 0"
  shows "fs_inv (s\<lparr>free_blocks := (free_blocks s)[nat (i_data_block (inode_of s i)) := FREE],
      inode_table := (inode_table s)[nat i := (inode_of s i)\<lparr>i_size := 0\<rparr>]\<rparr>)" (is "fs_inv ?s")
proof -
  note I = fs_invD [OF inv] and ib = file_inode_bounds [OF i(1) fs_invD(1) [OF inv]]
  let ?b = "i_data_block (inode_of s i)"
  have oi: "owns s i ?b" using i sz by (simp add: owns_def)
  have ino: "inode_of ?s j = (if j = i then (inode_of s i)\<lparr>i_size := 0\<rparr> else inode_of s j)"
    if "file_inode s j \<or> j = ROOT_DIR_INUM" for j
    using ib that by (auto simp: inode_of_def nth_upd file_inode_def eq_nat_nat_iff)
  have dt: "dents ?s = dents s" using ib by (simp add: view_simps)
  show ?thesis
  proof (rule inv_change [OF inv ib(1)])
    show "free_blocks ?s ! nat b = TAKEN" if "j \<noteq> i" "owns s j b" for j b
      using that owns_block [OF inv that(2)] owns_block(3) [OF inv oi] owns_unique [OF inv oi]
      by (auto simp: nth_upd eq_nat_nat_iff)
    show "inode_wf ?s i"
      using I(7) i ino [of i] by (simp add: inode_inv_def inode_wf_def dt)
    show "file_inode ?s i" using i by (simp add: view_simps)
    show "open_inv ?s"
      using ino by (intro open_inv_keep [OF inv]) (auto simp: file_inode_simps)
  qed (use I i ib ino dt in \<open>auto simp: root_inv_def file_inode_simps owns_def link_at_def root_inode_simps inode_table_0\<close>)
qed

text \<open>A new inode is created and named.\<close>

lemma inv_new_entry:
  assumes inv: "fs_inv s" and i: "first_free (freeinode_ts s) = Some i" and k: "free_slot s = Some k"
    and nm: "good_name nm" "dir_map (dents s) nm = None"
    and ino: "i_node_type ino \<noteq> T_DIRECTORY" "i_links_count ino = 1" "i_size ino = 0"
    and lnk: "i_node_type ino = T_LINK \<Longrightarrow> valid_block_number s (i_data_block ino) \<and>
      free_blocks s ! nat (i_data_block ino) = TAKEN \<and> (\<forall>j. \<not> owns s j (i_data_block ino)) \<and>
      (\<exists>t. link_at s (i_data_block ino) t)"
  shows "fs_inv (put_dent k (pad MAX_FILE_NAME nm, int i)
      (s\<lparr>freeinode_ts := (freeinode_ts s)[i := TAKEN], inode_table := (inode_table s)[i := ino]\<rparr>))"
    (is "fs_inv (put_dent k ?e ?s)")
proof -
  note I = fs_invD [OF inv]
  let ?t = "put_dent k ?e ?s"
  have il: "i < length (freeinode_ts s)" "i < length (inode_table s)" "freeinode_ts s ! i = FREE"
    using i shape_lengths [OF I(1)] by (simp_all add: first_free_Some)
  have i0: "0 < i" using il I(3) by (auto simp: root_inv_def intro: ccontr)
  have irange: "int32_range (int i)"
    using il shape_lengths [OF I(1)] I(1) by (simp add: shape_def params_ok_def int32_range_def)
  have fi: "file_inode ?t j \<longleftrightarrow> j = int i \<or> file_inode s j" and ni: "\<not> file_inode s (int i)" for j
    using il i0 by (auto simp: put_dent_views file_inode_def nth_upd)
  have io: "inode_of ?t j = (if j = int i then ino else inode_of s j)"
    if "file_inode ?t j \<or> j = ROOT_DIR_INUM" for j
    using il i0 that fi by (auto simp: put_dent_views inode_of_def nth_upd file_inode_def)
  have sh: "shape ?s" "root_ok ?s" "root_inode ?s = root_inode s" "dents ?s = dents s"
    using I(1,4) i0 by (simp_all add: view_simps root_ok_def)
  have kb: "k < MAX_DIR_ENTRIES ?s" and len: "length (fst ?e) = MAX_FILE_NAME"
    using free_slot_bound [OF k] nm by (simp_all add: view_simps good_name_def)
  have add: "dir_add nm (int i) (dents s) = Some (dents ?t)"
    using dir_add_slot [OF k] dents_put_dent [OF sh(1,2) kb len] irange sh(4) by simp
  have lk: "link_at ?t b t = link_at s b t"
    if "valid_block_number s b" "b \<noteq> i_data_block (root_inode s)" for b t
    using link_at_put_dent [OF sh(1,2) kb len, of b t] that sh(3) by (simp add: view_simps link_at_def)
  show ?thesis
  proof (rule inv_change [OF inv, of "int i"])
    show "wf_dir (dents ?t)"
      using wf_dir_add [OF I(6) nm(1) _ nm(2) add] by simp
    show "inode_wf ?t (int i)"
      using io [of "int i"] fi refs_add [OF add, of "int i"] ino refs_free_inode [OF inv ni]
      by (simp add: inode_wf_def)
    show "\<exists>t. link_at ?t (i_data_block (inode_of ?t (int i))) t" if "i_node_type (inode_of ?t (int i)) = T_LINK"
    proof -
      have ii: "inode_of ?t (int i) = ino" using io [of "int i"] fi by simp
      with that lnk owns_root [OF I(3)] have "valid_block_number s (i_data_block ino)"
        "i_data_block ino \<noteq> i_data_block (root_inode s)" "\<exists>t. link_at s (i_data_block ino) t"
        by auto
      with lk ii show ?thesis by simp
    qed
    show "link_at ?t b t" if "file_inode s j" "owns s j b" "link_at s b t" for j b t
      using that lk owns_block(1) [OF inv] owns_not_root [OF inv that(2)] by (auto simp: file_inode_def)
    show "open_inv ?t"
      using fi io ni by (intro open_inv_keep [OF inv]) auto
    show "valid_block_number s b \<and> free_blocks ?t ! nat b = TAKEN \<and> (\<forall>j. owns s j b \<longrightarrow> j = int i)"
      if "owns ?t (int i) b" for b
      using that io [of "int i"] fi ino lnk by (cases "i_node_type ino") (auto simp: owns_def)
    show "refs (dents ?t) j = refs (dents s) j" if "j \<noteq> -1" "j \<noteq> int i" for j
      using refs_add [OF add that(1)] that(2) by simp
  qed (use I i0 sh kb len fi io il owns_block(2) [OF inv] in \<open>auto simp: root_inv_def put_dent_views nth_upd\<close>)
qed

text \<open>The counters of the links of an inode do not overflow.\<close>

lemma refs_bound:
  assumes "shape s"
  shows "refs (dents s) i \<le> MAX_DIR_ENTRIES s" "MAX_DIR_ENTRIES s < 2 ^ 31"
proof -
  show "refs (dents s) i \<le> MAX_DIR_ENTRIES s"
    using length_filter_le [of "\<lambda>e. snd e = i" "dents s"] by (simp add: refs_def)
  have "unat (BLOCK_SIZE s) < 2 ^ 32"
    using assms by (simp add: shape_def params_ok_def)
  then have "unat (BLOCK_SIZE s) < 2 ^ 31 * 44" by simp
  then have "unat (BLOCK_SIZE s) div 44 < 2 ^ 31" by (rule less_mult_imp_div_less)
  then show "MAX_DIR_ENTRIES s < 2 ^ 31" by (simp add: MAX_DIR_ENTRIES_def)
qed

lemma links_count:
  assumes "fs_inv s" "file_inode s i"
  shows "unat (i_links_count (inode_of s i)) = refs (dents s) i"
    "unat (i_links_count (inode_of s i) + 1) = refs (dents s) i + 1"
    "unat (i_links_count (inode_of s i) - 1) = refs (dents s) i - 1"
    "i_links_count (inode_of s i) = 1 \<longleftrightarrow> refs (dents s) i = 1"
proof -
  have wf: "unat (i_links_count (inode_of s i)) = refs (dents s) i" "0 < refs (dents s) i"
    using assms fs_invD(7) [OF assms(1)] by (auto simp: inode_inv_def inode_wf_def)
  show "unat (i_links_count (inode_of s i)) = refs (dents s) i" by fact
  show "unat (i_links_count (inode_of s i) + 1) = refs (dents s) i + 1"
    using refs_bound(1) [OF fs_invD(1) [OF assms(1)], of i] refs_bound(2) [OF fs_invD(1) [OF assms(1)]] wf
    by (simp add: unat_word_ariths)
  have "1 \<le> i_links_count (inode_of s i)"
    using wf by (simp add: word_le_nat_alt)
  with wf show "unat (i_links_count (inode_of s i) - 1) = refs (dents s) i - 1"
    by (simp add: unat_sub)
  show "i_links_count (inode_of s i) = 1 \<longleftrightarrow> refs (dents s) i = 1"
    using wf by (simp add: word_unat_eq_iff [of "i_links_count (inode_of s i)" 1])
qed

text \<open>An existing inode gets another name.\<close>

lemma inv_link:
  assumes inv: "fs_inv s" and i: "file_inode s i" "i_node_type (inode_of s i) = T_FILE"
    and k: "free_slot s = Some k" and nm: "good_name nm" "dir_map (dents s) nm = None"
  shows "fs_inv ((put_dent k (pad MAX_FILE_NAME nm, i) s)\<lparr>inode_table := (inode_table s)[nat i :=
      (inode_of s i)\<lparr>i_links_count := i_links_count (inode_of s i) + 1\<rparr>]\<rparr>)" (is "fs_inv ?t")
proof -
  note I = fs_invD [OF inv] and ib = file_inode_bounds [OF i(1) fs_invD(1) [OF inv]]
  let ?e = "(pad MAX_FILE_NAME nm, i)"
  have kb: "k < MAX_DIR_ENTRIES s" and len: "length (fst ?e) = MAX_FILE_NAME"
    using free_slot_bound [OF k] nm by (simp_all add: good_name_def)
  have dt: "dents ?t = dents (put_dent k ?e s)"
    using ib by (intro dents_simps) (simp add: put_dent_views inode_table_0)
  have add: "dir_add nm i (dents s) = Some (dents ?t)"
    using dir_add_slot [OF k] dents_put_dent [OF I(1,4) kb len] ib dt by simp
  have io: "inode_of ?t j = (if j = i then (inode_of s i)\<lparr>i_links_count := i_links_count (inode_of s i) + 1\<rparr>
      else inode_of s j)" if "file_inode s j \<or> j = ROOT_DIR_INUM" for j
    using ib that by (auto simp: inode_of_def nth_upd file_inode_def eq_nat_nat_iff)
  have fi: "file_inode ?t j = file_inode s j" for j
    by (simp add: view_simps)
  have lk: "link_at ?t b t = link_at s b t"
    if "valid_block_number s b" "b \<noteq> i_data_block (root_inode s)" for b t
    using link_at_put_dent [OF I(1,4) kb len, of b t] that by (simp add: link_at_def)
  show ?thesis
  proof (rule inv_change [OF inv ib(1)])
    show "wf_dir (dents ?t)"
      using wf_dir_add [OF I(6) nm(1) _ nm(2) add] ib by simp
    show "inode_wf ?t i"
      using io [of i] i I(7) refs_add [OF add, of i] links_count(2) [OF inv i(1)] ib
      by (simp add: inode_inv_def inode_wf_def)
    show "link_at ?t b t" if "file_inode s j" "owns s j b" "link_at s b t" for j b t
      using that lk owns_block(1) [OF inv] owns_not_root [OF inv that(2)] by (auto simp: file_inode_def)
    show "open_inv ?t"
      using fi io by (intro open_inv_keep [OF inv]) auto
    show "refs (dents ?t) j = refs (dents s) j" if "j \<noteq> -1" "j \<noteq> i" for j
      using refs_add [OF add that(1)] that(2) by simp
    show "valid_block_number s b \<and> free_blocks ?t ! nat b = TAKEN \<and> (\<forall>j. owns s j b \<longrightarrow> j = i)"
      if "owns ?t i b" for b
    proof -
      have "owns s i b" using that io [of i] i ib by (auto simp: owns_def)
      then show ?thesis using owns_block [OF inv] owns_unique [OF inv] by auto
    qed
    show "shape ?t" using I(1,4) kb len by simp
    show "root_inode ?t = root_inode s" using ib by (simp add: root_inode_simps inode_table_0)
  qed (use I i ib fi io owns_block(2) [OF inv] in \<open>auto simp: root_inv_def\<close>)
qed

text \<open>A name is removed.\<close>

lemma clear_facts:
  assumes inv: "fs_inv s" and nm: "dir_map (dents s) nm = Some i" and k: "k < MAX_DIR_ENTRIES s"
    and clr: "dir_clear nm (dents s) = Some ((dents s)[k := (replicate MAX_FILE_NAME 0, -1)])"
  defines "u \<equiv> put_dent k (replicate MAX_FILE_NAME 0, -1) s"
  shows "shape u" "dir_clear nm (dents s) = Some (dents u)" "wf_dir (dents u)"
    "\<And>j. j \<noteq> -1 \<Longrightarrow> j \<noteq> i \<Longrightarrow> refs (dents u) j = refs (dents s) j"
    "refs (dents s) i = refs (dents u) i + 1"
    "\<And>j b t. file_inode s j \<Longrightarrow> owns s j b \<Longrightarrow> link_at u b t = link_at s b t"
proof -
  note I = fs_invD [OF inv]
  have i: "i \<noteq> -1" using nm by (rule dir_map_not_minus1)
  have du: "dents u = (dents s)[k := (replicate MAX_FILE_NAME 0, -1)]"
    unfolding u_def using dents_put_dent [OF I(1,4) k] by (simp add: int32_range_def)
  show clr': "dir_clear nm (dents s) = Some (dents u)" using clr du by simp
  show "shape u" unfolding u_def using I(1,4) k by simp
  show "wf_dir (dents u)" using wf_dir_clear [OF I(6) clr'] .
  show "refs (dents u) j = refs (dents s) j" if "j \<noteq> -1" "j \<noteq> i" for j
    using refs_clear [OF clr' nm I(6) that(1)] that(2) by simp
  show "refs (dents s) i = refs (dents u) i + 1"
    using refs_clear [OF clr' nm I(6) i] by simp
  show "link_at u b t = link_at s b t" if "file_inode s j" "owns s j b" for j b t
    unfolding u_def using that owns_block(1) [OF inv] owns_not_root [OF inv that(2)] I(1,4) k
    by (intro link_at_put_dent) (auto simp: file_inode_def)
qed

lemma inv_unlink_more:
  assumes inv: "fs_inv s" and nm: "dir_map (dents s) nm = Some i" and k: "k < MAX_DIR_ENTRIES s"
    and clr: "dir_clear nm (dents s) = Some ((dents s)[k := (replicate MAX_FILE_NAME 0, -1)])"
    and more: "i_links_count (inode_of s i) \<noteq> 1"
  shows "fs_inv ((put_dent k (replicate MAX_FILE_NAME 0, -1) s)\<lparr>inode_table := (inode_table s)[nat i :=
      (inode_of s i)\<lparr>i_links_count := i_links_count (inode_of s i) - 1\<rparr>]\<rparr>)" (is "fs_inv ?t")
proof -
  note I = fs_invD [OF inv] and C = clear_facts [OF inv nm k clr]
  have i: "file_inode s i" using dir_map_file_inode [OF inv nm] .
  note ib = file_inode_bounds [OF i I(1)]
  have dt: "dents ?t = dents (put_dent k (replicate MAX_FILE_NAME 0, -1) s)"
    using ib by (intro dents_simps) (simp add: put_dent_views inode_table_0)
  have io: "inode_of ?t j = (if j = i then (inode_of s i)\<lparr>i_links_count := i_links_count (inode_of s i) - 1\<rparr>
      else inode_of s j)" if "file_inode s j \<or> j = ROOT_DIR_INUM" for j
    using ib that by (auto simp: inode_of_def nth_upd file_inode_def eq_nat_nat_iff)
  have fi: "file_inode ?t j = file_inode s j" for j
    by (simp add: view_simps)
  have lk: "link_at ?t b t = link_at s b t" if "file_inode s j" "owns s j b" for j b t
    using C(6) [OF that] by (simp add: link_at_def)
  show ?thesis
  proof (rule inv_change [OF inv ib(1)])
    show "inode_wf ?t i"
      using io [of i] i I(7) links_count [OF inv i] C(5) more dt by (simp add: inode_inv_def inode_wf_def)
    show "open_inv ?t"
      using fi io by (intro open_inv_keep [OF inv]) auto
    show "valid_block_number s b \<and> free_blocks ?t ! nat b = TAKEN \<and> (\<forall>j. owns s j b \<longrightarrow> j = i)"
      if "owns ?t i b" for b
    proof -
      have "owns s i b" using that io [of i] i ib by (auto simp: owns_def)
      then show ?thesis using owns_block [OF inv] owns_unique [OF inv] by auto
    qed
    show "\<exists>t. link_at ?t (i_data_block (inode_of ?t i)) t" if "i_node_type (inode_of ?t i) = T_LINK"
      using that io [of i] i lk [OF i] I(9) by (auto simp: link_inv_def owns_def)
    show "root_inode ?t = root_inode s" using ib by (simp add: root_inode_simps inode_table_0)
  qed (use I i ib fi io C dt lk owns_block(2) [OF inv] in \<open>auto simp: root_inv_def\<close>)
qed

lemma inv_unlink_last:
  assumes inv: "fs_inv s" and nm: "dir_map (dents s) nm = Some i" and k: "k < MAX_DIR_ENTRIES s"
    and clr: "dir_clear nm (dents s) = Some ((dents s)[k := (replicate MAX_FILE_NAME 0, -1)])"
    and last: "i_links_count (inode_of s i) = 1" and closed: "\<not> opened s i"
  shows "fs_inv ((put_dent k (replicate MAX_FILE_NAME 0, -1) s)\<lparr>
      free_blocks := (if i_size (inode_of s i) > 0
        then (free_blocks s)[nat (i_data_block (inode_of s i)) := FREE] else free_blocks s),
      freeinode_ts := (freeinode_ts s)[nat i := FREE]\<rparr>)" (is "fs_inv ?t")
proof -
  note I = fs_invD [OF inv] and C = clear_facts [OF inv nm k clr]
  have i: "file_inode s i" using dir_map_file_inode [OF inv nm] .
  note ib = file_inode_bounds [OF i I(1)]
  have dt: "dents ?t = dents (put_dent k (replicate MAX_FILE_NAME 0, -1) s)"
    by (simp add: dents_simps)
  have fi: "file_inode ?t j \<longleftrightarrow> file_inode s j \<and> j \<noteq> i" for j
    using ib by (auto simp: file_inode_def nth_upd eq_nat_nat_iff split: if_splits)
  have io: "inode_of ?t j = inode_of s j" for j by (simp add: view_simps)
  have lk: "link_at ?t b t = link_at s b t" if "file_inode s j" "owns s j b" for j b t
    using C(6) [OF that] by (simp add: link_at_def)
  show ?thesis
  proof (rule inv_change [OF inv ib(1)])
    show "free_blocks ?t ! nat b = TAKEN" if "j \<noteq> i" "owns s j b" for j b
    proof (cases "i_size (inode_of s i) > 0")
      case True
      then have "owns s i (i_data_block (inode_of s i))" using i by (auto simp: owns_def)
      with that owns_unique [OF inv] have "b \<noteq> i_data_block (inode_of s i)"
        "0 \<le> i_data_block (inode_of s i)"
        using owns_block [OF inv] by blast+
      with True owns_block [OF inv that(2)] show ?thesis by (auto simp: nth_upd eq_nat_nat_iff)
    qed (use owns_block [OF inv that(2)] in simp)
    show "open_inv ?t"
      using fi io closed by (intro open_inv_keep [OF inv]) auto
    show "file_inode ?t i" if "0 < refs (dents ?t) i"
      using that C(5) dt links_count(4) [OF inv i] last by simp
    show "valid_block_number s b \<and> free_blocks ?t ! nat b = TAKEN \<and> (\<forall>j. owns s j b \<longrightarrow> j = i)"
      if "owns ?t i b" for b
      using that fi ib by (simp add: owns_def)
    show "freeinode_ts ?t ! 0 = TAKEN"
      using I(3) ib by (simp add: root_inv_def)
  qed (use I i ib fi io C dt lk in \<open>auto simp: view_simps\<close>)
qed

text \<open>A file grows into a block of its own.\<close>

lemma inv_grow:
  assumes inv: "fs_inv s" and i: "file_inode s i" "i_node_type (inode_of s i) = T_FILE"
    and b: "valid_block_number s b" "\<And>j. owns s j b \<Longrightarrow> j = i"
    and fits: "off + length xs \<le> unat (BLOCK_SIZE s)"
    and sz: "i_size (inode_of s i) \<le> sz" "sz \<noteq> 0" "sz \<le> BLOCK_SIZE s"
  shows "fs_inv (s\<lparr>free_blocks := (free_blocks s)[nat b := TAKEN],
      fs_data := write_at (blk_addr s b + off) xs (fs_data s),
      inode_table := (inode_table s)[nat i := (inode_of s i)\<lparr>i_size := sz, i_data_block := b\<rparr>]\<rparr>)"
    (is "fs_inv ?t")
proof -
  note I = fs_invD [OF inv] and ib = file_inode_bounds [OF i(1) fs_invD(1) [OF inv]]
  let ?m = "s\<lparr>fs_data := write_at (blk_addr s b + off) xs (fs_data s)\<rparr>"
  have nroot: "b \<noteq> i_data_block (root_inode s)"
    using b(2) owns_root [OF I(3)] ib by blast
  have dt: "dents ?t = dents s"
    using blk_write_dents [OF I(1,4) b(1) nroot fits] ib by (simp add: dents_def view_simps)
  have io: "inode_of ?t j = (if j = i then (inode_of s i)\<lparr>i_size := sz, i_data_block := b\<rparr> else inode_of s j)"
    if "file_inode s j \<or> j = ROOT_DIR_INUM" for j
    using ib that by (auto simp: inode_of_def nth_upd file_inode_def eq_nat_nat_iff)
  have fi: "file_inode ?t j = file_inode s j" for j by (simp add: view_simps)
  show ?thesis
  proof (rule inv_change [OF inv ib(1)])
    show "link_at ?t c t" if "j \<noteq> i" "owns s j c" "link_at s c t" for j c t
    proof -
      have "link_at ?m c t = link_at s c t"
        using that b owns_block [OF inv that(2)] by (intro link_at_write [OF I(1) b(1) _ _ fits]) auto
      then show ?thesis using that by (simp add: link_at_def)
    qed
    show "inode_wf ?t i"
      using I(7) i io [of i] sz by (simp add: inode_inv_def inode_wf_def dt)
    show "open_inv ?t"
      using fi io sz by (intro open_inv_keep [OF inv]) auto
    show "free_blocks ?t ! nat c = TAKEN" if "owns s j c" for j c
      using owns_block [OF inv that] by (simp add: nth_upd)
    show "valid_block_number s c \<and> free_blocks ?t ! nat c = TAKEN \<and> (\<forall>j. owns s j c \<longrightarrow> j = i)"
      if "owns ?t i c" for c
    proof -
      have "c = b" using that io [of i] i by (simp add: owns_def)
      with b shape_lengths(3) [OF I(1)] show ?thesis by (auto simp: valid_block_number_iff)
    qed
    show "shape ?t" using I(1) fits blk_in_data [OF I(1) b(1)] by simp
  qed (use I i ib fi io dt in \<open>auto simp: root_inv_def root_inode_simps inode_table_0\<close>)
qed

lemma inv_move_handle:
  assumes "fs_inv s" "handle s f" "handle_wf s e"
  shows "fs_inv (s\<lparr>open_file_table := (open_file_table s)[f := e]\<rparr>)"
proof -
  have "(free_open_file_entries s)[f := TAKEN] = free_open_file_entries s"
    using assms(2) by (metis handle_def list_update_id)
  with inv_open_entry [OF assms(1,3), of f] show ?thesis by simp
qed

end
