(* ===== verification/FS_Effects.thy ===== *)
theory FS_Effects
  imports FS_Invariant
begin

text \<open>
  The operations of \<open>fs/operations.c\<close> in a well-formed state. For each operation there is a
  lock-free effect, a plain function on states, and a lemma that the operation, with all its lock
  calls, returns and has exactly that effect.
\<close>

section \<open>Paths\<close>

definition path_ok :: "cstring option \<Rightarrow> bool" where
  "path_ok p = (case p of None \<Rightarrow> True | Some n \<Rightarrow> 0 \<notin> set n)"

definition base :: "cstring option \<Rightarrow> cstring" where
  "base p = tl (the p)"

definition lookup :: "fs_state \<Rightarrow> cstring option \<Rightarrow> int option" where
  "lookup s p = (if valid_pathname p then dir_map (dents s) (base p) else None)"

lemma path_ok_base: "path_ok p \<Longrightarrow> valid_pathname p \<Longrightarrow> 0 \<notin> set (base p) \<and> base p \<noteq> []"
  by (cases p; cases "the p") (auto simp: path_ok_def valid_pathname_def base_def)

lemma lookup_file_inode: "fs_inv s \<Longrightarrow> lookup s p = Some i \<Longrightarrow> file_inode s i"
  by (auto simp: lookup_def split: if_splits intro: dir_map_file_inode)

lemma lookup_not_minus1: "fs_inv s \<Longrightarrow> lookup s p = Some i \<Longrightarrow> i \<noteq> -1"
  using lookup_file_inode by (fastforce simp: file_inode_def)

lemma root_ok_simps [view_simps]:
  "root_ok (s\<lparr>held := H\<rparr>) = root_ok s"
  "root_ok (s\<lparr>free_blocks := f\<rparr>) = root_ok s"
  "root_ok (s\<lparr>fs_data := m\<rparr>) = root_ok s"
  "root_ok (s\<lparr>freeinode_ts := fi\<rparr>) = root_ok s"
  "t ! 0 = root_inode s \<Longrightarrow> root_ok (s\<lparr>inode_table := t\<rparr>) = root_ok s"
  by (simp_all add: root_ok_def view_simps) (simp add: root_inode_def)

lemma tfs_lookup_eq:
  assumes "shape s" "root_ok s" "wf_dir (dents s)" "path_ok p"
  shows "tfs_lookup p ROOT_DIR_INUM s = Ok (case lookup s p of None \<Rightarrow> -1 | Some i \<Rightarrow> i)"
proof (cases "valid_pathname p")
  case True
  with assms path_ok_base [of p] find_in_dir_eq [of s "base p"] show ?thesis
    by (simp add: tfs_lookup_def root_at root_ok_def lookup_def base_def)
qed (simp add: tfs_lookup_def lookup_def)

text \<open>The state in which an operation has taken locks.\<close>

lemma fs_inv_held:
  assumes "fs_inv s"
  shows "\<And>l. l \<notin> held s" "\<And>H. locks_init (s\<lparr>held := H\<rparr>)" "\<And>H. shape (s\<lparr>held := H\<rparr>)"
    "\<And>H. root_ok (s\<lparr>held := H\<rparr>)" "\<And>H. wf_dir (dents (s\<lparr>held := H\<rparr>))"
    "\<And>H. lookup (s\<lparr>held := H\<rparr>) p = lookup s p" "locks_init s"
    "valid_inumber s ROOT_DIR_INUM"
  using fs_invD [OF assms] by (auto simp: shape_locks lookup_def view_simps root_ok_def valid_inumber_iff)

section \<open>Closing\<close>

definition is_handle :: "fs_state \<Rightarrow> int \<Rightarrow> bool" where
  "is_handle s fd \<longleftrightarrow> 0 \<le> fd \<and> handle s (nat fd)"

lemma get_entry:
  assumes "fs_inv s"
  shows "get_open_file_entry fd s = Ok (if is_handle s fd then Some fd else None)"
  using get_open_file_entry_eq [OF fs_invD(1) [OF assms]] shape_lengths [OF fs_invD(1) [OF assms]]
  by (simp add: is_handle_def handle_def valid_file_handle_iff)

definition close_effect :: "int \<Rightarrow> fs_state \<Rightarrow> int \<times> fs_state" where
  "close_effect fd s =
     (if is_handle s fd
      then (0, s\<lparr>free_open_file_entries := (free_open_file_entries s)[nat fd := FREE]\<rparr>)
      else (-1, s))"

lemma tfs_close_eq:
  assumes "fs_inv s"
  shows "tfs_close fd s = Ok (close_effect fd s)"
proof (cases "is_handle s fd")
  case True
  then have "valid_file_handle s fd" "free_open_file_entries s ! nat fd = TAKEN"
    using shape_lengths [OF fs_invD(1) [OF assms]]
    by (auto simp: is_handle_def handle_def valid_file_handle_iff)
  then show ?thesis
    using True fs_inv_held [OF assms] fs_invD(1) [OF assms]
    by (simp add: tfs_close_def get_entry [OF assms] close_effect_def remove_from_open_file_table_eq)
qed (simp add: tfs_close_def get_entry [OF assms] close_effect_def)

section \<open>Creating and opening\<close>

definition create_effect :: "inode_t \<Rightarrow> cstring \<Rightarrow> fs_state \<Rightarrow> int option \<times> fs_state" where
  "create_effect ino nm s =
     (case first_free (freeinode_ts s) of
        None \<Rightarrow> (None, s)
      | Some i \<Rightarrow>
          (case free_slot s of
             Some k \<Rightarrow>
               if length nm < MAX_FILE_NAME
               then (Some (int i),
                     put_dent k (pad MAX_FILE_NAME nm, int i)
                       (s\<lparr>freeinode_ts := (freeinode_ts s)[i := TAKEN],
                          inode_table := (inode_table s)[i := ino]\<rparr>))
               else (None, s\<lparr>inode_table := (inode_table s)[i := ino]\<rparr>)
           | None \<Rightarrow> (None, s\<lparr>inode_table := (inode_table s)[i := ino]\<rparr>)))"

definition handle_effect :: "int \<Rightarrow> size_t \<Rightarrow> fs_state \<Rightarrow> int \<times> fs_state" where
  "handle_effect i off s =
     (case first_free (free_open_file_entries s) of
        None \<Rightarrow> (-1, s)
      | Some k \<Rightarrow>
          (int k, s\<lparr>free_open_file_entries := (free_open_file_entries s)[k := TAKEN],
                    open_file_table := (open_file_table s)[k := \<lparr>of_inumber = i, of_offset = off\<rparr>]\<rparr>))"

definition truncate_effect :: "int \<Rightarrow> fs_state \<Rightarrow> fs_state" where
  "truncate_effect i s =
     (if i_size (inode_of s i) = 0 then s
      else s\<lparr>free_blocks := (free_blocks s)[nat (i_data_block (inode_of s i)) := FREE],
             inode_table := (inode_table s)[nat i := (inode_of s i)\<lparr>i_size := 0\<rparr>]\<rparr>)"

definition link_path :: "fs_state \<Rightarrow> int \<Rightarrow> cstring" where
  "link_path s i = cname (read_at (blk_addr s (i_data_block (inode_of s i))) MAX_FILE_NAME (fs_data s))"

definition open_effect ::
  "cstring option \<Rightarrow> tfs_file_mode_t \<Rightarrow> fs_state \<Rightarrow> open_next \<times> fs_state" where
  "open_effect name mode s =
     (case lookup s name of
        None \<Rightarrow>
          if valid_pathname name \<and> has_flag mode TFS_O_CREAT then
            (case create_effect (new_inode T_FILE) (base name) s of
               (None, s') \<Rightarrow> (Returned (-1), s')
             | (Some i, s') \<Rightarrow> map_prod Returned id (handle_effect i 0 s'))
          else (Returned (-1), s)
      | Some i \<Rightarrow>
          if i_node_type (inode_of s i) = T_LINK then
            if has_flag mode TFS_O_CREAT then (Returned (-1), s) else (Follow (link_path s i), s)
          else
            let s1 = (if has_flag mode TFS_O_TRUNC then truncate_effect i s else s) in
            map_prod Returned id
              (handle_effect i (if has_flag mode TFS_O_APPEND then i_size (inode_of s1 i) else 0) s1))"

lemma add_handle:
  assumes "shape s" "\<And>l. l \<notin> held s"
  shows "add_to_open_file_table i off s = Ok (handle_effect i off s)"
  using add_to_open_file_table_eq [OF assms(1,2) assms(2)]
  by (simp add: handle_effect_def split: option.splits)


text \<open>The part of \<open>tfs_open\<close> and \<open>tfs_sym_link\<close> that names a freshly made inode or undoes it.\<close>

lemma undo_create:
  assumes s: "shape s" and h: "Inode_table_rwl \<notin> held s" "Free_blocks_rwl \<notin> held s"
    and i: "first_free (freeinode_ts s) = Some i" and ino: "i_size ino = 0"
  shows "inode_delete (int i) (s\<lparr>freeinode_ts := (freeinode_ts s)[i := TAKEN],
      inode_table := (inode_table s)[i := ino]\<rparr>) = Ok (0, s\<lparr>inode_table := (inode_table s)[i := ino]\<rparr>)"
proof -
  have il: "i < length (freeinode_ts s)" "i < length (inode_table s)" "freeinode_ts s ! i = FREE"
    using i shape_lengths [OF s] by (simp_all add: first_free_Some)
  have restored: "(freeinode_ts s)[i := FREE] = freeinode_ts s"
    using il by (metis list_update_id)
  show ?thesis
    using s h il ino shape_lengths [OF s]
    by (subst inode_delete_eq) (simp_all add: valid_inumber_iff restored)
qed

lemma add_name:
  assumes s: "shape s" "root_ok s" and nm: "nm \<noteq> []"
  shows "add_dir_entry ROOT_DIR_INUM nm i s =
    (case free_slot s of
       Some k \<Rightarrow> if length nm < MAX_FILE_NAME
                 then Ok (0, put_dent k (pad MAX_FILE_NAME nm, i) s) else Ok (-1, s)
     | None \<Rightarrow> Ok (-1, s))"
  using add_dir_entry_eq [OF s nm] nm
  by (cases "length nm < MAX_FILE_NAME") (auto simp: free_slot_def add_dir_entry_def split: option.splits)

lemma free_slot_simps [view_simps]:
  "free_slot (s\<lparr>freeinode_ts := f\<rparr>) = free_slot s"
  "free_slot (s\<lparr>held := H\<rparr>) = free_slot s"
  "free_slot (s\<lparr>free_blocks := f\<rparr>) = free_slot s"
  "t ! 0 = root_inode s \<Longrightarrow> free_slot (s\<lparr>inode_table := t\<rparr>) = free_slot s"
  by (simp_all add: free_slot_def view_simps)

lemma put_dent_held: "put_dent k e (s\<lparr>held := H\<rparr>) = (put_dent k e s)\<lparr>held := H\<rparr>"
  by (simp add: put_dent_def view_simps)

lemma first_free_inode:
  assumes "fs_inv s" "first_free (freeinode_ts s) = Some i"
  shows "0 < i" "i < length (freeinode_ts s)" "i < length (inode_table s)" "freeinode_ts s ! i = FREE"
    "\<not> file_inode s (int i)"
  using assms fs_invD(3) [OF assms(1)] shape_lengths [OF fs_invD(1) [OF assms(1)]]
  by (auto simp: first_free_Some root_inv_def file_inode_def intro: ccontr)

lemma create_locked:
  assumes inv: "fs_inv s" and ty: "ty \<noteq> T_DIRECTORY"
  shows "inode_create ty (s\<lparr>held := insert (Inode_rwl ROOT_DIR_INUM) (held s)\<rparr>) =
    (case first_free (freeinode_ts s) of
       None \<Rightarrow> Ok (-1, s\<lparr>held := insert (Inode_rwl ROOT_DIR_INUM) (held s)\<rparr>)
     | Some i \<Rightarrow> Ok (int i, s\<lparr>held := insert (Inode_rwl ROOT_DIR_INUM) (held s),
         freeinode_ts := (freeinode_ts s)[i := TAKEN],
         inode_table := (inode_table s)[i := new_inode ty]\<rparr>))"
  using first_free_inode [OF inv] fs_inv_held [OF inv] fs_invD(1) [OF inv] ty
  by (subst inode_create_eq) (auto split: option.split)

lemma name_locked:
  fixes ino s
  defines "h \<equiv> s\<lparr>held := insert (Inode_rwl ROOT_DIR_INUM) (held s)\<rparr>"
  assumes inv: "fs_inv s" and i: "first_free (freeinode_ts s) = Some i" and b: "nm \<noteq> []"
  shows "add_dir_entry ROOT_DIR_INUM nm (int i)
      (h\<lparr>freeinode_ts := (freeinode_ts s)[i := TAKEN], inode_table := (inode_table s)[i := ino]\<rparr>) =
    (case create_effect ino nm s of
       (None, s') \<Rightarrow> Ok (-1, h\<lparr>freeinode_ts := (freeinode_ts s)[i := TAKEN],
                            inode_table := (inode_table s)[i := ino]\<rparr>)
     | (Some _, s') \<Rightarrow> Ok (0, s'\<lparr>held := held h\<rparr>))"
proof -
  note I = fs_invD [OF inv] and ii = first_free_inode [OF inv i]
  let ?c = "h\<lparr>freeinode_ts := (freeinode_ts s)[i := TAKEN], inode_table := (inode_table s)[i := ino]\<rparr>"
  have "shape ?c" "root_ok ?c" "free_slot ?c = free_slot s"
    unfolding h_def using I(1,4) ii by (simp_all add: view_simps)
  then show ?thesis
    using i b add_name [of ?c nm "int i"] ii unfolding h_def
    by (auto simp: create_effect_def put_dent_def view_simps split: option.splits)
qed

lemma create_effect_facts:
  assumes "fs_inv s" "create_effect ino nm s = (r, s')"
  shows "shape s'" "locks_init s'" "held s' = held s" "s'\<lparr>held := held s\<rparr> = s'"
proof -
  note I = fs_invD [OF assms(1)] and ii = first_free_inode [OF assms(1)]
  show sh: "shape s'"
    using assms(2) I(1,4) ii free_slot_bound
    by (auto simp: create_effect_def view_simps MAX_DIR_ENTRIES_simps split: option.splits if_splits
        intro!: shape_put_dent)
  then show "locks_init s'" by (rule shape_locks)
  show "held s' = held s"
    using assms(2) by (auto simp: create_effect_def split: option.splits if_splits)
  then show "s'\<lparr>held := held s\<rparr> = s'" by (cases s') simp
qed

lemma create_finish:
  fixes ino s
  defines "h \<equiv> s\<lparr>held := insert (Inode_rwl ROOT_DIR_INUM) (held s)\<rparr>"
  assumes inv: "fs_inv s" and i: "first_free (freeinode_ts s) = Some i" and b: "nm \<noteq> []"
    and ino: "i_size ino = 0"
  shows "bindR (add_dir_entry ROOT_DIR_INUM nm (int i)
      (h\<lparr>freeinode_ts := (freeinode_ts s)[i := TAKEN], inode_table := (inode_table s)[i := ino]\<rparr>))
     (\<lambda>(r, s). if r = -1 then bindR (inode_delete (int i) s) (\<lambda>(_, s).
                           bindR (rwl_unlock (Inode_rwl ROOT_DIR_INUM) s) (\<lambda>s. Ok (failed, s)))
               else bindR (rwl_unlock (Inode_rwl ROOT_DIR_INUM) s) (\<lambda>s. Ok (done, s))) =
    Ok (case create_effect ino nm s of (None, s') \<Rightarrow> (failed, s') | (Some _, s') \<Rightarrow> (done, s'))"
proof -
  note H = fs_inv_held [OF inv] and add = name_locked [OF inv i b, of ino, folded h_def]
  have undo: "inode_delete (int i) (h\<lparr>freeinode_ts := (freeinode_ts s)[i := TAKEN],
      inode_table := (inode_table s)[i := ino]\<rparr>) = Ok (0, h\<lparr>inode_table := (inode_table s)[i := ino]\<rparr>)"
    using undo_create [of h i ino] H(1,3) fs_invD(1) [OF inv] i ino by (simp add: h_def)
  obtain r s' where ce: "create_effect ino nm s = (r, s')" by fastforce
  note facts = create_effect_facts [OF inv ce]
  show ?thesis
  proof (cases r)
    case None
    then have "s' = s\<lparr>inode_table := (inode_table s)[i := ino]\<rparr>"
      using ce i by (auto simp: create_effect_def split: option.splits if_splits)
    with None ce add undo H show ?thesis by (simp add: tfs_simps h_def)
  next
    case (Some j)
    with ce add H facts(1,2,4) show ?thesis by (simp add: tfs_simps h_def)
  qed
qed

lemma open_create:
  assumes inv: "fs_inv s" and p: "path_ok name" "valid_pathname name" and new: "lookup s name = None"
    and cr: "has_flag mode TFS_O_CREAT"
  shows "tfs_open_body name mode s = Ok (open_effect name mode s)"
proof -
  note I = fs_invD [OF inv] and H = fs_inv_held [OF inv]
  have b: "base name \<noteq> []" using path_ok_base [OF p] by simp
  note simps = tfs_open_body_def open_effect_def inode_get_def inode_rwl_get_def some_lock_def
    tfs_simps tfs_lookup_eq create_locked [OF inv] base_def [symmetric]
  show ?thesis
  proof (cases "first_free (freeinode_ts s)")
    case None
    then show ?thesis
      using p cr new H I(1) by (simp add: simps create_effect_def)
  next
    case (Some i)
    have size: "i_size (new_inode T_FILE) = 0" by (simp add: new_inode_def)
    obtain r s' where ce: "create_effect (new_inode T_FILE) (base name) s = (r, s')" by fastforce
    have "r = None \<or> r = Some (int i)"
      using ce Some by (auto simp: create_effect_def split: option.splits if_splits)
    moreover have "add_to_open_file_table (int i) 0 s' = Ok (handle_effect (int i) 0 s')"
      using create_effect_facts [OF inv ce] H by (intro add_handle) simp_all
    ultimately show ?thesis
      using p cr new H I(1) Some ce
      by (auto simp: simps create_finish [OF inv Some b size] split: prod.split)
  qed
qed

text \<open>Opening an existing name.\<close>

lemma inode_of_table: "inode_of (s\<lparr>inode_table := t\<rparr>) i = t ! nat i"
  by (simp add: inode_of_def)

lemma link_at_path:
  assumes "link_at s b t"
  shows "cname (read_at (blk_addr s b) MAX_FILE_NAME (fs_data s)) = slash # t"
    "string_at (fs_data s) (blk_addr s b) = Ok (slash # t)"
proof -
  have t: "0 \<notin> set (slash # t)" "length t + 2 \<le> MAX_FILE_NAME"
    "read_at (blk_addr s b) (length t + 2) (fs_data s) = slash # t @ [0]"
    using assms by (auto simp: link_at_def good_name_def slash_def)
  show "string_at (fs_data s) (blk_addr s b) = Ok (slash # t)"
    using t by (intro string_at_terminated) simp_all
  have "take (length t + 2) (read_at (blk_addr s b) MAX_FILE_NAME (fs_data s)) = (slash # t) @ [0]"
    using t read_at_take [OF t(2), of "blk_addr s b" "fs_data s"] by simp
  then have "read_at (blk_addr s b) MAX_FILE_NAME (fs_data s) =
      (slash # t) @ 0 # drop (length t + 2) (read_at (blk_addr s b) MAX_FILE_NAME (fs_data s))"
    by (metis append_take_drop_id append.assoc append_Cons append_Nil)
  moreover have "cname ((slash # t) @ 0 # r) = slash # t" for r
    using t(1) unfolding cname_def by (subst takeWhile_append2) auto
  ultimately show "cname (read_at (blk_addr s b) MAX_FILE_NAME (fs_data s)) = slash # t"
    by metis
qed

lemma open_existing:
  assumes inv: "fs_inv s" and p: "path_ok name" and i: "lookup s name = Some i"
  shows "tfs_open_body name mode s = Ok (open_effect name mode s)"
proof -
  note I = fs_invD [OF inv] and H = fs_inv_held [OF inv]
  have fi: "file_inode s i" using lookup_file_inode [OF inv i] .
  note ib = file_inode_bounds [OF fi I(1)]
  have v: "valid_pathname name" using i by (simp add: lookup_def split: if_splits)
  note simps = tfs_open_body_def open_effect_def inode_get_def inode_rwl_get_def some_lock_def
    tfs_simps tfs_lookup_eq add_handle view_simps inode_of_def [symmetric]
  show ?thesis
  proof (cases "i_node_type (inode_of s i) = T_LINK")
    case True
    then obtain t where t: "link_at s (i_data_block (inode_of s i)) t"
      using I(9) fi by (auto simp: link_inv_def)
    have "valid_block_number s (i_data_block (inode_of s i))"
      using owns_block(1) [OF inv file_inode_owns [OF fi]] True by simp
    then show ?thesis
      using p v i H I(1) ib True link_at_path [OF t] t
      by (auto simp: simps link_at_def link_path_def)
  next
    case False
    then show ?thesis
      using p v i H I(1) ib owns_block(1) [OF inv file_inode_owns [OF fi]]
      by (auto simp: simps truncate_effect_def word_gt_0 Let_def inode_of_table split: prod.split)
  qed
qed


lemma tfs_open_body_eq:
  assumes inv: "fs_inv s" and p: "path_ok name"
  shows "tfs_open_body name mode s = Ok (open_effect name mode s)"
proof (cases "valid_pathname name")
  case False
  then show ?thesis by (simp add: tfs_open_body_def open_effect_def lookup_def)
next
  case v: True
  show ?thesis
  proof (cases "lookup s name")
    case (Some i)
    then show ?thesis by (rule open_existing [OF inv p])
  next
    case None
    then show ?thesis
    proof (cases "has_flag mode TFS_O_CREAT")
      case True
      with None show ?thesis using open_create [OF inv p v] by simp
    next
      case False
      with None v p fs_inv_held [OF inv] fs_invD(1) [OF inv] show ?thesis
        by (simp add: tfs_open_body_def open_effect_def inode_get_def inode_rwl_get_def some_lock_def
            tfs_simps tfs_lookup_eq)
    qed
  qed
qed

section \<open>Links\<close>

definition link_effect :: "cstring option \<Rightarrow> cstring option \<Rightarrow> fs_state \<Rightarrow> int \<times> fs_state" where
  "link_effect target name s =
     (case (lookup s target, lookup s name, free_slot s) of
        (Some i, None, Some k) \<Rightarrow>
          if valid_pathname name \<and> length (base name) < MAX_FILE_NAME \<and> i_node_type (inode_of s i) \<noteq> T_LINK
          then (0, (put_dent k (pad MAX_FILE_NAME (base name), i) s)\<lparr>inode_table := (inode_table s)[nat i :=
                     (inode_of s i)\<lparr>i_links_count := i_links_count (inode_of s i) + 1\<rparr>]\<rparr>)
          else (-1, s)
      | _ \<Rightarrow> (-1, s))"

lemma tfs_link_eq:
  assumes inv: "fs_inv s" and p: "path_ok target" "path_ok name"
  shows "tfs_link target name s = Ok (link_effect target name s)"
proof (cases "valid_pathname name \<and> lookup s target \<noteq> None \<and> lookup s name = None")
  case False
  then show ?thesis
    using p fs_inv_held [OF inv] fs_invD(1) [OF inv] lookup_not_minus1 [OF inv]
    by (cases "lookup s target"; cases "lookup s name"; cases "free_slot s")
      (auto simp: tfs_link_def link_effect_def inode_rwl_get_def some_lock_def tfs_simps tfs_lookup_eq)
next
  case True
  then obtain i where i: "lookup s target = Some i" and new: "lookup s name = None" and v: "valid_pathname name"
    by blast
  note I = fs_invD [OF inv] and H = fs_inv_held [OF inv]
  have fi: "file_inode s i" using lookup_file_inode [OF inv i] .
  note ib = file_inode_bounds [OF fi I(1)]
  have b: "base name \<noteq> []" using path_ok_base [OF p(2) v] by simp
  have add: "add_dir_entry ROOT_DIR_INUM (base name) i (s\<lparr>held := L\<rparr>) =
    (case free_slot s of
       Some k \<Rightarrow> if length (base name) < MAX_FILE_NAME
                 then Ok (0, (put_dent k (pad MAX_FILE_NAME (base name), i) s)\<lparr>held := L\<rparr>) else Ok (-1, s\<lparr>held := L\<rparr>)
     | None \<Rightarrow> Ok (-1, s\<lparr>held := L\<rparr>))" for L
    using add_name [of "s\<lparr>held := L\<rparr>" "base name" i] H b
    by (simp add: put_dent_held view_simps split: option.split)
  show ?thesis
    using p v i new H I(1) ib
    by (simp add: tfs_link_def link_effect_def inode_rwl_get_def some_lock_def
          tfs_simps tfs_lookup_eq view_simps inode_of_def [symmetric] base_def [symmetric] add
        split: option.split)
qed

definition sym_link_effect :: "cstring option \<Rightarrow> cstring option \<Rightarrow> fs_state \<Rightarrow> int \<times> fs_state" where
  "sym_link_effect target name s =
     (if \<not> valid_pathname name \<or> lookup s target = None \<or> lookup s name \<noteq> None then (-1, s)
      else case first_free (freeinode_ts s) of
        None \<Rightarrow> (-1, s)
      | Some i \<Rightarrow>
          (case first_free (free_blocks s) of
             None \<Rightarrow> (-1, s\<lparr>inode_table := (inode_table s)[i := new_inode T_LINK]\<rparr>)
           | Some b \<Rightarrow>
               (case create_effect ((new_inode T_LINK)\<lparr>i_data_block := int b\<rparr>) (base name)
                       (s\<lparr>free_blocks := (free_blocks s)[b := TAKEN],
                          fs_data := write_at (blk_addr s (int b)) (the target @ [0]) (fs_data s)\<rparr>) of
                  (None, s') \<Rightarrow> (-1, s')
                | (Some _, s') \<Rightarrow> (0, s'))))"

lemma first_free_block:
  assumes "fs_inv s" "first_free (free_blocks s) = Some b"
  shows "b < length (free_blocks s)" "valid_block_number s (int b)" "free_blocks s ! b = FREE"
    "\<And>i. \<not> owns s i (int b)" "int b \<noteq> i_data_block (root_inode s)"
proof -
  show b: "b < length (free_blocks s)" "free_blocks s ! b = FREE"
    using assms(2) by (simp_all add: first_free_Some)
  then show "valid_block_number s (int b)"
    using shape_lengths [OF fs_invD(1) [OF assms(1)]] by (simp add: valid_block_number_iff)
  show free: "\<not> owns s i (int b)" for i
    using free_block_not_owned [OF assms(1), of "int b" i] b by simp
  then show "int b \<noteq> i_data_block (root_inode s)"
    using owns_root [OF fs_invD(3) [OF assms(1)]] by metis
qed

text \<open>A lookup finds only short names, so a link to an existing file fits the buffer of \<open>tfs_open\<close>
  unless its name has the full 39 characters.\<close>

lemma lookup_base_good:
  assumes "fs_inv s" "lookup s p = Some i"
  shows "good_name (base p)" "the p = slash # base p" "valid_pathname p"
proof -
  show v: "valid_pathname p" using assms(2) by (simp add: lookup_def split: if_splits)
  then show "the p = slash # base p"
    by (cases p; cases "the p") (auto simp: valid_pathname_def base_def)
  show "good_name (base p)"
    using assms good_name_dir_map [OF fs_invD(6) [OF assms(1)]] v by (simp add: lookup_def)
qed

lemma tfs_sym_link_eq:
  assumes inv: "fs_inv s" and p: "path_ok target" "path_ok name"
  shows "tfs_sym_link target name s = Ok (sym_link_effect target name s)"
proof (cases "valid_pathname name \<and> lookup s target \<noteq> None \<and> lookup s name = None")
  case False
  then show ?thesis
    using p fs_inv_held [OF inv] fs_invD(1) [OF inv] lookup_not_minus1 [OF inv]
    by (cases "lookup s target"; cases "lookup s name")
      (auto simp: tfs_sym_link_def sym_link_effect_def inode_rwl_get_def some_lock_def tfs_simps tfs_lookup_eq)
next
  case True
  then obtain j where j: "lookup s target = Some j" and new: "lookup s name = None" and v: "valid_pathname name"
    by blast
  note I = fs_invD [OF inv] and H = fs_inv_held [OF inv] and j1 = lookup_not_minus1 [OF inv j]
  have b: "base name \<noteq> []" using path_ok_base [OF p(2) v] by simp
  note simps = tfs_sym_link_def sym_link_effect_def inode_rwl_get_def some_lock_def tfs_simps
    tfs_lookup_eq create_locked [OF inv]
  let ?h = "s\<lparr>held := insert (Inode_rwl ROOT_DIR_INUM) (held s)\<rparr>"
  show ?thesis
  proof (cases "first_free (freeinode_ts s)")
    case None
    then show ?thesis using p v j new H I(1) j1 by (simp add: simps)
  next
    case i: (Some i)
    have undo: "inode_delete (int i) (?h\<lparr>freeinode_ts := (freeinode_ts s)[i := TAKEN],
        inode_table := (inode_table s)[i := new_inode T_LINK]\<rparr>) =
      Ok (0, ?h\<lparr>inode_table := (inode_table s)[i := new_inode T_LINK]\<rparr>)"
      using undo_create [of ?h i "new_inode T_LINK"] I(1) H i by (simp add: new_inode_def)
    show ?thesis
    proof (cases "first_free (free_blocks s)")
      case None
      then show ?thesis
        using p v j new H I(1) j1 i undo by (simp add: simps)
    next
      case bk: (Some bk)
      note bb = first_free_block [OF inv bk]
      let ?ino = "(new_inode T_LINK)\<lparr>i_data_block := int bk\<rparr>"
      have len: "0 + length (the target @ [0]) \<le> unat (BLOCK_SIZE s)"
        using lookup_base_good [OF inv j] I(1) by (simp add: good_name_def shape_def params_ok_def)
      define s1 where "s1 = s\<lparr>free_blocks := (free_blocks s)[bk := TAKEN],
        fs_data := write_at (blk_addr s (int bk)) (the target @ [0]) (fs_data s)\<rparr>"
      have inv1: "fs_inv s1"
        using inv_unowned_block [OF inv bb(2,4) len] by (simp add: s1_def)
      have i1: "first_free (freeinode_ts s1) = Some i" using i by (simp add: s1_def)
      have size: "i_size ?ino = 0" by (simp add: new_inode_def)
      have st: "?h\<lparr>freeinode_ts := (freeinode_ts s)[i := TAKEN], free_blocks := (free_blocks s)[bk := TAKEN],
          fs_data := write_at (blk_addr s (int bk)) (the target @ [0]) (fs_data s),
          inode_table := (inode_table s)[i := ?ino]\<rparr> =
        s1\<lparr>held := insert (Inode_rwl ROOT_DIR_INUM) (held s1), freeinode_ts := (freeinode_ts s1)[i := TAKEN],
          inode_table := (inode_table s1)[i := ?ino]\<rparr>"
        by (simp add: s1_def)
      show ?thesis
        using p v j new H I(1) j1 i bk bb len blk_in_data [OF I(1) bb(2)] first_free_inode [OF inv i]
        by (simp add: simps view_simps base_def [symmetric] s1_def [symmetric] st
            create_finish [OF inv1 i1 b size])
    qed
  qed
qed

definition unlink_effect :: "cstring option \<Rightarrow> fs_state \<Rightarrow> int \<times> fs_state" where
  "unlink_effect target s =
     (case lookup s target of
        None \<Rightarrow> (-1, s)
      | Some i \<Rightarrow>
          if i_node_type (inode_of s i) \<noteq> T_LINK \<and> opened s i then (-1, s)
          else case find (\<lambda>k. live (dents s ! k) \<and> ename (dents s ! k) = base target)
                      [0..<MAX_DIR_ENTRIES s] of
            None \<Rightarrow> (-1, s)
          | Some k \<Rightarrow>
              (0, if i_links_count (inode_of s i) = 1
                  then (put_dent k (replicate MAX_FILE_NAME 0, -1) s)\<lparr>
                    free_blocks := (if i_size (inode_of s i) > 0
                      then (free_blocks s)[nat (i_data_block (inode_of s i)) := FREE] else free_blocks s),
                    freeinode_ts := (freeinode_ts s)[nat i := FREE]\<rparr>
                  else (put_dent k (replicate MAX_FILE_NAME 0, -1) s)\<lparr>inode_table := (inode_table s)[nat i :=
                    (inode_of s i)\<lparr>i_links_count := i_links_count (inode_of s i) - 1\<rparr>]\<rparr>))"

lemma clear_slot:
  assumes "dir_map (dents s) nm = Some i"
  obtains k where "find (\<lambda>k. live (dents s ! k) \<and> ename (dents s ! k) = nm) [0..<MAX_DIR_ENTRIES s] = Some k"
    "k < MAX_DIR_ENTRIES s" "dir_clear nm (dents s) = Some ((dents s)[k := (replicate MAX_FILE_NAME 0, -1)])"
proof -
  have "dir_clear nm (dents s) \<noteq> None" using assms by (simp add: dir_clear_None)
  then show thesis
    using that by (auto simp: dir_clear_def find_upt_Some split: option.splits)
qed

lemma clear_locked:
  assumes inv: "fs_inv s" and nm: "dir_map (dents s) nm = Some i"
    and k: "find (\<lambda>k. live (dents s ! k) \<and> ename (dents s ! k) = nm) [0..<MAX_DIR_ENTRIES s] = Some k"
  shows "clear_dir_entry ROOT_DIR_INUM nm (s\<lparr>held := L\<rparr>) =
    Ok (0, (put_dent k (replicate MAX_FILE_NAME 0, -1) s)\<lparr>held := L\<rparr>)"
proof -
  note H = fs_inv_held [OF inv]
  obtain j where j: "j < MAX_DIR_ENTRIES s"
    "dir_clear nm (dents s) = Some ((dents s)[j := (replicate MAX_FILE_NAME 0, -1)])"
    "clear_dir_entry ROOT_DIR_INUM nm (s\<lparr>held := L\<rparr>) =
      Ok (0, (put_dent j (replicate MAX_FILE_NAME 0, -1) s)\<lparr>held := L\<rparr>)"
    using clear_dir_entry_eq [OF H(3,4,5), of L nm] nm by (auto simp: view_simps put_dent_held)
  have "live (dents s ! k)" "k < MAX_DIR_ENTRIES s"
    using k by (auto simp: find_upt_Some)
  moreover have "(dents s)[j := (replicate MAX_FILE_NAME 0, -1)] ! k =
      (dents s)[k := (replicate MAX_FILE_NAME 0, -1)] ! k"
    using j(2) k by (simp add: dir_clear_def)
  ultimately have "j = k" by (auto simp: nth_upd split: if_splits)
  with j(3) show ?thesis by simp
qed

lemma opened_held: "opened (s\<lparr>held := L\<rparr>) i = opened s i"
  by (simp add: opened_def)

lemma tfs_unlink_eq:
  assumes inv: "fs_inv s" and p: "path_ok target"
  shows "tfs_unlink target s = Ok (unlink_effect target s)"
proof (cases "lookup s target")
  case None
  then show ?thesis
    using p fs_inv_held [OF inv] fs_invD(1) [OF inv]
    by (simp add: tfs_unlink_def unlink_effect_def inode_rwl_get_def some_lock_def tfs_simps tfs_lookup_eq)
next
  case (Some i)
  note I = fs_invD [OF inv] and H = fs_inv_held [OF inv]
  have fi: "file_inode s i" using lookup_file_inode [OF inv Some] .
  note ib = file_inode_bounds [OF fi I(1)]
  have nm: "dir_map (dents s) (base target) = Some i"
    using Some by (simp add: lookup_def split: if_splits)
  obtain k where k: "find (\<lambda>k. live (dents s ! k) \<and> ename (dents s ! k) = base target)
      [0..<MAX_DIR_ENTRIES s] = Some k" "k < MAX_DIR_ENTRIES s"
    using nm by (rule clear_slot)
  let ?u = "put_dent k (replicate MAX_FILE_NAME 0, -1) s"
  have u: "shape ?u" using I(1,4) k(2) by simp
  have blk: "valid_block_number s (i_data_block (inode_of s i))" if "i_size (inode_of s i) \<noteq> 0"
    using that owns_block(1) [OF inv file_inode_owns [OF fi]] by simp
  have del: "inode_delete i (?u\<lparr>held := L\<rparr>) = Ok (0, ?u\<lparr>held := L,
      free_blocks := (if i_size (inode_of s i) > 0
        then (free_blocks s)[nat (i_data_block (inode_of s i)) := FREE] else free_blocks s),
      freeinode_ts := (freeinode_ts s)[nat i := FREE]\<rparr>)"
    if "Inode_table_rwl \<notin> L" "Free_blocks_rwl \<notin> L" for L
    using that u ib blk
    by (subst inode_delete_eq) (auto simp: view_simps inode_of_def word_gt_0)
  show ?thesis
    using p Some H I(1) ib k(1) u
    apply (simp add: tfs_unlink_def unlink_effect_def inode_rwl_get_def some_lock_def
          tfs_simps tfs_lookup_eq view_simps inode_of_def [symmetric] base_def [symmetric]
          is_in_open_file_table_eq opened_held clear_locked [OF inv nm k(1)] del)
    done
qed

section \<open>Reading and writing\<close>

definition write_count :: "fs_state \<Rightarrow> int \<Rightarrow> nat \<Rightarrow> nat" where
  "write_count s fd n = min n (unat (BLOCK_SIZE s) - unat (of_offset (open_file_table s ! nat fd)))"

definition write_block :: "fs_state \<Rightarrow> int \<Rightarrow> int option" where
  "write_block s i =
     (if i_size (inode_of s i) = 0 then map_option int (first_free (free_blocks s))
      else Some (i_data_block (inode_of s i)))"

definition write_effect :: "int \<Rightarrow> byte list \<Rightarrow> nat \<Rightarrow> fs_state \<Rightarrow> int \<times> fs_state" where
  "write_effect fd buffer n s =
     (if \<not> is_handle s fd then (-1, s)
      else
       let e = open_file_table s ! nat fd; i = of_inumber e; c = write_count s fd n;
           off' = of_offset e + of_nat c in
       if c = 0 then (0, s)
       else case write_block s i of
         None \<Rightarrow> (-1, s)
       | Some b \<Rightarrow>
           (int c,
            s\<lparr>free_blocks := (free_blocks s)[nat b := TAKEN],
              fs_data := write_at (blk_addr s b + unat (of_offset e)) (take c buffer) (fs_data s),
              inode_table := (inode_table s)[nat i :=
                (inode_of s i)\<lparr>i_size := max (i_size (inode_of s i)) off', i_data_block := b\<rparr>],
              open_file_table := (open_file_table s)[nat fd := e\<lparr>of_offset := off'\<rparr>]\<rparr>))"

definition read_count :: "fs_state \<Rightarrow> int \<Rightarrow> nat \<Rightarrow> nat" where
  "read_count s fd len =
     (let e = open_file_table s ! nat fd in
      min len (unat (i_size (inode_of s (of_inumber e))) - unat (of_offset e)))"

definition read_effect :: "int \<Rightarrow> nat \<Rightarrow> fs_state \<Rightarrow> int \<times> byte list \<times> fs_state" where
  "read_effect fd len s =
     (if \<not> is_handle s fd then (-1, [], s)
      else
       let e = open_file_table s ! nat fd; c = read_count s fd len in
       (int c,
        read_at (blk_addr s (i_data_block (inode_of s (of_inumber e))) + unat (of_offset e)) c (fs_data s),
        s\<lparr>open_file_table := (open_file_table s)[nat fd := e\<lparr>of_offset := of_offset e + of_nat c\<rparr>]\<rparr>))"

text \<open>The handle stands inside its file, which a truncation through another handle can break.\<close>

definition in_file :: "fs_state \<Rightarrow> int \<Rightarrow> bool" where
  "in_file s fd \<longleftrightarrow>
     (let e = open_file_table s ! nat fd in of_offset e \<le> i_size (inode_of s (of_inumber e)))"

lemma handle_facts:
  assumes inv: "fs_inv s" and h: "is_handle s fd"
  defines "e \<equiv> open_file_table s ! nat fd"
  shows "0 \<le> fd" "nat fd < length (open_file_table s)" "file_inode s (of_inumber e)"
    "i_node_type (inode_of s (of_inumber e)) = T_FILE" "of_offset e \<le> BLOCK_SIZE s"
    "i_size (inode_of s (of_inumber e)) \<le> BLOCK_SIZE s" "unat (BLOCK_SIZE s) < 2 ^ 32"
    "handle s (nat fd)"
proof -
  have hw: "handle_wf s e"
    using fs_invD(10) [OF inv] h by (simp add: open_inv_def is_handle_def e_def)
  then show f: "file_inode s (of_inumber e)" "i_node_type (inode_of s (of_inumber e)) = T_FILE"
    "of_offset e \<le> BLOCK_SIZE s" by (auto simp: handle_wf_def)
  show "i_size (inode_of s (of_inumber e)) \<le> BLOCK_SIZE s"
    using fs_invD(7) [OF inv] f(1) by (simp add: inode_inv_def inode_wf_def)
  show "0 \<le> fd" "nat fd < length (open_file_table s)" "handle s (nat fd)"
    using h shape_lengths [OF fs_invD(1) [OF inv]] by (auto simp: is_handle_def handle_def)
  show "unat (BLOCK_SIZE s) < 2 ^ 32" using fs_invD(1) [OF inv] by (simp add: shape_def params_ok_def)
qed

text \<open>The clamped count of \<open>tfs_write\<close> and \<open>tfs_read\<close>, computed in \<open>size_t\<close>.\<close>

definition clamp_write :: "size_t \<Rightarrow> size_t \<Rightarrow> size_t \<Rightarrow> size_t" where
  "clamp_write n off bs = (if n + off > bs then bs - off else n)"

definition clamp_read :: "size_t \<Rightarrow> size_t \<Rightarrow> size_t" where
  "clamp_read left len = (if left > len then len else left)"

lemma unat_clamp_write:
  assumes "unat n < 2 ^ 63" "off \<le> bs" "unat bs < 2 ^ 32"
  shows "unat (clamp_write n off bs) = min (unat n) (unat bs - unat off)"
proof -
  have o: "unat off \<le> unat bs" using assms(2) by (simp add: word_le_nat_alt)
  then have "unat n + unat off < 2 ^ 64" using assms by simp
  then have "unat (n + off) = unat n + unat off" by (simp add: unat_word_ariths)
  moreover have "unat (bs - off) = unat bs - unat off" using assms(2) by (rule unat_sub)
  ultimately show ?thesis by (auto simp: clamp_write_def word_less_nat_alt min_def)
qed

lemma unat_clamp_read: "off \<le> sz \<Longrightarrow> unat (clamp_read (sz - off) len) = min (unat len) (unat sz - unat off)"
  by (auto simp: clamp_read_def word_less_nat_alt min_def unat_sub)

lemma sint_small:
  assumes "unat (w :: size_t) < 2 ^ 63"
  shows "sint w = int (unat w)"
proof -
  have u: "uint w = int (unat w)" by (rule uint_nat)
  have "uint w < 2 ^ 63" using assms unfolding u by (metis of_nat_less_iff of_nat_numeral of_nat_power)
  moreover have "- (2 ^ 63) \<le> uint w" using uint_ge_0 [of w] by (rule order_trans [rotated]) simp
  ultimately have "signed_take_bit 63 (uint w) = uint w"
    by (rule signed_take_bit_int_eq_self [rotated])
  with u show ?thesis by (simp add: sint_uint)
qed

lemma write_block_facts:
  assumes inv: "fs_inv s" and i: "file_inode s i" and b: "write_block s i = Some b"
  shows "valid_block_number s b" "\<And>j. owns s j b \<Longrightarrow> j = i"
    "i_size (inode_of s i) \<noteq> 0 \<Longrightarrow>
      i_data_block (inode_of s i) = b \<and> (free_blocks s)[nat b := TAKEN] = free_blocks s"
proof (atomize (full), cases "i_size (inode_of s i) = 0")
  case True
  then obtain k where "first_free (free_blocks s) = Some k" "b = int k"
    using b by (auto simp: write_block_def)
  with first_free_block [OF inv] True
  show "valid_block_number s b \<and> (\<forall>j. owns s j b \<longrightarrow> j = i) \<and> (i_size (inode_of s i) \<noteq> 0 \<longrightarrow>
      i_data_block (inode_of s i) = b \<and> (free_blocks s)[nat b := TAKEN] = free_blocks s)" by auto
next
  case False
  then have own: "owns s i b" and bd: "i_data_block (inode_of s i) = b"
    using i b by (auto simp: write_block_def owns_def)
  then show "valid_block_number s b \<and> (\<forall>j. owns s j b \<longrightarrow> j = i) \<and> (i_size (inode_of s i) \<noteq> 0 \<longrightarrow>
      i_data_block (inode_of s i) = b \<and> (free_blocks s)[nat b := TAKEN] = free_blocks s)"
    using owns_block [OF inv own] owns_unique [OF inv own] by (metis list_update_id)
qed

lemma grow_inode:
  "i_data_block ino = b \<Longrightarrow> ino\<lparr>i_size := max (i_size ino) x, i_data_block := b\<rparr> =
     (if x > i_size ino then ino\<lparr>i_size := x\<rparr> else ino)"
  "ino\<lparr>i_data_block := b, i_size := x\<rparr> = ino\<lparr>i_size := x, i_data_block := b\<rparr>"
  by (cases ino, auto simp: max_def)+

lemma tfs_write_eq:
  assumes inv: "fs_inv s" and n: "unat n \<le> length buffer" "unat n < 2 ^ 63"
  shows "tfs_write fd buffer n s = Ok (write_effect fd buffer (unat n) s)"
proof (cases "is_handle s fd")
  case False
  then show ?thesis by (simp add: tfs_write_def write_effect_def get_entry [OF inv])
next
  case True
  note I = fs_invD [OF inv] and H = fs_inv_held [OF inv] and hf = handle_facts [OF inv True]
  define e where "e = open_file_table s ! nat fd"
  define c where "c = clamp_write n (of_offset e) (BLOCK_SIZE s)"
  note ib = file_inode_bounds [OF hf(3) I(1), folded e_def]
  have c: "unat c = write_count s fd (unat n)"
    unfolding c_def e_def write_count_def by (rule unat_clamp_write [OF n(2) hf(5,7)])
  then have cn: "unat c \<le> unat n" by (simp add: write_count_def)
  have sc: "sint c = int (unat c)" using cn n(2) by (intro sint_small) simp
  have fits: "unat (of_offset e) + unat c \<le> unat (BLOCK_SIZE s)"
    using hf(5) by (simp add: c write_count_def e_def word_le_nat_alt)
  note simps = tfs_write_def [folded clamp_write_def] write_effect_def get_entry [OF inv] tfs_simps inode_rwl_get_def some_lock_def
    view_simps inode_of_def [symmetric] e_def [symmetric] state_block_size_def c_def [symmetric] Let_def word_gt_0
  show ?thesis
  proof (cases "c = 0")
    case True
    then show ?thesis
      using \<open>is_handle s fd\<close> H I(1) hf(1,2) ib c [symmetric] sc by (simp add: simps)
  next
    case c0: False
    then have uc: "unat c \<noteq> 0" by (simp add: unat_eq_0)
    have oc: "of_nat (unat c) = c" by simp
    have pos: "of_offset e + c \<noteq> 0" 
      using fits uc hf(7) by (simp add: unat_eq_0 [symmetric] unat_word_ariths)
    have tk: "read_at 0 (unat c) buffer = take (unat c) buffer" by (simp add: read_at_def)
    show ?thesis
    proof (cases "write_block s (of_inumber e)")
      case None
      then have "i_size (inode_of s (of_inumber e)) = 0" "first_free (free_blocks s) = None"
        by (auto simp: write_block_def split: if_splits)
      then show ?thesis
        using \<open>is_handle s fd\<close> H I(1) hf(1,2) ib c [symmetric] c0 uc None by (simp add: simps)
    next
      case (Some b)
      note wb = write_block_facts [OF inv hf(3) [folded e_def] Some]
      note facts = \<open>is_handle s fd\<close> H I(1) hf(1,2) ib c [symmetric] c0 uc Some wb(1)
        blk_in_data [OF I(1) wb(1)] fits cn n sc
      show ?thesis
      proof (cases "i_size (inode_of s (of_inumber e)) = 0")
        case True
        then obtain k where "first_free (free_blocks s) = Some k" "b = int k"
          using Some by (auto simp: write_block_def)
        with facts True pos show ?thesis by (simp add: simps oc tk grow_inode(2))
      next
        case False
        with facts wb(3) show ?thesis by (simp add: simps oc tk grow_inode(1))
      qed
    qed
  qed
qed

lemma tfs_read_eq:
  assumes inv: "fs_inv s" and inf: "is_handle s fd \<Longrightarrow> in_file s fd"
  shows "tfs_read fd len s = Ok (read_effect fd (unat len) s)"
proof (cases "is_handle s fd")
  case False
  then show ?thesis by (simp add: tfs_read_def read_effect_def get_entry [OF inv])
next
  case True
  note I = fs_invD [OF inv] and H = fs_inv_held [OF inv] and hf = handle_facts [OF inv True]
  define e where "e = open_file_table s ! nat fd"
  define ino where "ino = inode_of s (of_inumber e)"
  define c where "c = clamp_read (i_size ino - of_offset e) len"
  note ib = file_inode_bounds [OF hf(3) I(1), folded e_def]
  have off: "of_offset e \<le> i_size ino"
    using inf True by (simp add: in_file_def Let_def e_def ino_def)
  have c: "unat c = read_count s fd (unat len)"
    using unat_clamp_read [OF off] by (simp add: c_def read_count_def e_def ino_def Let_def)
  have fits: "unat (of_offset e) + unat c \<le> unat (i_size ino)" "unat (i_size ino) \<le> unat (BLOCK_SIZE s)"
    using off hf(6) unat_clamp_read [OF off, of len]
    unfolding c_def word_le_nat_alt ino_def e_def by linarith+
  have sc: "sint c = int (unat c)" using fits hf(7) by (intro sint_small) simp
  have oc: "of_nat (unat c) = c" by simp
  have same: "(open_file_table s)[nat fd := e] = open_file_table s" by (simp add: e_def)
  note simps = tfs_read_def [folded clamp_read_def] read_effect_def get_entry [OF inv] tfs_simps
    inode_rwl_get_def some_lock_def view_simps inode_of_def [symmetric] e_def [symmetric] ino_def [symmetric]
    c_def [symmetric] Let_def word_gt_0
  note facts = True H I(1) hf(1,2) ib c [symmetric] sc
  show ?thesis
  proof (cases "c = 0")
    case True
    with facts show ?thesis by (simp add: simps same)
  next
    case False
    then have "i_size ino \<noteq> 0" using fits by (auto simp: unat_eq_0 [symmetric])
    then have "valid_block_number s (i_data_block ino)"
      using owns_block(1) [OF inv file_inode_owns [OF hf(3)]] by (simp add: ino_def e_def)
    with facts False fits blk_in_data [OF I(1) this] show ?thesis by (simp add: simps oc)
  qed
qed

section \<open>Interfaces the state layer provides\<close>

text \<open>The root directory, for names without NUL that fit an entry.\<close>

definition dir_wf :: "fs_state \<Rightarrow> bool" where
  "dir_wf s \<longleftrightarrow> shape s \<and> root_ok s \<and> wf_dir (dents s)"

lemma add_entry_dir:
  assumes s: "dir_wf s" and nm: "good_name nm" "dir_map (dents s) nm = None" and i: "int32_range i" "i \<noteq> -1"
    and k: "free_slot s = Some k"
  shows "add_dir_entry ROOT_DIR_INUM nm i s = Ok (0, put_dent k (pad MAX_FILE_NAME nm, i) s)"
    "dir_wf (put_dent k (pad MAX_FILE_NAME nm, i) s)"
    "dir_map (dents (put_dent k (pad MAX_FILE_NAME nm, i) s)) = (dir_map (dents s))(nm \<mapsto> i)"
proof -
  have d: "shape s" "root_ok s" "wf_dir (dents s)" using s by (auto simp: dir_wf_def)
  have kb: "k < MAX_DIR_ENTRIES s" "length (fst (pad MAX_FILE_NAME nm, i)) = MAX_FILE_NAME"
    using free_slot_bound [OF k] nm(1) by (simp_all add: good_name_def)
  have dt: "dir_add nm i (dents s) = Some (dents (put_dent k (pad MAX_FILE_NAME nm, i) s))"
    using dir_add_slot [OF k] dents_put_dent [OF d(1,2) kb] i by simp
  show "add_dir_entry ROOT_DIR_INUM nm i s = Ok (0, put_dent k (pad MAX_FILE_NAME nm, i) s)"
    using add_name [OF d(1,2), of nm i] nm(1) k by (simp add: good_name_def)
  show "dir_wf (put_dent k (pad MAX_FILE_NAME nm, i) s)"
    using d kb wf_dir_add [OF d(3) nm(1) i(2) nm(2) dt] by (simp add: dir_wf_def put_dent_views)
  show "dir_map (dents (put_dent k (pad MAX_FILE_NAME nm, i) s)) = (dir_map (dents s))(nm \<mapsto> i)"
    using dir_map_add [OF nm(1) i(2) nm(2) dt] .
qed

lemma clear_entry_dir:
  assumes s: "dir_wf s" and nm: "dir_map (dents s) nm = Some i"
  obtains s' where "clear_dir_entry ROOT_DIR_INUM nm s = Ok (0, s')" "dir_wf s'" "free_slot s' \<noteq> None"
    "dir_map (dents s') = (dir_map (dents s))(nm := None)"
proof -
  have d: "shape s" "root_ok s" "wf_dir (dents s)" using s by (auto simp: dir_wf_def)
  obtain k where k: "k < MAX_DIR_ENTRIES s"
    "dir_clear nm (dents s) = Some ((dents s)[k := (replicate MAX_FILE_NAME 0, -1)])"
    "clear_dir_entry ROOT_DIR_INUM nm s = Ok (0, put_dent k (replicate MAX_FILE_NAME 0, -1) s)"
    using clear_dir_entry_eq [OF d, of nm] nm by auto
  let ?u = "put_dent k (replicate MAX_FILE_NAME 0, -1) s"
  have du: "dents ?u = (dents s)[k := (replicate MAX_FILE_NAME 0, -1)]" "MAX_DIR_ENTRIES ?u = MAX_DIR_ENTRIES s"
    using dents_put_dent [OF d(1,2) k(1)] by (simp_all add: int32_range_def MAX_DIR_ENTRIES_def)
  have "\<not> live (dents ?u ! k)" using du k(1) by simp
  then have "free_slot ?u \<noteq> None"
    using du(2) k(1) unfolding free_slot_def by (metis find_upt_None)
  moreover have "dir_wf ?u"
    using d k wf_dir_clear [OF d(3) k(2)] du by (simp add: dir_wf_def put_dent_views)
  ultimately show thesis
    using that k(3) dir_map_clear [OF d(3) k(2)] du by simp
qed

interpretation root_dir: directory dir_wf "\<lambda>s. dir_map (dents s)" "\<lambda>s. free_slot s \<noteq> None" good_name
  "\<lambda>i. int32_range i \<and> i \<noteq> -1" "find_in_dir ROOT_DIR_INUM" "add_dir_entry ROOT_DIR_INUM"
  "clear_dir_entry ROOT_DIR_INUM"
proof
  fix s nm i
  assume "dir_wf s"
  then have d: "shape s" "root_ok s" "wf_dir (dents s)" by (auto simp: dir_wf_def)
  show "find_in_dir ROOT_DIR_INUM nm s = Ok (case dir_map (dents s) nm of None \<Rightarrow> -1 | Some i \<Rightarrow> i)"
    if "good_name nm" using find_in_dir_eq [OF d] that by (simp add: good_name_def)
  show "good_name nm \<and> i \<noteq> -1" if "dir_map (dents s) nm = Some i"
    using that good_name_dir_map [OF d(3)] dir_map_not_minus1 by blast
  show "add_dir_entry ROOT_DIR_INUM nm i s = Ok (-1, s)" if "good_name nm" "\<not> free_slot s \<noteq> None"
    using add_name [OF d(1,2), of nm i] that by (simp add: good_name_def)
qed (auto dest: add_entry_dir elim: clear_entry_dir)

text \<open>The three allocation tables, in a state that holds no lock.\<close>

definition idle :: "fs_state \<Rightarrow> bool" where
  "idle s \<longleftrightarrow> shape s \<and> held s = {}"

lemma first_taken_free:
  "k < length xs \<Longrightarrow> xs ! k \<noteq> TAKEN \<Longrightarrow> \<forall>j<k. xs ! j = TAKEN \<Longrightarrow> first_free xs = Some k"
  by (cases "xs ! k") (auto simp: first_free_Some)

interpretation block_table: slot_table idle "\<lambda>s. length (free_blocks s)" "\<lambda>s k. free_blocks s ! k = TAKEN"
  data_block_alloc data_block_free
proof
  fix s k
  assume s: "idle s"
  show "data_block_alloc s = Ok (-1, s)" if "\<forall>k<length (free_blocks s). free_blocks s ! k = TAKEN"
    using s that by (simp add: idle_def data_block_alloc_eq first_free_None [THEN iffD2])
  assume k: "k < length (free_blocks s)"
  show "\<exists>s'. data_block_alloc s = Ok (int k, s') \<and> idle s' \<and> length (free_blocks s') = length (free_blocks s) \<and>
      (\<forall>j<length (free_blocks s). (free_blocks s' ! j = TAKEN) = (free_blocks s ! j = TAKEN \<or> j = k))"
    if "free_blocks s ! k \<noteq> TAKEN" "\<forall>j<k. free_blocks s ! j = TAKEN"
    using s k first_taken_free [OF k that] by (auto simp: idle_def data_block_alloc_eq nth_upd)
  show "\<exists>s'. data_block_free (int k) s = Ok (0, s') \<and> idle s' \<and> length (free_blocks s') = length (free_blocks s) \<and>
      (\<forall>j<length (free_blocks s). (free_blocks s' ! j = TAKEN) = (free_blocks s ! j = TAKEN \<and> j \<noteq> k))"
    using s k shape_lengths(3) [of s]
    by (auto simp: idle_def data_block_free_eq valid_block_number_iff nth_upd)
qed

interpretation open_table: slot_table idle "\<lambda>s. length (free_open_file_entries s)"
  "\<lambda>s k. free_open_file_entries s ! k = TAKEN" "add_to_open_file_table i off" remove_from_open_file_table
proof
  fix s k
  assume s: "idle s"
  then have add: "add_to_open_file_table i off s = Ok (handle_effect i off s)"
    by (intro add_handle) (auto simp: idle_def)
  show "add_to_open_file_table i off s = Ok (-1, s)"
    if "\<forall>k<length (free_open_file_entries s). free_open_file_entries s ! k = TAKEN"
    using add that by (simp add: handle_effect_def first_free_None [THEN iffD2])
  assume k: "k < length (free_open_file_entries s)"
  show "\<exists>s'. add_to_open_file_table i off s = Ok (int k, s') \<and> idle s' \<and>
      length (free_open_file_entries s') = length (free_open_file_entries s) \<and>
      (\<forall>j<length (free_open_file_entries s).
        (free_open_file_entries s' ! j = TAKEN) = (free_open_file_entries s ! j = TAKEN \<or> j = k))"
    if "free_open_file_entries s ! k \<noteq> TAKEN" "\<forall>j<k. free_open_file_entries s ! j = TAKEN"
    using s add k first_taken_free [OF k that] by (auto simp: idle_def handle_effect_def nth_upd)
  show "\<exists>s'. remove_from_open_file_table (int k) s = Ok (0, s') \<and> idle s' \<and>
      length (free_open_file_entries s') = length (free_open_file_entries s) \<and>
      (\<forall>j<length (free_open_file_entries s).
        (free_open_file_entries s' ! j = TAKEN) = (free_open_file_entries s ! j = TAKEN \<and> j \<noteq> k))"
    if "free_open_file_entries s ! k = TAKEN"
    using s k that shape_lengths(6) [of s]
    by (auto simp: idle_def remove_from_open_file_table_eq valid_file_handle_iff nth_upd)
qed

end
