(* ===== verification/FS_Preserve.thy ===== *)
theory FS_Preserve
  imports FS_Effects
begin

text \<open>
  Every operation keeps the invariant of \<open>FS_Invariant\<close>, and \<open>tfs_init\<close> establishes it
  whatever the allocated memory holds.
\<close>

section \<open>Effects\<close>

lemma unat_of_nat_size_t: "n < 2 ^ 64 \<Longrightarrow> unat (of_nat n :: size_t) = n"
  by (simp add: unat_of_nat take_bit_nat_eq_self)

lemma close_inv: "fs_inv s \<Longrightarrow> fs_inv (snd (close_effect fd s))"
  by (simp add: close_effect_def inv_close_entry)

lemma handle_inv:
  assumes inv: "fs_inv s" and i: "file_inode s i" "i_node_type (inode_of s i) = T_FILE" "off \<le> BLOCK_SIZE s"
  shows "fs_inv (snd (handle_effect i off s))"
proof -
  have "handle_wf s \<lparr>of_inumber = i, of_offset = off\<rparr>" using i by (simp add: handle_wf_def)
  from inv_open_entry [OF inv this] inv show ?thesis
    by (simp add: handle_effect_def split: option.split)
qed

lemma create_inv:
  assumes inv: "fs_inv s" and nm: "nm \<noteq> []" "0 \<notin> set nm" "dir_map (dents s) nm = None"
    and ino: "i_node_type ino \<noteq> T_DIRECTORY" "i_links_count ino = 1" "i_size ino = 0"
    and lnk: "i_node_type ino = T_LINK \<Longrightarrow> valid_block_number s (i_data_block ino) \<and>
      free_blocks s ! nat (i_data_block ino) = TAKEN \<and> (\<forall>j. \<not> owns s j (i_data_block ino)) \<and>
      (\<exists>t. link_at s (i_data_block ino) t)"
  shows "fs_inv (snd (create_effect ino nm s))"
proof (cases "first_free (freeinode_ts s)")
  case None
  with inv show ?thesis by (simp add: create_effect_def)
next
  case (Some i)
  note ii = first_free_inode [OF inv Some]
  have dead: "fs_inv (s\<lparr>inode_table := (inode_table s)[i := ino]\<rparr>)"
    using inv_dead_inode [OF inv ii(2,4)] .
  have "fs_inv (put_dent k (pad MAX_FILE_NAME nm, int i)
      (s\<lparr>freeinode_ts := (freeinode_ts s)[i := TAKEN], inode_table := (inode_table s)[i := ino]\<rparr>))"
    if "free_slot s = Some k" "length nm < MAX_FILE_NAME" for k
    using that nm inv_new_entry [OF inv Some that(1) _ nm(3) ino lnk] by (simp add: good_name_def)
  with dead Some show ?thesis by (simp add: create_effect_def split: option.split)
qed

lemma created_file:
  assumes inv: "fs_inv s" and ce: "create_effect (new_inode T_FILE) nm s = (Some i, s')"
  shows "file_inode s' i" "inode_of s' i = new_inode T_FILE" "fs_params s' = fs_params s"
  using assms first_free_inode [OF inv]
  by (auto simp: create_effect_def view_simps file_inode_def inode_of_def split: option.splits if_splits)

lemma truncate_inv:
  assumes "fs_inv s" "file_inode s i" "i_node_type (inode_of s i) = T_FILE"
  shows "fs_inv (truncate_effect i s)"
  using assms inv_truncate [OF assms] by (simp add: truncate_effect_def)

lemma truncate_views:
  assumes "shape s" "file_inode s i"
  shows "file_inode (truncate_effect i s) j = file_inode s j"
    "i_node_type (inode_of (truncate_effect i s) i) = i_node_type (inode_of s i)"
    "i_size (inode_of (truncate_effect i s) i) = 0" "fs_params (truncate_effect i s) = fs_params s"
  using file_inode_bounds [OF assms(2,1)]
  by (auto simp: truncate_effect_def view_simps inode_of_table)

lemma open_inv_effect:
  assumes inv: "fs_inv s" and p: "path_ok name"
  shows "fs_inv (snd (open_effect name mode s))"
proof (cases "lookup s name")
  case None
  show ?thesis
  proof (cases "valid_pathname name \<and> has_flag mode TFS_O_CREAT")
    case True
    obtain r s' where ce: "create_effect (new_inode T_FILE) (base name) s = (r, s')" by fastforce
    have "dir_map (dents s) (base name) = None" using None True by (simp add: lookup_def)
    then have inv': "fs_inv s'"
      using create_inv [OF inv, of "base name" "new_inode T_FILE"] path_ok_base [OF p] True ce
      by (simp add: new_inode_def)
    have "fs_inv (snd (handle_effect i 0 s'))" if "r = Some i" for i
      using created_file [OF inv ce [unfolded that]] handle_inv [OF inv'] by (simp add: new_inode_def)
    with None True ce inv' show ?thesis by (simp add: open_effect_def split: option.split)
  qed (use None inv in \<open>auto simp: open_effect_def\<close>)
next
  case (Some i)
  have fi: "file_inode s i" using lookup_file_inode [OF inv Some] .
  have wf: "inode_wf s i" using fs_invD(7) [OF inv] fi by (simp add: inode_inv_def)
  show ?thesis
  proof (cases "i_node_type (inode_of s i) = T_LINK")
    case False
    then have ty: "i_node_type (inode_of s i) = T_FILE"
      using wf by (cases "i_node_type (inode_of s i)") (auto simp: inode_wf_def)
    let ?s = "if has_flag mode TFS_O_TRUNC then truncate_effect i s else s"
    have "fs_inv ?s" "file_inode ?s i" "i_node_type (inode_of ?s i) = T_FILE"
      "i_size (inode_of ?s i) \<le> BLOCK_SIZE ?s"
      using truncate_inv [OF inv fi ty] truncate_views [OF fs_invD(1) [OF inv] fi] inv fi ty wf
      by (auto simp: inode_wf_def)
    then have "fs_inv (snd (handle_effect i (if has_flag mode TFS_O_APPEND then i_size (inode_of ?s i) else 0) ?s))"
      by (intro handle_inv) auto
    with Some False show ?thesis by (simp add: open_effect_def Let_def)
  qed (use Some inv in \<open>simp add: open_effect_def\<close>)
qed

lemma link_inv_effect:
  assumes inv: "fs_inv s" and p: "path_ok name"
  shows "fs_inv (snd (link_effect target name s))"
proof -
  have "fs_inv ((put_dent k (pad MAX_FILE_NAME (base name), i) s)\<lparr>inode_table := (inode_table s)[nat i :=
      (inode_of s i)\<lparr>i_links_count := i_links_count (inode_of s i) + 1\<rparr>]\<rparr>)"
    if "lookup s target = Some i" "lookup s name = None" "free_slot s = Some k" "valid_pathname name"
      "length (base name) < MAX_FILE_NAME" "i_node_type (inode_of s i) \<noteq> T_LINK" for i k
  proof (rule inv_link [OF inv])
    show fi: "file_inode s i" using lookup_file_inode [OF inv that(1)] .
    then show "i_node_type (inode_of s i) = T_FILE"
      using fs_invD(7) [OF inv] that(6) by (cases "i_node_type (inode_of s i)") (auto simp: inode_inv_def inode_wf_def)
    show "good_name (base name)" using path_ok_base [OF p that(4)] that(5) by (simp add: good_name_def)
    show "dir_map (dents s) (base name) = None" using that(2,4) by (simp add: lookup_def)
  qed (use that in simp)
  with inv show ?thesis by (auto simp: link_effect_def split: option.split)
qed

lemma unlink_inv_effect:
  assumes inv: "fs_inv s"
  shows "fs_inv (snd (unlink_effect target s))"
proof (cases "lookup s target")
  case None
  with inv show ?thesis by (simp add: unlink_effect_def)
next
  case (Some i)
  have nm: "dir_map (dents s) (base target) = Some i"
    using Some by (simp add: lookup_def split: if_splits)
  obtain k where k: "find (\<lambda>k. live (dents s ! k) \<and> ename (dents s ! k) = base target)
      [0..<MAX_DIR_ENTRIES s] = Some k" "k < MAX_DIR_ENTRIES s"
    "dir_clear (base target) (dents s) = Some ((dents s)[k := (replicate MAX_FILE_NAME 0, -1)])"
    using nm by (rule clear_slot)
  have closed: "\<not> opened s i" if "i_node_type (inode_of s i) = T_LINK"
    using that fs_invD(10) [OF inv] by (auto simp: opened_iff open_inv_def handle_wf_def)
  show ?thesis
    using Some k inv inv_unlink_more [OF inv nm k(2,3)] inv_unlink_last [OF inv nm k(2,3)] closed
    by (auto simp: unlink_effect_def)
qed

text \<open>
  A link whose target has the full 39 characters fills the block with a path that \<open>tfs_open\<close>
  cannot copy to its buffer; the invariant needs shorter targets.
\<close>

definition short_target :: "cstring option \<Rightarrow> bool" where
  "short_target t = (case t of None \<Rightarrow> True | Some p \<Rightarrow> length p < MAX_FILE_NAME)"

lemma stored_link:
  assumes "fs_inv s" "first_free (free_blocks s) = Some b" "lookup s target = Some j" "short_target target"
  shows "length (the target @ [0]) \<le> unat (BLOCK_SIZE s)"
    "link_at (s\<lparr>free_blocks := fb, fs_data := write_at (blk_addr s (int b)) (the target @ [0]) (fs_data s)\<rparr>)
      (int b) (base target)"
proof -
  note good = lookup_base_good [OF assms(1,3)] and bb = first_free_block [OF assms(1,2)]
  have tl: "length (the target) < MAX_FILE_NAME"
    using assms(4) good(3) by (auto simp: short_target_def valid_pathname_def split: option.splits)
  then show len: "length (the target @ [0]) \<le> unat (BLOCK_SIZE s)"
    using fs_invD(1) [OF assms(1)] by (simp add: shape_def params_ok_def)
  have "length (base target) + 2 \<le> MAX_FILE_NAME" using tl good(2) by simp
  then show "link_at (s\<lparr>free_blocks := fb, fs_data := write_at (blk_addr s (int b)) (the target @ [0]) (fs_data s)\<rparr>)
      (int b) (base target)"
    using good len blk_in_data [OF fs_invD(1) [OF assms(1)] bb(2)]
      read_write_same [of "blk_addr s (int b)" "the target @ [0]" "fs_data s"]
    by (simp add: link_at_def)
qed

lemma sym_link_inv_effect:
  assumes inv: "fs_inv s" and p: "path_ok name" and short: "short_target target"
  shows "fs_inv (snd (sym_link_effect target name s))"
proof (cases "valid_pathname name \<and> lookup s target \<noteq> None \<and> lookup s name = None \<and>
    first_free (freeinode_ts s) \<noteq> None")
  case False
  with inv show ?thesis by (auto simp: sym_link_effect_def)
next
  case True
  then obtain j i where j: "lookup s target = Some j" and i: "first_free (freeinode_ts s) = Some i"
    and v: "valid_pathname name" "lookup s name = None" by blast
  note good = lookup_base_good [OF inv j] and nm = path_ok_base [OF p v(1)]
  show ?thesis
  proof (cases "first_free (free_blocks s)")
    case None
    with True i j inv_dead_inode [OF inv, of i] first_free_inode [OF inv i] show ?thesis
      by (simp add: sym_link_effect_def)
  next
    case (Some b)
    note bb = first_free_block [OF inv Some]
    define s1 where "s1 = s\<lparr>free_blocks := (free_blocks s)[b := TAKEN],
      fs_data := write_at (blk_addr s (int b)) (the target @ [0]) (fs_data s)\<rparr>"
    note st = stored_link [OF inv Some j short]
    have inv1: "fs_inv s1"
      using inv_unowned_block [OF inv bb(2,4), of 0] st(1) by (simp add: s1_def)
    have "dents s1 = dents s"
      using blk_write_dents [OF fs_invD(1,4) [OF inv] bb(2,5), of 0] st(1)
      by (simp add: s1_def dents_def view_simps)
    moreover have "link_at s1 (int b) (base target)"
      unfolding s1_def by (rule st(2))
    moreover have "valid_block_number s1 (int b)" "free_blocks s1 ! b = TAKEN" "\<not> owns s1 l (int b)" for l
      using bb by (simp_all add: s1_def view_simps owns_def)
    ultimately have "fs_inv (snd (create_effect ((new_inode T_LINK)\<lparr>i_data_block := int b\<rparr>) (base name) s1))"
      using nm v by (intro create_inv [OF inv1]) (auto simp: new_inode_def lookup_def)
    with True i j Some show ?thesis
      by (simp add: sym_link_effect_def s1_def [symmetric] case_prod_beta split: option.split)
  qed
qed

lemma write_offset:
  assumes "fs_inv s" "is_handle s fd"
  shows "unat (of_offset (open_file_table s ! nat fd) + of_nat (write_count s fd n)) =
    unat (of_offset (open_file_table s ! nat fd)) + write_count s fd n"
    "of_offset (open_file_table s ! nat fd) + of_nat (write_count s fd n) \<le> BLOCK_SIZE s"
proof -
  let ?o = "of_offset (open_file_table s ! nat fd)" and ?c = "write_count s fd n"
  note hf = handle_facts [OF assms]
  have le: "unat ?o + ?c \<le> unat (BLOCK_SIZE s)"
    using hf(5) by (simp add: write_count_def word_le_nat_alt)
  then have "unat (of_nat ?c :: size_t) = ?c"
    using hf(7) by (intro unat_of_nat_size_t) simp
  then show sum: "unat (?o + of_nat ?c) = unat ?o + ?c"
    using le hf(7) by (simp add: unat_word_ariths)
  show "?o + of_nat ?c \<le> BLOCK_SIZE s"
    using le sum by (simp add: word_le_nat_alt)
qed

lemma write_inv_effect:
  assumes inv: "fs_inv s" and len: "n \<le> length buffer"
  shows "fs_inv (snd (write_effect fd buffer n s))"
proof (cases "is_handle s fd \<and> write_count s fd n \<noteq> 0 \<and>
    write_block s (of_inumber (open_file_table s ! nat fd)) \<noteq> None")
  case False
  with inv show ?thesis by (auto simp: write_effect_def Let_def)
next
  case True
  define e where "e = open_file_table s ! nat fd"
  define c where "c = write_count s fd n"
  define off' where "off' = of_offset e + of_nat c"
  from True obtain b where h: "is_handle s fd" and b: "write_block s (of_inumber e) = Some b" and c0: "c \<noteq> 0"
    by (auto simp: e_def c_def)
  note hf = handle_facts [OF inv h, folded e_def] and wo = write_offset [OF inv h, of n, folded e_def c_def off'_def]
  note wb = write_block_facts [OF inv hf(3) b]
  have cn: "c \<le> length buffer" using len by (simp add: c_def write_count_def)
  have fits: "unat (of_offset e) + length (take c buffer) \<le> unat (BLOCK_SIZE s)"
    using wo cn by (simp add: word_le_nat_alt)
  have sz: "max (i_size (inode_of s (of_inumber e))) off' \<noteq> 0"
    using wo(1) c0 by (auto simp: max_def unat_eq_0 [symmetric] word_le_nat_alt)
  let ?t = "s\<lparr>free_blocks := (free_blocks s)[nat b := TAKEN],
      fs_data := write_at (blk_addr s b + unat (of_offset e)) (take c buffer) (fs_data s),
      inode_table := (inode_table s)[nat (of_inumber e) := (inode_of s (of_inumber e))
        \<lparr>i_size := max (i_size (inode_of s (of_inumber e))) off', i_data_block := b\<rparr>]\<rparr>"
  have inv': "fs_inv ?t"
    using sz hf(6) wo(2) by (intro inv_grow [OF inv hf(3,4) wb(1,2) fits]) auto
  have "handle_wf ?t (e\<lparr>of_offset := off'\<rparr>)"
    using hf wo(2) file_inode_bounds [OF hf(3) fs_invD(1) [OF inv]]
    by (simp add: handle_wf_def view_simps inode_of_table)
  then have "fs_inv (?t\<lparr>open_file_table := (open_file_table ?t)[nat fd := e\<lparr>of_offset := off'\<rparr>]\<rparr>)"
    using hf(8) by (intro inv_move_handle [OF inv']) (simp add: handle_def)
  with True b show ?thesis
    by (simp add: write_effect_def Let_def e_def [symmetric] c_def [symmetric] off'_def [symmetric])
qed

lemma read_inv_effect:
  assumes inv: "fs_inv s" and inf: "is_handle s fd \<Longrightarrow> in_file s fd"
  shows "fs_inv (snd (snd (read_effect fd len s)))"
proof (cases "is_handle s fd")
  case True
  define e where "e = open_file_table s ! nat fd"
  define c where "c = read_count s fd len"
  note hf = handle_facts [OF inv True, folded e_def]
  have le: "unat (of_offset e) + c \<le> unat (BLOCK_SIZE s)"
    using inf [OF True] hf(6)
    by (simp add: in_file_def c_def read_count_def Let_def e_def [symmetric] word_le_nat_alt)
  then have "unat (of_nat c :: size_t) = c"
    using hf(7) by (intro unat_of_nat_size_t) simp
  then have "of_offset e + of_nat c \<le> BLOCK_SIZE s"
    using le hf(7) by (simp add: word_le_nat_alt unat_word_ariths)
  then have "handle_wf s (e\<lparr>of_offset := of_offset e + of_nat c\<rparr>)"
    using hf by (simp add: handle_wf_def)
  from inv_move_handle [OF inv hf(8) this] True show ?thesis
    by (simp add: read_effect_def Let_def e_def c_def)
qed (use inv in \<open>simp add: read_effect_def\<close>)

section \<open>Initialisation\<close>

text \<open>What \<open>malloc\<close> delivered: arrays of the sizes asked for, with arbitrary contents.\<close>

definition allocs_ok :: "tfs_params \<Rightarrow> fs_allocs \<Rightarrow> bool" where
  "allocs_ok p al \<longleftrightarrow>
     map_option length (a_inode_table al) = Some (unat (max_inode_count p)) \<and>
     a_inode_rwl al \<and>
     map_option length (a_freeinode_ts al) = Some (unat (max_inode_count p)) \<and>
     map_option length (a_fs_data al) = Some (unat (max_block_count p) * unat (block_size p)) \<and>
     map_option length (a_free_blocks al) = Some (unat (max_block_count p)) \<and>
     map_option length (a_open_file_table al) = Some (unat (max_open_files_count p)) \<and>
     map_option length (a_free_open_file_entries al) = Some (unat (max_open_files_count p))"

definition fresh :: "tfs_params \<Rightarrow> fs_allocs \<Rightarrow> fs_state \<Rightarrow> fs_state" where
  "fresh p al s0 = s0\<lparr>fs_params := p, allocated := True,
     inode_table := the (a_inode_table al),
     freeinode_ts := replicate (unat (max_inode_count p)) FREE,
     fs_data := the (a_fs_data al),
     free_blocks := replicate (unat (max_block_count p)) FREE,
     open_file_table := the (a_open_file_table al),
     free_open_file_entries := replicate (unat (max_open_files_count p)) FREE,
     locks_init := True\<rparr>"

lemma fresh_simps:
  "fs_params (fresh p al s0) = p" "inode_table (fresh p al s0) = the (a_inode_table al)"
  "freeinode_ts (fresh p al s0) = replicate (unat (max_inode_count p)) FREE"
  "fs_data (fresh p al s0) = the (a_fs_data al)" "held (fresh p al s0) = held s0"
  "free_blocks (fresh p al s0) = replicate (unat (max_block_count p)) FREE"
  by (simp_all add: fresh_def)

lemma whole_inode:
  "ino\<lparr>i_node_type := ty, i_links_count := l, i_size := sz, i_data_block := b\<rparr> =
     \<lparr>i_node_type = ty, i_links_count = l, i_size = sz, i_data_block = b\<rparr>"
  by (cases ino) simp

lemma state_init_eq:
  assumes al: "allocs_ok p al" and s0: "\<not> allocated s0" "held s0 = {}"
  shows "state_init p al s0 = Ok (0, fresh p al s0)"
proof -
  from al obtain t fi m fb ot fo where
    "a_inode_table al = Some t" "a_freeinode_ts al = Some fi" "a_fs_data al = Some m"
    "a_free_blocks al = Some fb" "a_open_file_table al = Some ot" "a_free_open_file_entries al = Some fo"
    by (auto simp: allocs_ok_def)
  with al s0 show ?thesis
    by (simp add: state_init_def fresh_def allocs_ok_def or_null_def Let_def foldR_fill)
qed

text \<open>The loop of \<open>inode_create\<close> that marks the entries of a new directory as free.\<close>

lemma mark_entries_free:
  assumes "a + sizeof_dir_entry * n \<le> length m"
  obtains m' where "foldR (\<lambda>k m. mem_write m (d_inumber_addr a k) (enc32 (-1))) [0..<n] m = Ok m'"
    "length m' = length m" "\<forall>e\<in>set (entries m' a n). \<not> live e"
proof -
  have "\<exists>m'. foldR (\<lambda>k m. mem_write m (d_inumber_addr a k) (enc32 (-1))) [0..<j] m = Ok m' \<and>
      length m' = length m \<and> (\<forall>k<j. dec32 (read_at (d_inumber_addr a k) 4 m') = -1)" if "j \<le> n" for j
    using that
  proof (induction j)
    case (Suc j)
    then obtain m' where m': "foldR (\<lambda>k m. mem_write m (d_inumber_addr a k) (enc32 (-1))) [0..<j] m = Ok m'"
      "length m' = length m" "\<forall>k<j. dec32 (read_at (d_inumber_addr a k) 4 m') = -1" by auto
    have room: "d_inumber_addr a j + 4 \<le> length m'"
      using Suc.prems assms m'(2) by (simp add: entry_addrs)
    let ?w = "write_at (d_inumber_addr a j) (enc32 (-1)) m'"
    have "dec32 (read_at (d_inumber_addr a k) 4 ?w) = -1" if "k < Suc j" for k
    proof (cases "k = j")
      case True
      then show ?thesis
        using room read_write_same [of "d_inumber_addr a j" "enc32 (-1)" m'] dec32_enc32 [of "-1"]
        by (simp add: int32_range_def)
    next
      case False
      with that have "d_inumber_addr a k + 4 \<le> d_inumber_addr a j" by (simp add: entry_addrs)
      with room that False m'(3) show ?thesis
        using read_write_disjoint [of "d_inumber_addr a j" "enc32 (-1)" m' "d_inumber_addr a k" 4] by simp
    qed
    with room m'(1,2) show ?case by (simp add: foldR_append)
  qed simp
  from this [of n] show thesis
    using that by (auto simp: entries_def entry_at_def live_def)
qed

lemma first_free_replicate: "0 < n \<Longrightarrow> first_free (replicate n FREE) = Some 0"
  by (simp add: first_free_Some)

lemma tfs_init_exact:
  assumes p: "params_ok p" "0 < unat (max_inode_count p)" "0 < unat (max_block_count p)"
    and al: "allocs_ok p al" and s0: "\<not> allocated s0" "held s0 = {}"
  obtains m where "length m = unat (max_block_count p) * unat (block_size p)"
    "\<forall>e\<in>set (entries m 0 (unat (block_size p) div sizeof_dir_entry)). \<not> live e"
    "tfs_init (Some p) al s0 = Ok (0, (fresh p al s0)\<lparr>
       freeinode_ts := (replicate (unat (max_inode_count p)) FREE)[0 := TAKEN],
       inode_table := (the (a_inode_table al))[0 := \<lparr>i_node_type = T_DIRECTORY, i_links_count = 1,
         i_size = block_size p, i_data_block = 0\<rparr>],
       free_blocks := (replicate (unat (max_block_count p)) FREE)[0 := TAKEN], fs_data := m\<rparr>)"
proof -
  let ?s = "fresh p al s0"
  have sh: "shape ?s"
    using p(1) al by (auto simp: shape_def fresh_def allocs_ok_def)
  have len: "0 < length (the (a_inode_table al))"
    using p al by (auto simp: allocs_ok_def)
  have "unat (block_size p) \<le> unat (max_block_count p) * unat (block_size p)"
    using p(3) by simp
  moreover have "44 * (unat (block_size p) div 44) \<le> unat (block_size p)" by simp
  ultimately have "44 * (unat (block_size p) div 44) \<le> unat (max_block_count p) * unat (block_size p)"
    by (rule order_trans [rotated])
  then have "0 + 44 * (unat (block_size p) div 44) \<le> length (the (a_fs_data al))"
    using al by (auto simp: allocs_ok_def)
  then obtain m where m: "foldR (\<lambda>k m. mem_write m (d_inumber_addr 0 k) (enc32 (-1)))
      [0..<unat (block_size p) div 44] (the (a_fs_data al)) = Ok m" "length m = length (the (a_fs_data al))"
    "\<forall>e\<in>set (entries m 0 (unat (block_size p) div 44)). \<not> live e"
    by (rule mark_entries_free)
  have dbg: "valid_block_number s' 0" if "fs_params s' = p" for s'
    using that p(3) by (simp add: valid_block_number_iff)
  have addr: "blk_addr s' 0 = 0" for s' by (simp add: blk_addr_def)
  show thesis
  proof (rule that [of m])
    show "tfs_init (Some p) al s0 = Ok (0, ?s\<lparr>
        freeinode_ts := (replicate (unat (max_inode_count p)) FREE)[0 := TAKEN],
        inode_table := (the (a_inode_table al))[0 := \<lparr>i_node_type = T_DIRECTORY, i_links_count = 1,
          i_size = block_size p, i_data_block = 0\<rparr>],
        free_blocks := (replicate (unat (max_block_count p)) FREE)[0 := TAKEN], fs_data := m\<rparr>)"
      using m p al s0 sh len shape_locks [OF sh]
      by (simp add: tfs_init_def state_init_eq inode_create_def tfs_simps dbg addr fresh_simps
          first_free_replicate MAX_DIR_ENTRIES_def whole_inode)
  qed (use m al in \<open>auto simp: allocs_ok_def\<close>)
qed

lemma init_inv:
  assumes p: "params_ok p" "0 < unat (max_inode_count p)" "0 < unat (max_block_count p)"
    and al: "allocs_ok p al" and s0: "\<not> allocated s0" "held s0 = {}"
  obtains s where "tfs_init (Some p) al s0 = Ok (0, s)" "fs_inv s" "fs_params s = p"
    "dir_map (dents s) = Map.empty" "\<And>i. \<not> file_inode s i" "\<And>k. \<not> handle s k"
    "free_blocks s = (replicate (unat (max_block_count p)) FREE)[0 := TAKEN]"
proof -
  obtain m where m: "length m = unat (max_block_count p) * unat (block_size p)"
    "\<forall>e\<in>set (entries m 0 (unat (block_size p) div 44)). \<not> live e"
    and init: "tfs_init (Some p) al s0 = Ok (0, (fresh p al s0)\<lparr>
       freeinode_ts := (replicate (unat (max_inode_count p)) FREE)[0 := TAKEN],
       inode_table := (the (a_inode_table al))[0 := \<lparr>i_node_type = T_DIRECTORY, i_links_count = 1,
         i_size = block_size p, i_data_block = 0\<rparr>],
       free_blocks := (replicate (unat (max_block_count p)) FREE)[0 := TAKEN], fs_data := m\<rparr>)"
      (is "_ = Ok (0, ?s)")
    using tfs_init_exact [OF assms] by blast
  have tl: "length (the (a_inode_table al)) = unat (max_inode_count p)"
    using al by (auto simp: allocs_ok_def)
  have sh: "shape ?s"
    using p al m(1) tl by (auto simp: shape_def fresh_def allocs_ok_def)
  have ri: "root_inode ?s = \<lparr>i_node_type = T_DIRECTORY, i_links_count = 1, i_size = block_size p, i_data_block = 0\<rparr>"
    using p(2) tl by (simp add: root_inode_def)
  have dn: "dents ?s = entries m 0 (unat (block_size p) div 44)"
    using ri by (simp add: dents_def root_addr_def blk_addr_def MAX_DIR_ENTRIES_def fresh_def)
  have nl: "\<not> live e" if "e \<in> set (dents ?s)" for e using that m(2) dn by simp
  have fi: "\<not> file_inode ?s i" for i by (auto simp: file_inode_def nth_list_update)
  have hd: "\<not> handle ?s k" for k by (simp add: handle_def fresh_def)
  have own: "i = 0 \<and> b = 0" if "owns ?s i b" for i b
    using that fi ri inode_of_0 [of ?s] by (auto simp: owns_def)
  have "wf_dir (dents ?s)"
    using nl unfolding wf_dir_def by (auto intro!: exI [of _ 0] simp: filter_empty_conv [THEN iffD2] nth_mem)
  moreover have "valid_block_number ?s 0" "free_blocks ?s ! 0 = TAKEN"
    using p(3) by (simp_all add: valid_block_number_iff fresh_def)
  then have "block_inv ?s"
    by (intro block_invI) (auto dest!: own)
  ultimately have "fs_inv ?s"
    using sh s0 ri p nl fi hd
    by (auto simp: fs_inv_def root_inv_def root_ok_def dir_inv_def inode_inv_def link_inv_def open_inv_def
        valid_block_number_iff fresh_def)
  moreover have "dir_map (dents ?s) = Map.empty"
    using nl by (intro ext) (simp add: dir_map_None)
  ultimately show thesis
    using that [of ?s] init fi hd by (simp add: fresh_def)
qed

end
