(* ===== verification/FS_Spec.thy ===== *)
theory FS_Spec
  imports FS_Preserve
begin

text \<open>
  What TecnicoFS promises, without blocks, bytes and tables: names are a map to inode numbers, an
  inode is a file with its contents or a symbolic link with its path, an open handle is an inode
  and an offset. Resources show as numbers: how many inodes, names, handles and blocks there are.
  Each operation is a function on this abstract state. The theory ends with the abstraction function
  and the lemmas that relate the tables of \<open>fs/state.c\<close> to it.
\<close>

section \<open>The abstract file system\<close>

datatype node = File "byte list" | Link cstring

record afs =
  a_names :: "cstring \<rightharpoonup> int"
  a_nodes :: "int \<rightharpoonup> node"
  a_handles :: "int \<rightharpoonup> int \<times> nat"
  a_free :: nat
  a_inodes :: nat
  a_slots :: nat
  a_files :: nat
  a_block :: nat

definition a_lookup :: "afs \<Rightarrow> cstring option \<Rightarrow> int option" where
  "a_lookup a p = (if valid_pathname p then a_names a (base p) else None)"

definition a_new_inode :: "afs \<Rightarrow> nat option" where
  "a_new_inode a = find (\<lambda>i. a_nodes a (int i) = None) [1..<a_inodes a]"

definition a_new_handle :: "afs \<Rightarrow> nat option" where
  "a_new_handle a = find (\<lambda>k. a_handles a (int k) = None) [0..<a_files a]"

definition a_room :: "afs \<Rightarrow> cstring \<Rightarrow> bool" where
  "a_room a nm \<longleftrightarrow> length nm < MAX_FILE_NAME \<and> card (dom (a_names a)) < a_slots a"

definition a_handle :: "int \<Rightarrow> nat \<Rightarrow> afs \<Rightarrow> int \<times> afs" where
  "a_handle i off a =
     (case a_new_handle a of
        None \<Rightarrow> (-1, a)
      | Some k \<Rightarrow> (int k, a\<lparr>a_handles := (a_handles a)(int k \<mapsto> (i, off))\<rparr>))"

definition a_create :: "node \<Rightarrow> cstring \<Rightarrow> afs \<Rightarrow> int option \<times> afs" where
  "a_create nd nm a =
     (case a_new_inode a of
        None \<Rightarrow> (None, a)
      | Some i \<Rightarrow>
          if a_room a nm
          then (Some (int i), a\<lparr>a_names := (a_names a)(nm \<mapsto> int i), a_nodes := (a_nodes a)(int i \<mapsto> nd)\<rparr>)
          else (None, a))"

definition blocks_of :: "node \<Rightarrow> nat" where
  "blocks_of nd = (case nd of File c \<Rightarrow> if c = [] then 0 else 1 | Link _ \<Rightarrow> 0)"

definition a_truncate :: "int \<Rightarrow> afs \<Rightarrow> afs" where
  "a_truncate i a =
     a\<lparr>a_nodes := (a_nodes a)(i \<mapsto> File []), a_free := a_free a + blocks_of (the (a_nodes a i))\<rparr>"

definition a_size :: "afs \<Rightarrow> int \<Rightarrow> nat" where
  "a_size a i = (case a_nodes a i of Some (File c) \<Rightarrow> length c | _ \<Rightarrow> 0)"

definition a_open :: "cstring option \<Rightarrow> tfs_file_mode_t \<Rightarrow> afs \<Rightarrow> open_next \<times> afs" where
  "a_open p mode a =
     (case a_lookup a p of
        None \<Rightarrow>
          if valid_pathname p \<and> has_flag mode TFS_O_CREAT then
            (case a_create (File []) (base p) a of
               (None, a') \<Rightarrow> (Returned (-1), a')
             | (Some i, a') \<Rightarrow> map_prod Returned id (a_handle i 0 a'))
          else (Returned (-1), a)
      | Some i \<Rightarrow>
          (case a_nodes a i of
             Some (Link path) \<Rightarrow>
               if has_flag mode TFS_O_CREAT then (Returned (-1), a) else (Follow path, a)
           | _ \<Rightarrow>
               let a1 = (if has_flag mode TFS_O_TRUNC then a_truncate i a else a) in
               map_prod Returned id
                 (a_handle i (if has_flag mode TFS_O_APPEND then a_size a1 i else 0) a1)))"

definition a_close :: "int \<Rightarrow> afs \<Rightarrow> int \<times> afs" where
  "a_close fd a =
     (if a_handles a fd = None then (-1, a) else (0, a\<lparr>a_handles := (a_handles a)(fd := None)\<rparr>))"

definition a_link :: "cstring option \<Rightarrow> cstring option \<Rightarrow> afs \<Rightarrow> int \<times> afs" where
  "a_link target p a =
     (case (a_lookup a target, a_lookup a p) of
        (Some i, None) \<Rightarrow>
          (case a_nodes a i of
             Some (File _) \<Rightarrow>
               if valid_pathname p \<and> a_room a (base p)
               then (0, a\<lparr>a_names := (a_names a)(base p \<mapsto> i)\<rparr>) else (-1, a)
           | _ \<Rightarrow> (-1, a))
      | _ \<Rightarrow> (-1, a))"

definition a_sym_link :: "cstring option \<Rightarrow> cstring option \<Rightarrow> afs \<Rightarrow> int \<times> afs" where
  "a_sym_link target p a =
     (if \<not> valid_pathname p \<or> a_lookup a target = None \<or> a_lookup a p \<noteq> None \<or>
         a_new_inode a = None \<or> a_free a = 0
      then (-1, a)
      else case a_create (Link (the target)) (base p) (a\<lparr>a_free := a_free a - 1\<rparr>) of
        (None, a') \<Rightarrow> (-1, a')
      | (Some _, a') \<Rightarrow> (0, a'))"

text \<open>The last name of a file takes the file with it; a symbolic link keeps its block.\<close>

definition a_unlink :: "cstring option \<Rightarrow> afs \<Rightarrow> int \<times> afs" where
  "a_unlink p a =
     (case a_lookup a p of
        None \<Rightarrow> (-1, a)
      | Some i \<Rightarrow>
          if \<exists>fd off. a_handles a fd = Some (i, off) then (-1, a)
          else
           let a1 = a\<lparr>a_names := (a_names a)(base p := None)\<rparr> in
           (0, if i \<in> ran (a_names a1) then a1
               else a1\<lparr>a_nodes := (a_nodes a)(i := None),
                       a_free := a_free a + blocks_of (the (a_nodes a i))\<rparr>))"

definition splice :: "nat \<Rightarrow> byte list \<Rightarrow> byte list \<Rightarrow> byte list" where
  "splice off xs c = take off c @ xs @ drop (off + length xs) c"

definition a_write :: "int \<Rightarrow> byte list \<Rightarrow> afs \<Rightarrow> int \<times> afs" where
  "a_write fd xs a =
     (case a_handles a fd of
        None \<Rightarrow> (-1, a)
      | Some (i, off) \<Rightarrow>
          let n = min (length xs) (a_block a - off) in
          if n = 0 then (0, a)
          else
            (case a_nodes a i of
               Some (File c) \<Rightarrow>
                 if c = [] \<and> a_free a = 0 then (-1, a)
                 else (int n, a\<lparr>a_nodes := (a_nodes a)(i \<mapsto> File (splice off (take n xs) c)),
                                a_handles := (a_handles a)(fd \<mapsto> (i, off + n)),
                                a_free := (if c = [] then a_free a - 1 else a_free a)\<rparr>)
             | _ \<Rightarrow> (-1, a)))"

definition a_read :: "int \<Rightarrow> nat \<Rightarrow> afs \<Rightarrow> int \<times> byte list \<times> afs" where
  "a_read fd len a =
     (case a_handles a fd of
        None \<Rightarrow> (-1, [], a)
      | Some (i, off) \<Rightarrow>
          (case a_nodes a i of
             Some (File c) \<Rightarrow>
               let xs = take len (drop off c) in
               (int (length xs), xs, a\<lparr>a_handles := (a_handles a)(fd \<mapsto> (i, off + length xs))\<rparr>)
           | _ \<Rightarrow> (-1, [], a)))"

section \<open>Abstraction\<close>

definition content :: "fs_state \<Rightarrow> int \<Rightarrow> byte list" where
  "content s i = read_at (blk_addr s (i_data_block (inode_of s i))) (unat (i_size (inode_of s i))) (fs_data s)"

definition node_at :: "fs_state \<Rightarrow> int \<Rightarrow> node option" where
  "node_at s i =
     (if \<not> file_inode s i then None
      else if i_node_type (inode_of s i) = T_LINK then Some (Link (link_path s i))
      else Some (File (content s i)))"

definition handle_at :: "fs_state \<Rightarrow> int \<Rightarrow> (int \<times> nat) option" where
  "handle_at s fd =
     (if is_handle s fd
      then Some (of_inumber (open_file_table s ! nat fd), unat (of_offset (open_file_table s ! nat fd)))
      else None)"

definition free_count :: "allocation_state_t list \<Rightarrow> nat" where
  "free_count xs = length (filter (\<lambda>x. x = FREE) xs)"

definition abs_fs :: "fs_state \<Rightarrow> afs" where
  "abs_fs s = \<lparr>a_names = dir_map (dents s), a_nodes = node_at s, a_handles = handle_at s,
     a_free = free_count (free_blocks s), a_inodes = unat (INODE_TABLE_SIZE s), a_slots = MAX_DIR_ENTRIES s,
     a_files = unat (MAX_OPEN_FILES s), a_block = unat (BLOCK_SIZE s)\<rparr>"

lemma abs_simps [simp]:
  "a_names (abs_fs s) = dir_map (dents s)" "a_nodes (abs_fs s) = node_at s"
  "a_handles (abs_fs s) = handle_at s" "a_free (abs_fs s) = free_count (free_blocks s)"
  "a_inodes (abs_fs s) = unat (INODE_TABLE_SIZE s)" "a_slots (abs_fs s) = MAX_DIR_ENTRIES s"
  "a_files (abs_fs s) = unat (MAX_OPEN_FILES s)" "a_block (abs_fs s) = unat (BLOCK_SIZE s)"
  by (simp_all add: abs_fs_def)

lemma a_lookup_abs [simp]: "a_lookup (abs_fs s) p = lookup s p"
  by (simp add: a_lookup_def lookup_def)

subsection \<open>Allocation\<close>

lemma free_count_take:
  assumes "k < length xs" "xs ! k = FREE"
  shows "free_count (xs[k := TAKEN]) = free_count xs - 1" "0 < free_count xs"
proof -
  have "xs = take k xs @ FREE # drop (Suc k) xs" using assms by (metis id_take_nth_drop)
  then have "free_count xs = free_count (take k xs) + Suc (free_count (drop (Suc k) xs))"
    by (metis (mono_tags, lifting) filter.simps(2) filter_append free_count_def length_Cons length_append)
  moreover have "free_count (xs[k := TAKEN]) = free_count (take k xs) + free_count (drop (Suc k) xs)"
    using assms by (simp add: upd_conv_take_nth_drop free_count_def)
  ultimately show "free_count (xs[k := TAKEN]) = free_count xs - 1" "0 < free_count xs" by simp_all
qed

lemma free_count_release:
  assumes "k < length xs" "xs ! k = TAKEN"
  shows "free_count (xs[k := FREE]) = free_count xs + 1"
  using free_count_take [of k "xs[k := FREE]"] assms
  by (simp add: list_update_same_conv [THEN iffD2])

lemma free_count_0: "free_count xs = 0 \<longleftrightarrow> first_free xs = None"
  by (auto simp: free_count_def first_free_None filter_empty_conv all_set_conv_all_nth)
    (metis allocation_state_t.exhaust)+

lemma find_cong_set: "(\<And>x. x \<in> set xs \<Longrightarrow> p x = q x) \<Longrightarrow> find p xs = find q xs"
  by (induction xs) auto

lemma new_inode_abs: "fs_inv s \<Longrightarrow> a_new_inode (abs_fs s) = first_free (freeinode_ts s)"
proof -
  assume inv: "fs_inv s"
  note I = fs_invD [OF inv]
  let ?f = "\<lambda>k. freeinode_ts s ! k = FREE"
  have len: "length (freeinode_ts s) = unat (INODE_TABLE_SIZE s)" "0 < unat (INODE_TABLE_SIZE s)"
    using shape_lengths [OF I(1)] I(4) by (auto simp: root_ok_def)
  have "[0..<unat (INODE_TABLE_SIZE s)] = 0 # [1..<unat (INODE_TABLE_SIZE s)]"
    using len by (simp add: upt_conv_Cons)
  then have "first_free (freeinode_ts s) = find ?f [1..<unat (INODE_TABLE_SIZE s)]"
    using I(3) len by (simp add: first_free_def root_inv_def)
  also have "\<dots> = a_new_inode (abs_fs s)"
    unfolding a_new_inode_def abs_simps
    by (rule find_cong_set)
      (use len in \<open>auto simp: node_at_def file_inode_def intro: allocation_state_t.exhaust\<close>)
  finally show ?thesis by simp
qed

lemma new_handle_abs: "fs_inv s \<Longrightarrow> a_new_handle (abs_fs s) = first_free (free_open_file_entries s)"
  unfolding a_new_handle_def first_free_def abs_simps
  using shape_lengths [OF fs_invD(1), of s]
  by (auto simp: handle_at_def is_handle_def handle_def intro!: find_cong_set) (metis allocation_state_t.exhaust)+

lemma card_dir_map: "wf_dir es \<Longrightarrow> card (dom (dir_map es)) = length (filter live es)"
  using distinct_card [OF wf_dir_distinct, of es]
  by (simp add: dir_map_def dom_map_of_conv_image_fst image_image)

lemma room_abs:
  assumes "fs_inv s"
  shows "a_room (abs_fs s) nm \<longleftrightarrow> length nm < MAX_FILE_NAME \<and> free_slot s \<noteq> None"
proof -
  have "length (filter live (dents s)) < MAX_DIR_ENTRIES s \<longleftrightarrow> (\<exists>e\<in>set (dents s). \<not> live e)"
    using length_filter_less [of _ "dents s" live] length_filter_le [of live "dents s"]
    by (metis filter_id_conv length_dents less_irrefl)
  also have "\<dots> \<longleftrightarrow> free_slot s \<noteq> None"
    using find_index_None [of "\<lambda>e. \<not> live e" "dents s"] by (simp add: free_slot_def)
  finally show ?thesis
    using card_dir_map [OF fs_invD(6) [OF assms]] by (simp add: a_room_def)
qed

lemma ran_dir_map: "wf_dir es \<Longrightarrow> i \<noteq> -1 \<Longrightarrow> i \<in> ran (dir_map es) \<longleftrightarrow> 0 < refs es i"
  using dir_map_refs refs_pos_dir_map by (fastforce simp: ran_def)

lemma handled_abs: "(\<exists>fd off. handle_at s fd = Some (i, off)) \<longleftrightarrow> opened s i"
  by (auto simp: handle_at_def is_handle_def opened_iff split: if_splits) (metis nat_int of_nat_0_le_iff)

subsection \<open>Nodes that an update leaves alone\<close>

definition same_block :: "fs_state \<Rightarrow> fs_state \<Rightarrow> int \<Rightarrow> bool" where
  "same_block s s' b \<longleftrightarrow>
     (\<forall>n\<le>unat (BLOCK_SIZE s). read_at (blk_addr s b) n (fs_data s') = read_at (blk_addr s b) n (fs_data s))"

lemma same_block_refl [simp]: "fs_data s' = fs_data s \<Longrightarrow> same_block s s' b"
  by (simp add: same_block_def)

lemma same_block_write:
  assumes "fs_data s' = write_at (blk_addr s c + off) xs (fs_data s)" "shape s"
    "valid_block_number s b" "valid_block_number s c" "b \<noteq> c" "off + length xs \<le> unat (BLOCK_SIZE s)"
  shows "same_block s s' b"
  using assms blk_write_read [OF assms(2,4,3) _ assms(6), of 0] by (simp add: same_block_def)

lemma same_block_put:
  assumes "fs_data s' = fs_data (put_dent k e s)" "shape s" "root_ok s" "k < MAX_DIR_ENTRIES s"
    "length (fst e) = MAX_FILE_NAME" "valid_block_number s b" "b \<noteq> i_data_block (root_inode s)"
  shows "same_block s s' b"
  using assms put_dent_read [OF assms(2-7), of 0] by (simp add: same_block_def)

lemma node_keep:
  assumes inv: "fs_inv s" and "fs_params s' = fs_params s" "file_inode s' j = file_inode s j"
    and ino: "file_inode s j \<Longrightarrow> i_node_type (inode_of s' j) = i_node_type (inode_of s j) \<and>
      i_size (inode_of s' j) = i_size (inode_of s j) \<and> i_data_block (inode_of s' j) = i_data_block (inode_of s j)"
    and mem: "\<And>b. file_inode s j \<Longrightarrow> owns s j b \<Longrightarrow> same_block s s' b"
  shows "node_at s' j = node_at s j"
proof (cases "file_inode s j")
  case fi: True
  have addr: "blk_addr s' b = blk_addr s b" for b using assms(2) by (simp add: blk_addr_def)
  have bs: "MAX_FILE_NAME \<le> unat (BLOCK_SIZE s)" "i_size (inode_of s j) \<le> BLOCK_SIZE s"
    using fs_invD(1,7) [OF inv] fi by (auto simp: shape_def params_ok_def inode_inv_def inode_wf_def)
  have "link_path s' j = link_path s j" if "i_node_type (inode_of s j) = T_LINK"
    using mem [OF fi file_inode_owns [OF fi]] that ino [OF fi] bs(1)
    by (simp add: link_path_def same_block_def addr)
  moreover have "content s' j = content s j"
    using mem [OF fi file_inode_owns [OF fi]] ino [OF fi] bs(2)
    by (cases "i_size (inode_of s j) = 0") (simp_all add: content_def same_block_def addr word_le_nat_alt)
  ultimately show ?thesis
    using assms(3) ino [OF fi] by (simp add: node_at_def)
qed (use assms(3) in \<open>simp add: node_at_def\<close>)

lemma abs_eqI:
  assumes "fs_params s' = fs_params s" "a_names a = dir_map (dents s')" "a_nodes a = node_at s'"
    "a_handles a = handle_at s'" "a_free a = free_count (free_blocks s')"
    "a_inodes a = unat (INODE_TABLE_SIZE s)" "a_slots a = MAX_DIR_ENTRIES s"
    "a_files a = unat (MAX_OPEN_FILES s)" "a_block a = unat (BLOCK_SIZE s)"
  shows "abs_fs s' = a"
  using assms by (simp add: abs_fs_def MAX_DIR_ENTRIES_def)

section \<open>Refinement, one effect at a time\<close>

lemma close_refines:
  assumes inv: "fs_inv s"
  shows "map_prod id abs_fs (close_effect fd s) = a_close fd (abs_fs s)"
proof (cases "is_handle s fd")
  case True
  let ?s = "s\<lparr>free_open_file_entries := (free_open_file_entries s)[nat fd := FREE]\<rparr>"
  have "abs_fs ?s = (abs_fs s)\<lparr>a_handles := (handle_at s)(fd := None)\<rparr>"
  proof (rule abs_eqI [of _ s])
    show "a_nodes ((abs_fs s)\<lparr>a_handles := (handle_at s)(fd := None)\<rparr>) = node_at ?s"
      by (intro ext, simp, rule node_keep [OF inv, symmetric]) (simp_all add: view_simps)
    show "a_handles ((abs_fs s)\<lparr>a_handles := (handle_at s)(fd := None)\<rparr>) = handle_at ?s"
      using True by (auto simp: fun_eq_iff handle_at_def is_handle_def handle_def nth_upd)
  qed (simp_all add: view_simps)
  with True show ?thesis by (simp add: close_effect_def a_close_def handle_at_def)
qed (simp add: close_effect_def a_close_def handle_at_def)

lemma handle_refines:
  assumes inv: "fs_inv s"
  shows "map_prod id abs_fs (handle_effect i off s) = a_handle i (unat off) (abs_fs s)"
proof (cases "first_free (free_open_file_entries s)")
  case None
  then show ?thesis by (simp add: handle_effect_def a_handle_def new_handle_abs [OF inv])
next
  case (Some k)
  let ?s = "s\<lparr>free_open_file_entries := (free_open_file_entries s)[k := TAKEN],
      open_file_table := (open_file_table s)[k := \<lparr>of_inumber = i, of_offset = off\<rparr>]\<rparr>"
  have k: "k < length (free_open_file_entries s)" "k < length (open_file_table s)"
    using Some shape_lengths [OF fs_invD(1) [OF inv]] by (auto simp: first_free_Some)
  have "abs_fs ?s = (abs_fs s)\<lparr>a_handles := (handle_at s)(int k \<mapsto> (i, unat off))\<rparr>" (is "_ = ?a")
  proof (rule abs_eqI [of _ s])
    show "a_nodes ?a = node_at ?s"
      by (intro ext, simp, rule node_keep [OF inv, symmetric]) (simp_all add: view_simps)
    show "a_handles ?a = handle_at ?s"
      using k by (auto simp: fun_eq_iff handle_at_def is_handle_def handle_def nth_upd)
  qed (simp_all add: view_simps)
  with Some show ?thesis by (simp add: handle_effect_def a_handle_def new_handle_abs [OF inv])
qed

text \<open>Writing to an inode that is not allocated does not show.\<close>

lemma abs_dead_inode:
  assumes inv: "fs_inv s" and i: "first_free (freeinode_ts s) = Some i"
  shows "abs_fs (s\<lparr>inode_table := (inode_table s)[i := ino]\<rparr>) = abs_fs s" (is "abs_fs ?s = _")
proof (rule abs_eqI [of _ s])
  note ii = first_free_inode [OF inv i]
  have "inode_of ?s j = inode_of s j" if "file_inode s j" for j
    using that ii by (auto simp: inode_of_def file_inode_def nth_list_update)
  then have "node_at ?s j = node_at s j" for j
    by (intro node_keep [OF inv]) (simp_all add: view_simps)
  then show "a_nodes (abs_fs s) = node_at ?s" by auto
  show "a_handles (abs_fs s) = handle_at ?s"
    by (simp add: fun_eq_iff handle_at_def is_handle_def handle_def)
  show "a_names (abs_fs s) = dir_map (dents ?s)" using ii by (simp add: view_simps)
qed (simp_all add: view_simps)

lemma create_refines:
  assumes inv: "fs_inv s" and nm: "nm \<noteq> []" "0 \<notin> set nm" "dir_map (dents s) nm = None"
    and ino: "i_size ino = 0"
    and lnk: "i_node_type ino = T_LINK \<Longrightarrow> valid_block_number s (i_data_block ino) \<and>
      i_data_block ino \<noteq> i_data_block (root_inode s)"
    and nd: "nd = (if i_node_type ino = T_LINK
      then Link (cname (read_at (blk_addr s (i_data_block ino)) MAX_FILE_NAME (fs_data s))) else File [])"
  shows "map_prod id abs_fs (create_effect ino nm s) = a_create nd nm (abs_fs s)"
proof (cases "first_free (freeinode_ts s)")
  case None
  then show ?thesis by (simp add: create_effect_def a_create_def new_inode_abs [OF inv])
next
  case i: (Some i)
  note ii = first_free_inode [OF inv i] and I = fs_invD [OF inv]
  show ?thesis
  proof (cases "a_room (abs_fs s) nm")
    case False
    with i show ?thesis
      using abs_dead_inode [OF inv i]
      by (auto simp: create_effect_def a_create_def new_inode_abs [OF inv] room_abs [OF inv] split: option.split)
  next
    case True
    then obtain k where k: "free_slot s = Some k" and good: "good_name nm"
      using nm by (auto simp: room_abs [OF inv] good_name_def)
    let ?u = "s\<lparr>freeinode_ts := (freeinode_ts s)[i := TAKEN], inode_table := (inode_table s)[i := ino]\<rparr>"
    let ?e = "(pad MAX_FILE_NAME nm, int i)"
    let ?s = "put_dent k ?e ?u"
    have u: "shape ?u" "root_ok ?u" "dents ?u = dents s" "k < MAX_DIR_ENTRIES ?u" "length (fst ?e) = MAX_FILE_NAME"
      "root_addr ?u = root_addr s"
      using I(1,4) ii free_slot_bound [OF k] good by (simp_all add: view_simps good_name_def)
    have ir: "int32_range (int i)"
      using ii shape_lengths [OF I(1)] I(1) by (simp add: shape_def params_ok_def int32_range_def)
    have names: "dir_map (dents ?s) = (dir_map (dents s))(nm \<mapsto> int i)"
      using dir_map_add [OF good _ nm(3), of "int i"] dir_add_slot [OF k, of nm "int i"]
        dents_put_dent [OF u(1,2,4,5)] ir u(3) by simp
    have blk: "same_block s ?s b" if "valid_block_number s b" "b \<noteq> i_data_block (root_inode s)" for b
      using that I(1,4) u free_slot_bound [OF k]
      by (intro same_block_put [of _ k ?e]) (simp_all add: put_dent_def)
    have fi: "file_inode ?s j \<longleftrightarrow> j = int i \<or> file_inode s j" for j
      using ii by (auto simp: put_dent_views file_inode_def nth_upd)
    have "node_at ?s j = ((node_at s)(int i \<mapsto> nd)) j" for j
    proof (cases "j = int i")
      case True
      have iof: "inode_of ?s (int i) = ino" using ii by (simp add: put_dent_views inode_of_table)
      have "40 \<le> unat (BLOCK_SIZE s)" using I(1) by (simp add: shape_def params_ok_def)
      with True fi iof nd lnk blk ino show ?thesis
        by (auto simp: node_at_def link_path_def content_def same_block_def put_dent_views)
    next
      case False
      have "inode_of ?s j = inode_of s j" if "file_inode s j"
        using that ii by (auto simp: put_dent_views inode_of_def file_inode_def nth_list_update)
      moreover have "same_block s ?s b" if "file_inode s j" "owns s j b" for b
        using owns_block(1) [OF inv that(2)] owns_not_root [OF inv that(2)] that(1)
        by (intro blk) (auto simp: file_inode_def)
      ultimately have "node_at ?s j = node_at s j"
        using fi False by (intro node_keep [OF inv]) simp_all
      with False show ?thesis by simp
    qed
    then have "abs_fs ?s = (abs_fs s)\<lparr>a_names := (dir_map (dents s))(nm \<mapsto> int i),
        a_nodes := (node_at s)(int i \<mapsto> nd)\<rparr>"
      using names by (intro abs_eqI [of _ s]) (auto simp: fun_eq_iff handle_at_def is_handle_def handle_def)
    with i k True show ?thesis
      by (simp add: create_effect_def a_create_def new_inode_abs [OF inv] room_abs [OF inv])
  qed
qed

lemma length_content:
  assumes "fs_inv s" "file_inode s i"
  shows "length (content s i) = unat (i_size (inode_of s i))"
proof (cases "i_size (inode_of s i) = 0")
  case False
  have "valid_block_number s (i_data_block (inode_of s i))"
    using owns_block(1) [OF assms(1) file_inode_owns [OF assms(2)]] False by simp
  from blk_in_data [OF fs_invD(1) [OF assms(1)] this] show ?thesis
    using fs_invD(7) [OF assms(1)] assms(2)
    by (auto simp: content_def inode_inv_def inode_wf_def word_le_nat_alt intro!: length_read_at)
qed (simp add: content_def)

lemma content_Nil: "fs_inv s \<Longrightarrow> file_inode s i \<Longrightarrow> content s i = [] \<longleftrightarrow> i_size (inode_of s i) = 0"
  using length_content [of s i] by (metis length_0_conv unat_eq_0)

lemma truncate_refines:
  assumes inv: "fs_inv s" and i: "file_inode s i" "i_node_type (inode_of s i) = T_FILE"
  shows "abs_fs (truncate_effect i s) = a_truncate i (abs_fs s)"
proof (cases "i_size (inode_of s i) = 0")
  case True
  then have "node_at s i = Some (File [])" using i by (simp add: node_at_def content_def)
  with True show ?thesis
    by (simp add: truncate_effect_def a_truncate_def blocks_of_def fun_upd_idem abs_fs_def)
next
  case False
  let ?s = "truncate_effect i s" and ?b = "i_data_block (inode_of s i)"
  note ib = file_inode_bounds [OF i(1) fs_invD(1) [OF inv]]
  have ob: "nat ?b < length (free_blocks s)" "free_blocks s ! nat ?b = TAKEN"
    using owns_block [OF inv file_inode_owns [OF i(1)]] False by auto
  have tr: "?s = s\<lparr>free_blocks := (free_blocks s)[nat ?b := FREE],
      inode_table := (inode_table s)[nat i := (inode_of s i)\<lparr>i_size := 0\<rparr>]\<rparr>"
    using False by (simp add: truncate_effect_def)
  have io: "inode_of ?s j = (if j = i then (inode_of s i)\<lparr>i_size := 0\<rparr> else inode_of s j)" if "file_inode s j" for j
    using ib that unfolding tr by (auto simp: inode_of_def nth_list_update file_inode_def eq_nat_nat_iff)
  have "node_at ?s j = ((node_at s)(i \<mapsto> File [])) j" for j
  proof (cases "j = i")
    case True
    then show ?thesis using i io [OF i(1)] by (simp add: node_at_def content_def tr view_simps)
  next
    case j: False
    then have "node_at ?s j = node_at s j"
      using io by (intro node_keep [OF inv]) (simp_all add: tr view_simps)
    with j show ?thesis by simp
  qed
  moreover have "blocks_of (the (node_at s i)) = 1"
    using i False content_Nil [OF inv i(1)] by (simp add: node_at_def blocks_of_def)
  moreover have "handle_at ?s = handle_at s"
    by (simp add: fun_eq_iff handle_at_def is_handle_def handle_def tr)
  moreover have "dents ?s = dents s" using ib by (simp add: tr view_simps)
  ultimately show ?thesis
    using free_count_release [OF ob]
    by (intro abs_eqI [of _ s]) (auto simp: a_truncate_def tr)
qed

lemma open_refines:
  assumes inv: "fs_inv s" and p: "path_ok name"
  shows "map_prod id abs_fs (open_effect name mode s) = a_open name mode (abs_fs s)"
proof (cases "lookup s name")
  case None
  show ?thesis
  proof (cases "valid_pathname name \<and> has_flag mode TFS_O_CREAT")
    case True
    obtain r s' where ce: "create_effect (new_inode T_FILE) (base name) s = (r, s')" by fastforce
    have nm: "dir_map (dents s) (base name) = None" using None True by (simp add: lookup_def)
    have inv': "fs_inv s'"
      using create_inv [OF inv _ _ nm, of "new_inode T_FILE"] path_ok_base [OF p] True ce
      by (simp add: new_inode_def)
    have ac: "a_create (File []) (base name) (abs_fs s) = (r, abs_fs s')"
      using create_refines [OF inv _ _ nm, of "new_inode T_FILE" "File []"] path_ok_base [OF p] True ce
      by (simp add: new_inode_def)
    show ?thesis
    proof (cases r)
      case (Some i)
      with None True ce ac handle_refines [OF inv', of i 0] show ?thesis
        by (simp add: open_effect_def a_open_def map_prod_def case_prod_beta) (metis fst_conv snd_conv)
    qed (use None True ce ac in \<open>simp add: open_effect_def a_open_def\<close>)
  qed (use None in \<open>auto simp: open_effect_def a_open_def\<close>)
next
  case (Some i)
  have fi: "file_inode s i" using lookup_file_inode [OF inv Some] .
  show ?thesis
  proof (cases "i_node_type (inode_of s i) = T_LINK")
    case True
    with Some fi show ?thesis by (simp add: open_effect_def a_open_def node_at_def)
  next
    case False
    then have ty: "i_node_type (inode_of s i) = T_FILE"
      using fs_invD(7) [OF inv] fi
      by (cases "i_node_type (inode_of s i)") (auto simp: inode_inv_def inode_wf_def)
    let ?s = "if has_flag mode TFS_O_TRUNC then truncate_effect i s else s"
    let ?a = "if has_flag mode TFS_O_TRUNC then a_truncate i (abs_fs s) else abs_fs s"
    have inv': "fs_inv ?s" and abs: "abs_fs ?s = ?a"
      using truncate_inv [OF inv fi ty] inv truncate_refines [OF inv fi ty] by auto
    have fi': "file_inode ?s i" "i_node_type (inode_of ?s i) = T_FILE"
      using truncate_views [OF fs_invD(1) [OF inv] fi] fi ty by auto
    have size: "a_size ?a i = unat (i_size (inode_of ?s i))"
      using length_content [OF inv' fi'(1)] fi' unfolding abs [symmetric] by (simp add: a_size_def node_at_def)
    have "map_prod id abs_fs (handle_effect i off ?s) = a_handle i (unat off) ?a" for off
      using handle_refines [OF inv', of i off] abs by simp
    then have "map_prod id abs_fs (map_prod Returned id (handle_effect i off ?s)) =
        map_prod Returned id (a_handle i (unat off) ?a)" for off
      by (metis (no_types, lifting) map_prod.compositionality id_comp comp_id)
    with Some False ty fi size show ?thesis
      by (auto simp: open_effect_def a_open_def node_at_def Let_def)
  qed
qed

text \<open>The nodes after a directory entry is written and the link counter of one inode changes.\<close>

lemma put_dent_nodes:
  assumes inv: "fs_inv s" and k: "k < MAX_DIR_ENTRIES s" "length (fst e) = MAX_FILE_NAME"
    and s': "fs_params s' = fs_params s" "fs_data s' = fs_data (put_dent k e s)"
    and fi: "file_inode s' j = file_inode s j"
    and io: "file_inode s j \<Longrightarrow> i_node_type (inode_of s' j) = i_node_type (inode_of s j) \<and>
      i_size (inode_of s' j) = i_size (inode_of s j) \<and> i_data_block (inode_of s' j) = i_data_block (inode_of s j)"
  shows "node_at s' j = node_at s j"
proof (rule node_keep [OF inv s'(1) fi io])
  fix b assume "file_inode s j" "owns s j b"
  then show "same_block s s' b"
    using owns_block(1) [OF inv] owns_not_root [OF inv] fs_invD(1,4) [OF inv] k s'(2)
    by (intro same_block_put) (auto simp: file_inode_def)
qed

lemma link_refines:
  assumes inv: "fs_inv s" and p: "path_ok name"
  shows "map_prod id abs_fs (link_effect target name s) = a_link target name (abs_fs s)"
proof (cases "\<exists>i k. lookup s target = Some i \<and> lookup s name = None \<and> free_slot s = Some k \<and>
    valid_pathname name \<and> length (base name) < MAX_FILE_NAME \<and> i_node_type (inode_of s i) \<noteq> T_LINK")
  case False
  then show ?thesis
    by (auto simp: link_effect_def a_link_def node_at_def room_abs [OF inv] lookup_file_inode [OF inv]
        split: option.splits node.splits)
next
  case True
  then obtain i k where i: "lookup s target = Some i" "i_node_type (inode_of s i) \<noteq> T_LINK"
    and k: "free_slot s = Some k" and v: "valid_pathname name" "lookup s name = None" "length (base name) < MAX_FILE_NAME"
    by blast
  have fi: "file_inode s i" using lookup_file_inode [OF inv i(1)] .
  note ib = file_inode_bounds [OF fi fs_invD(1) [OF inv]] and I = fs_invD [OF inv]
  have good: "good_name (base name)" using path_ok_base [OF p v(1)] v(3) by (simp add: good_name_def)
  have nm: "dir_map (dents s) (base name) = None" using v by (simp add: lookup_def)
  let ?e = "(pad MAX_FILE_NAME (base name), i)"
  let ?s = "(put_dent k ?e s)\<lparr>inode_table := (inode_table s)[nat i :=
      (inode_of s i)\<lparr>i_links_count := i_links_count (inode_of s i) + 1\<rparr>]\<rparr>"
  have kb: "k < MAX_DIR_ENTRIES s" "length (fst ?e) = MAX_FILE_NAME"
    using free_slot_bound [OF k] good by (simp_all add: good_name_def)
  have "dents ?s = dents (put_dent k ?e s)"
    using ib by (intro dents_simps) (simp add: put_dent_views inode_table_0)
  then have names: "dir_map (dents ?s) = (dir_map (dents s))(base name \<mapsto> i)"
    using dir_map_add [OF good ib(8) nm] dir_add_slot [OF k] dents_put_dent [OF I(1,4) kb] ib by simp
  have io: "inode_of ?s j = (if j = i then (inode_of s i)\<lparr>i_links_count := i_links_count (inode_of s i) + 1\<rparr>
      else inode_of s j)" if "file_inode s j" for j
    using ib that by (auto simp: inode_of_def nth_list_update file_inode_def eq_nat_nat_iff)
  have "node_at ?s j = node_at s j" for j
    using io by (intro put_dent_nodes [OF inv kb]) (simp_all add: view_simps)
  then have "abs_fs ?s = (abs_fs s)\<lparr>a_names := (dir_map (dents s))(base name \<mapsto> i)\<rparr>"
    using names by (intro abs_eqI [of _ s]) (auto simp: fun_eq_iff handle_at_def is_handle_def handle_def)
  with i k v fi show ?thesis
    by (simp add: link_effect_def a_link_def node_at_def room_abs [OF inv])
qed

lemma abs_alloc_block:
  assumes inv: "fs_inv s" and b: "first_free (free_blocks s) = Some b"
    and len: "length xs \<le> unat (BLOCK_SIZE s)"
  shows "abs_fs (s\<lparr>free_blocks := (free_blocks s)[b := TAKEN],
      fs_data := write_at (blk_addr s (int b)) xs (fs_data s)\<rparr>) =
    (abs_fs s)\<lparr>a_free := free_count (free_blocks s) - 1\<rparr>" (is "abs_fs ?s = _")
proof -
  note bb = first_free_block [OF inv b]
  have "node_at ?s j = node_at s j" for j
  proof (rule node_keep [OF inv])
    fix c assume "file_inode s j" "owns s j c"
    then show "same_block s ?s c"
      using bb owns_block(1) [OF inv] len fs_invD(1) [OF inv]
      by (intro same_block_write [where off = 0 and c = "int b" and xs = xs]) auto
  qed (simp_all add: view_simps)
  moreover have "dents ?s = dents s"
    using blk_write_dents [OF fs_invD(1,4) [OF inv] bb(2,5), of 0 xs] len
    by (simp add: dents_def view_simps)
  ultimately show ?thesis
    using free_count_take [OF bb(1,3)]
    by (intro abs_eqI [of _ s]) (auto simp: fun_eq_iff handle_at_def is_handle_def handle_def)
qed

lemma sym_link_refines:
  assumes inv: "fs_inv s" and p: "path_ok name" and short: "short_target target"
  shows "map_prod id abs_fs (sym_link_effect target name s) = a_sym_link target name (abs_fs s)"
proof (cases "valid_pathname name \<and> lookup s target \<noteq> None \<and> lookup s name = None \<and>
    first_free (freeinode_ts s) \<noteq> None")
  case False
  then show ?thesis by (auto simp: sym_link_effect_def a_sym_link_def new_inode_abs [OF inv])
next
  case True
  then obtain j i where j: "lookup s target = Some j" and i: "first_free (freeinode_ts s) = Some i"
    and v: "valid_pathname name" "lookup s name = None" by blast
  note good = lookup_base_good [OF inv j] and nm = path_ok_base [OF p v(1)]
  show ?thesis
  proof (cases "first_free (free_blocks s)")
    case None
    with i j v abs_dead_inode [OF inv i] show ?thesis
      by (simp add: sym_link_effect_def a_sym_link_def new_inode_abs [OF inv] free_count_0)
  next
    case (Some b)
    note bb = first_free_block [OF inv Some]
    note st = stored_link [OF inv Some j short]
    define s1 where "s1 = s\<lparr>free_blocks := (free_blocks s)[b := TAKEN],
      fs_data := write_at (blk_addr s (int b)) (the target @ [0]) (fs_data s)\<rparr>"
    have inv1: "fs_inv s1"
      using inv_unowned_block [OF inv bb(2,4), of 0] st(1) by (simp add: s1_def)
    have abs1: "abs_fs s1 = (abs_fs s)\<lparr>a_free := free_count (free_blocks s) - 1\<rparr>"
      unfolding s1_def by (rule abs_alloc_block [OF inv Some st(1)])
    have nm1: "dir_map (dents s1) (base name) = None"
      using arg_cong [OF abs1, of a_names] v by (simp add: lookup_def)
    let ?ino = "(new_inode T_LINK)\<lparr>i_data_block := int b\<rparr>"
    have "the target = cname (read_at (blk_addr s1 (int b)) MAX_FILE_NAME (fs_data s1))"
      unfolding s1_def using link_at_path(1) [OF st(2)] good(2) by simp
    moreover have "valid_block_number s1 (int b)" "int b \<noteq> i_data_block (root_inode s1)"
      using bb(2,5) by (simp_all add: s1_def view_simps)
    ultimately have "map_prod id abs_fs (create_effect ?ino (base name) s1) =
        a_create (Link (the target)) (base name) (abs_fs s1)"
      using nm nm1 by (intro create_refines [OF inv1]) (simp_all add: new_inode_def)
    moreover obtain r s2 where ce: "create_effect ?ino (base name) s1 = (r, s2)" by fastforce
    ultimately have "a_create (Link (the target)) (base name)
        ((abs_fs s)\<lparr>a_free := free_count (free_blocks s) - 1\<rparr>) = (r, abs_fs s2)"
      using abs1 by simp
    with i j v Some ce free_count_take(2) [OF bb(1,3)] show ?thesis
      by (simp add: sym_link_effect_def a_sym_link_def new_inode_abs [OF inv] s1_def [symmetric]
          split: option.split)
  qed
qed

lemma free_count_delete:
  assumes inv: "fs_inv s" and fi: "file_inode s i"
  shows "free_count (if i_size (inode_of s i) > 0
      then (free_blocks s)[nat (i_data_block (inode_of s i)) := FREE] else free_blocks s) =
    free_count (free_blocks s) + blocks_of (the (node_at s i))"
proof (cases "i_size (inode_of s i) = 0")
  case True
  then show ?thesis using fi by (simp add: node_at_def blocks_of_def content_def)
next
  case False
  then have "nat (i_data_block (inode_of s i)) < length (free_blocks s)"
    "free_blocks s ! nat (i_data_block (inode_of s i)) = TAKEN"
    using owns_block [OF inv file_inode_owns [OF fi]] by auto
  moreover have "i_node_type (inode_of s i) \<noteq> T_LINK"
    using False fs_invD(7) [OF inv] fi by (auto simp: inode_inv_def inode_wf_def)
  ultimately show ?thesis
    using False fi content_Nil [OF inv fi] free_count_release
    by (simp add: node_at_def blocks_of_def word_gt_0)
qed

lemma abs_unlink_last:
  assumes inv: "fs_inv s" and nm: "dir_map (dents s) nm = Some i" and k: "k < MAX_DIR_ENTRIES s"
    and clr: "dir_clear nm (dents s) = Some ((dents s)[k := (replicate MAX_FILE_NAME 0, -1)])"
  shows "abs_fs ((put_dent k (replicate MAX_FILE_NAME 0, -1) s)\<lparr>
      free_blocks := (if i_size (inode_of s i) > 0
        then (free_blocks s)[nat (i_data_block (inode_of s i)) := FREE] else free_blocks s),
      freeinode_ts := (freeinode_ts s)[nat i := FREE]\<rparr>) =
    (abs_fs s)\<lparr>a_names := (dir_map (dents s))(nm := None), a_nodes := (node_at s)(i := None),
      a_free := free_count (free_blocks s) + blocks_of (the (node_at s i))\<rparr>" (is "abs_fs ?s = _")
proof -
  note I = fs_invD [OF inv] and C = clear_facts [OF inv nm k clr]
  have fi: "file_inode s i" using dir_map_file_inode [OF inv nm] .
  note ib = file_inode_bounds [OF fi I(1)]
  have fs: "file_inode ?s j \<longleftrightarrow> file_inode s j \<and> j \<noteq> i" for j
    using ib by (auto simp: file_inode_def nth_upd eq_nat_nat_iff split: if_splits)
  have "node_at ?s j = ((node_at s)(i := None)) j" for j
  proof (cases "j = i")
    case True
    then show ?thesis using fs by (simp add: node_at_def)
  next
    case False
    then have "node_at ?s j = node_at s j"
      using fs by (intro put_dent_nodes [OF inv k]) (simp_all add: view_simps)
    with False show ?thesis by simp
  qed
  then show ?thesis
    using dir_map_clear [OF I(6) C(2)] free_count_delete [OF inv fi]
    by (intro abs_eqI [of _ s]) (auto simp: fun_eq_iff handle_at_def is_handle_def handle_def view_simps)
qed

lemma abs_unlink_more:
  assumes inv: "fs_inv s" and nm: "dir_map (dents s) nm = Some i" and k: "k < MAX_DIR_ENTRIES s"
    and clr: "dir_clear nm (dents s) = Some ((dents s)[k := (replicate MAX_FILE_NAME 0, -1)])"
  shows "abs_fs ((put_dent k (replicate MAX_FILE_NAME 0, -1) s)\<lparr>inode_table := (inode_table s)[nat i :=
      (inode_of s i)\<lparr>i_links_count := i_links_count (inode_of s i) - 1\<rparr>]\<rparr>) =
    (abs_fs s)\<lparr>a_names := (dir_map (dents s))(nm := None)\<rparr>" (is "abs_fs ?s = _")
proof -
  note I = fs_invD [OF inv] and C = clear_facts [OF inv nm k clr]
  have fi: "file_inode s i" using dir_map_file_inode [OF inv nm] .
  note ib = file_inode_bounds [OF fi I(1)]
  have "dents ?s = dents (put_dent k (replicate MAX_FILE_NAME 0, -1) s)"
    using ib by (intro dents_simps) (simp add: put_dent_views inode_table_0)
  moreover have "inode_of ?s j = (if j = i then (inode_of s i)\<lparr>i_links_count := i_links_count (inode_of s i) - 1\<rparr>
      else inode_of s j)" if "file_inode s j" for j
    using ib that by (auto simp: inode_of_def nth_list_update file_inode_def eq_nat_nat_iff)
  then have "node_at ?s j = node_at s j" for j
    by (intro put_dent_nodes [OF inv k]) (simp_all add: view_simps)
  ultimately show ?thesis
    using dir_map_clear [OF I(6) C(2)]
    by (intro abs_eqI [of _ s]) (auto simp: fun_eq_iff handle_at_def is_handle_def handle_def)
qed

lemma unlink_refines:
  assumes inv: "fs_inv s"
  shows "map_prod id abs_fs (unlink_effect target s) = a_unlink target (abs_fs s)"
proof (cases "lookup s target")
  case None
  then show ?thesis by (simp add: unlink_effect_def a_unlink_def)
next
  case (Some i)
  note I = fs_invD [OF inv]
  have nm: "dir_map (dents s) (base target) = Some i"
    using Some by (simp add: lookup_def split: if_splits)
  have fi: "file_inode s i" using lookup_file_inode [OF inv Some] .
  obtain k where k: "find (\<lambda>k. live (dents s ! k) \<and> ename (dents s ! k) = base target)
      [0..<MAX_DIR_ENTRIES s] = Some k" "k < MAX_DIR_ENTRIES s"
    "dir_clear (base target) (dents s) = Some ((dents s)[k := (replicate MAX_FILE_NAME 0, -1)])"
    using nm by (rule clear_slot)
  note C = clear_facts [OF inv nm k(2,3)]
  have "i_links_count (inode_of s i) = 1 \<longleftrightarrow> i \<notin> ran ((dir_map (dents s))(base target := None))"
    using ran_dir_map [OF C(3)] dir_map_not_minus1 [OF nm] C(5) links_count(4) [OF inv fi]
      dir_map_clear [OF I(6) C(2)] by simp
  moreover have "\<not> opened s i" if "i_node_type (inode_of s i) = T_LINK"
    using that I(10) by (auto simp: opened_iff open_inv_def handle_wf_def)
  ultimately show ?thesis
    using Some k(1) abs_unlink_last [OF inv nm k(2,3)] abs_unlink_more [OF inv nm k(2,3)]
    by (auto simp: unlink_effect_def a_unlink_def handled_abs Let_def)
qed

lemma splice_read:
  assumes "p + n \<le> length m" "off \<le> n" "off + length xs \<le> k" "p + k \<le> length m" "n \<le> k"
  shows "read_at p (max n (off + length xs)) (write_at (p + off) xs m) = splice off xs (read_at p n m)"
proof (intro nth_equalityI)
  have len: "length (splice off xs (read_at p n m)) = max n (off + length xs)"
    using assms by (simp add: splice_def)
  show "length (read_at p (max n (off + length xs)) (write_at (p + off) xs m)) =
      length (splice off xs (read_at p n m))"
    using assms len by simp
  fix j
  assume "j < length (read_at p (max n (off + length xs)) (write_at (p + off) xs m))"
  then have j: "j < max n (off + length xs)" using assms by simp
  have "read_at p (max n (off + length xs)) (write_at (p + off) xs m) ! j =
      (if off \<le> j \<and> j < off + length xs then xs ! (j - off) else m ! (p + j))"
    using j assms by (auto simp: nth_read_at nth_write_at)
  also have "\<dots> = splice off xs (read_at p n m) ! j"
    using j assms by (auto simp: splice_def nth_append nth_read_at less_max_iff_disj)
  finally show "read_at p (max n (off + length xs)) (write_at (p + off) xs m) ! j =
      splice off xs (read_at p n m) ! j" .
qed

text \<open>A file grows in place: the abstract view of the update \<open>inv_grow\<close> is about.\<close>

lemma abs_grow:
  assumes inv: "fs_inv s" and i: "file_inode s i" "i_node_type (inode_of s i) = T_FILE"
    and b: "write_block s i = Some b" and off: "off \<le> unat (i_size (inode_of s i))"
    and fits: "off + length xs \<le> unat (BLOCK_SIZE s)"
    and sz: "unat sz = max (unat (i_size (inode_of s i))) (off + length xs)"
  shows "abs_fs (s\<lparr>free_blocks := (free_blocks s)[nat b := TAKEN],
      fs_data := write_at (blk_addr s b + off) xs (fs_data s),
      inode_table := (inode_table s)[nat i := (inode_of s i)\<lparr>i_size := sz, i_data_block := b\<rparr>]\<rparr>) =
    (abs_fs s)\<lparr>a_nodes := (node_at s)(i \<mapsto> File (splice off xs (content s i))),
      a_free := (if content s i = [] then free_count (free_blocks s) - 1 else free_count (free_blocks s))\<rparr>"
    (is "abs_fs ?s = _")
proof -
  note I = fs_invD [OF inv] and ib = file_inode_bounds [OF i(1) fs_invD(1) [OF inv]]
    and wb = write_block_facts [OF inv i(1) b]
  have ilen: "unat (i_size (inode_of s i)) \<le> unat (BLOCK_SIZE s)"
    using I(7) i(1) by (simp add: inode_inv_def inode_wf_def word_le_nat_alt)
  have nroot: "b \<noteq> i_data_block (root_inode s)"
    using wb(2) owns_root [OF I(3)] ib by blast
  have dt: "dents ?s = dents s"
    using blk_write_dents [OF I(1,4) wb(1) nroot fits] ib by (simp add: dents_def view_simps)
  have io: "inode_of ?s j = (if j = i then (inode_of s i)\<lparr>i_size := sz, i_data_block := b\<rparr> else inode_of s j)"
    if "file_inode s j" for j
    using ib that by (auto simp: inode_of_def nth_list_update file_inode_def eq_nat_nat_iff)
  have old: "content s i = read_at (blk_addr s b) (unat (i_size (inode_of s i))) (fs_data s)"
    using wb(3) by (cases "i_size (inode_of s i) = 0") (simp_all add: content_def)
  have "content ?s i = splice off xs (content s i)"
    unfolding old using io [OF i(1)] sz off fits ilen blk_in_data [OF I(1) wb(1)]
    by (simp add: content_def splice_read)
  then have "node_at ?s j = ((node_at s)(i \<mapsto> File (splice off xs (content s i)))) j" for j
  proof (cases "j = i")
    case j: False
    have "node_at ?s j = node_at s j"
    proof (rule node_keep [OF inv])
      fix c assume "file_inode s j" "owns s j c"
      then show "same_block s ?s c"
        using j wb(1,2) owns_block(1) [OF inv] fits I(1)
        by (intro same_block_write [where off = off and c = b and xs = xs]) auto
    qed (use io j in \<open>simp_all add: view_simps\<close>)
    with j show ?thesis by simp
  qed (use i io [OF i(1)] in \<open>simp add: node_at_def view_simps\<close>)
  moreover have "free_count (free_blocks ?s) =
      (if content s i = [] then free_count (free_blocks s) - 1 else free_count (free_blocks s))"
  proof (cases "i_size (inode_of s i) = 0")
    case True
    then obtain k where "first_free (free_blocks s) = Some k" "b = int k"
      using b by (auto simp: write_block_def)
    with True first_free_block [OF inv] show ?thesis
      using content_Nil [OF inv i(1)] free_count_take(1) by simp
  qed (use wb(3) content_Nil [OF inv i(1)] in simp)
  ultimately show ?thesis
    using dt by (intro abs_eqI [of _ s]) (auto simp: fun_eq_iff handle_at_def is_handle_def handle_def)
qed

lemma abs_move_handle:
  assumes inv: "fs_inv s" and h: "is_handle s fd"
  shows "abs_fs (s\<lparr>open_file_table := (open_file_table s)[nat fd := e]\<rparr>) =
    (abs_fs s)\<lparr>a_handles := (handle_at s)(fd \<mapsto> (of_inumber e, unat (of_offset e)))\<rparr>" (is "abs_fs ?s = ?a")
proof (rule abs_eqI [of _ s])
  show "a_nodes ?a = node_at ?s"
    by (intro ext, simp, rule node_keep [OF inv, symmetric]) (simp_all add: view_simps)
  have "nat fd < length (open_file_table s)" "0 \<le> fd" using handle_facts [OF inv h] by auto
  then show "a_handles ?a = handle_at ?s"
    using h by (auto simp: fun_eq_iff handle_at_def is_handle_def handle_def nth_list_update eq_nat_nat_iff)
qed (simp_all add: view_simps)

lemma write_refines_some:
  assumes inv: "fs_inv s" and h: "is_handle s fd" and inf: "in_file s fd" and len: "n \<le> length buffer"
  defines "e \<equiv> open_file_table s ! nat fd" and "c \<equiv> write_count s fd n"
  assumes c0: "c \<noteq> 0" and b: "write_block s (of_inumber e) = Some b"
  shows "abs_fs (snd (write_effect fd buffer n s)) =
    (abs_fs s)\<lparr>a_nodes := (node_at s)(of_inumber e \<mapsto>
        File (splice (unat (of_offset e)) (take c buffer) (content s (of_inumber e)))),
      a_free := (if content s (of_inumber e) = [] then free_count (free_blocks s) - 1 else free_count (free_blocks s)),
      a_handles := (handle_at s)(fd \<mapsto> (of_inumber e, unat (of_offset e) + c))\<rparr>"
proof -
  define off' where "off' = of_offset e + of_nat c"
  note hf = handle_facts [OF inv h, folded e_def] and wo = write_offset [OF inv h, of n, folded e_def c_def off'_def]
  let ?i = "of_inumber e" and ?xs = "take c buffer"
  let ?t = "s\<lparr>free_blocks := (free_blocks s)[nat b := TAKEN],
      fs_data := write_at (blk_addr s b + unat (of_offset e)) ?xs (fs_data s),
      inode_table := (inode_table s)[nat ?i := (inode_of s ?i)\<lparr>i_size := max (i_size (inode_of s ?i)) off',
        i_data_block := b\<rparr>]\<rparr>"
  note wb = write_block_facts [OF inv hf(3) b]
  have len: "length ?xs = c" using len by (simp add: c_def write_count_def)
  have fits: "unat (of_offset e) + length ?xs \<le> unat (BLOCK_SIZE s)"
    using wo len by (simp add: word_le_nat_alt)
  have off: "unat (of_offset e) \<le> unat (i_size (inode_of s ?i))"
    using inf by (simp add: in_file_def Let_def e_def [symmetric] word_le_nat_alt)
  have sz: "unat (max (i_size (inode_of s ?i)) off') = max (unat (i_size (inode_of s ?i))) (unat (of_offset e) + length ?xs)"
    using wo(1) len by (simp add: max_def word_le_nat_alt)
  have inv': "fs_inv ?t"
    using hf(6) wo c0 len sz unat_eq_0 [of "max (i_size (inode_of s ?i)) off'"]
    by (intro inv_grow [OF inv hf(3,4) wb(1,2) fits]) (auto simp: max_def)
  have "is_handle ?t fd" "handle_at ?t = handle_at s"
    using h by (simp_all add: is_handle_def handle_def handle_at_def fun_eq_iff)
  then have "abs_fs (?t\<lparr>open_file_table := (open_file_table s)[nat fd := e\<lparr>of_offset := off'\<rparr>]\<rparr>) =
      (abs_fs ?t)\<lparr>a_handles := (handle_at s)(fd \<mapsto> (?i, unat (of_offset e) + c))\<rparr>"
    using abs_move_handle [OF inv', of fd "e\<lparr>of_offset := off'\<rparr>"] wo(1) by simp
  with abs_grow [OF inv hf(3,4) b off fits sz] c0 b h show ?thesis
    by (simp add: write_effect_def Let_def e_def [symmetric] c_def [symmetric] off'_def [symmetric])
qed

lemma write_refines:
  assumes inv: "fs_inv s" and len: "n \<le> length buffer" and inf: "is_handle s fd \<Longrightarrow> in_file s fd"
  shows "map_prod id abs_fs (write_effect fd buffer n s) = a_write fd (take n buffer) (abs_fs s)"
proof (cases "is_handle s fd")
  case False
  then show ?thesis by (simp add: write_effect_def a_write_def handle_at_def)
next
  case h: True
  define e where "e = open_file_table s ! nat fd"
  define c where "c = write_count s fd n"
  note hf = handle_facts [OF inv h, folded e_def]
  have c: "c = min n (unat (BLOCK_SIZE s) - unat (of_offset e))" "c \<le> n"
    by (simp_all add: c_def write_count_def e_def)
  have nd: "node_at s (of_inumber e) = Some (File (content s (of_inumber e)))"
    using hf(3,4) by (simp add: node_at_def)
  have hd: "handle_at s fd = Some (of_inumber e, unat (of_offset e))"
    using h by (simp add: handle_at_def e_def)
  have ab: "a_write fd (take n buffer) (abs_fs s) =
    (if c = 0 then (0, abs_fs s)
     else if content s (of_inumber e) = [] \<and> free_count (free_blocks s) = 0 then (-1, abs_fs s)
     else (int c, (abs_fs s)\<lparr>a_nodes := (node_at s)(of_inumber e \<mapsto>
          File (splice (unat (of_offset e)) (take c buffer) (content s (of_inumber e)))),
        a_free := (if content s (of_inumber e) = [] then free_count (free_blocks s) - 1 else free_count (free_blocks s)),
        a_handles := (handle_at s)(fd \<mapsto> (of_inumber e, unat (of_offset e) + c))\<rparr>))"
    using len c by (simp add: a_write_def hd nd Let_def min_absorb1 c(1) [symmetric])
  have "write_block s (of_inumber e) = None \<longleftrightarrow> content s (of_inumber e) = [] \<and> free_count (free_blocks s) = 0"
    using content_Nil [OF inv hf(3)] by (simp add: write_block_def free_count_0)
  then show ?thesis
    using ab h write_refines_some [OF inv h inf [OF h] len, folded e_def c_def]
    by (cases "c = 0"; cases "write_block s (of_inumber e)")
      (auto simp: write_effect_def Let_def e_def [symmetric] c_def [symmetric])
qed

lemma read_refines:
  assumes inv: "fs_inv s" and inf: "is_handle s fd \<Longrightarrow> in_file s fd"
  shows "map_prod id (map_prod id abs_fs) (read_effect fd len s) = a_read fd len (abs_fs s)"
proof (cases "is_handle s fd")
  case False
  then show ?thesis by (simp add: read_effect_def a_read_def handle_at_def)
next
  case h: True
  define e where "e = open_file_table s ! nat fd"
  define c where "c = read_count s fd len"
  note hf = handle_facts [OF inv h, folded e_def]
  let ?i = "of_inumber e"
  have c: "c = min len (unat (i_size (inode_of s ?i)) - unat (of_offset e))"
    by (simp add: c_def read_count_def Let_def e_def)
  have off: "unat (of_offset e) \<le> unat (i_size (inode_of s ?i))"
    using inf [OF h] by (simp add: in_file_def Let_def e_def [symmetric] word_le_nat_alt)
  have "unat (i_size (inode_of s ?i)) \<le> unat (BLOCK_SIZE s)" using hf(6) by (simp add: word_le_nat_alt)
  then have oc: "unat (of_offset e + of_nat c) = unat (of_offset e) + c"
    using c off hf(7) unat_of_nat_size_t [of c] by (simp add: unat_word_ariths)
  have bytes: "read_at (blk_addr s (i_data_block (inode_of s ?i)) + unat (of_offset e)) c (fs_data s) =
      take len (drop (unat (of_offset e)) (content s ?i))"
    by (simp add: content_def read_at_def c drop_take min.commute add.commute)
  have "length (take len (drop (unat (of_offset e)) (content s ?i))) = c"
    using length_content [OF inv hf(3)] c by simp
  moreover have "node_at s ?i = Some (File (content s ?i))" "handle_at s fd = Some (?i, unat (of_offset e))"
    using hf(3,4) h by (simp_all add: node_at_def handle_at_def e_def)
  ultimately show ?thesis
    using h bytes oc abs_move_handle [OF inv h, of "e\<lparr>of_offset := of_offset e + of_nat c\<rparr>"]
    by (simp add: read_effect_def a_read_def Let_def e_def [symmetric] c_def [symmetric])
qed

end
