(* ===== verification/FS_Run.thy ===== *)
theory FS_Run
  imports FS_Spec
begin

text \<open>
  The recursion of \<open>tfs_open\<close> through symbolic links, copying from the host file system, and
  sequences of operations with the contract a caller has to keep.
\<close>

section \<open>Following symbolic links\<close>

definition link_target :: "fs_state \<Rightarrow> cstring option \<Rightarrow> cstring option" where
  "link_target s p =
     (case lookup s p of
        Some i \<Rightarrow> if i_node_type (inode_of s i) = T_LINK then Some (link_path s i) else None
      | None \<Rightarrow> None)"

text \<open>
  \<open>resolves tgt p q\<close>: following the links from \<open>p\<close>, where \<open>tgt\<close> gives the target of a
  link, ends at \<open>q\<close>, which is not a link; \<open>follow\<close> does it with a bound on the number of links.
\<close>

inductive resolves :: "(cstring option \<Rightarrow> cstring option) \<Rightarrow> cstring option \<Rightarrow> cstring option \<Rightarrow> bool"
  for tgt where
  resolves_stop: "tgt p = None \<Longrightarrow> resolves tgt p p"
| resolves_follow: "tgt p = Some t \<Longrightarrow> resolves tgt (Some t) q \<Longrightarrow> resolves tgt p q"

inductive_cases resolvesE: "resolves tgt p q"

fun follow :: "nat \<Rightarrow> (cstring option \<Rightarrow> cstring option) \<Rightarrow> cstring option \<Rightarrow> cstring option option" where
  "follow 0 tgt p = None"
| "follow (Suc n) tgt p = (case tgt p of None \<Rightarrow> Some p | Some t \<Rightarrow> follow n tgt (Some t))"

lemma follow_resolves: "follow n tgt p = Some q \<Longrightarrow> resolves tgt p q"
  by (induction n tgt p rule: follow.induct) (auto split: option.splits intro: resolves.intros)

lemma resolves_follows: "resolves tgt p q \<Longrightarrow> \<exists>n. follow n tgt p = Some q"
proof (induction rule: resolves.induct)
  case (resolves_stop p)
  then show ?case by (intro exI [of _ "Suc 0"]) simp
next
  case (resolves_follow p t q)
  then obtain n where "follow n tgt (Some t) = Some q" by blast
  with resolves_follow show ?case by (intro exI [of _ "Suc n"]) simp
qed

lemma follow_mono: "follow n tgt p = Some q \<Longrightarrow> n \<le> m \<Longrightarrow> follow m tgt p = Some q"
proof (induction n tgt p arbitrary: m rule: follow.induct)
  case (2 n tgt p)
  then obtain m' where "m = Suc m'" "n \<le> m'" by (cases m) auto
  with 2 show ?case by (auto split: option.splits)
qed simp

text \<open>A chain that ends passes through no link twice, so its length is bounded by the number of links.\<close>

definition hop :: "(cstring option \<Rightarrow> cstring option) \<Rightarrow> cstring option \<Rightarrow> cstring option" where
  "hop tgt p = (case tgt p of None \<Rightarrow> p | Some t \<Rightarrow> Some t)"

lemma resolves_hops:
  "resolves tgt p q \<Longrightarrow> \<exists>m. tgt ((hop tgt ^^ m) p) = None \<and> (\<forall>k<m. tgt ((hop tgt ^^ k) p) \<noteq> None) \<and>
     follow (Suc m) tgt p = Some q"
proof (induction rule: resolves.induct)
  case (resolves_stop p)
  then show ?case by (intro exI [of _ 0]) simp
next
  case (resolves_follow p t q)
  then obtain m where m: "tgt ((hop tgt ^^ m) (Some t)) = None" "\<forall>k<m. tgt ((hop tgt ^^ k) (Some t)) \<noteq> None"
    "follow (Suc m) tgt (Some t) = Some q" by blast
  have hop: "(hop tgt ^^ Suc k) p = (hop tgt ^^ k) (Some t)" for k
    using resolves_follow.hyps(1) by (simp add: funpow_swap1 hop_def)
  have "tgt ((hop tgt ^^ k) p) \<noteq> None" if "k < Suc m" for k
    using that m(2) hop resolves_follow.hyps(1) by (cases k) auto
  with m hop resolves_follow.hyps(1) show ?case by (intro exI [of _ "Suc m"]) simp
qed

lemma resolves_bound:
  assumes "resolves tgt p q" "finite {p. tgt p \<noteq> None}" "card {p. tgt p \<noteq> None} \<le> N"
  shows "follow (Suc N) tgt p = Some q"
proof -
  let ?g = "\<lambda>k. (hop tgt ^^ k) p"
  obtain m where m: "tgt (?g m) = None" "\<forall>k<m. tgt (?g k) \<noteq> None" "follow (Suc m) tgt p = Some q"
    using resolves_hops [OF assms(1)] by blast
  have ne: "?g i \<noteq> ?g j" if "i < j" "j \<le> m" for i j
  proof
    assume eq: "?g i = ?g j"
    have "?g (m - j + i) = ?g (m - j + j)" using eq by (simp only: funpow_add comp_def)
    then have "tgt (?g (m - j + i)) = None" using m(1) that by simp
    moreover have "m - j + i < m" using that by simp
    ultimately show False using m(2) by blast
  qed
  have "inj_on ?g {..<m}"
  proof (rule inj_onI)
    fix i j assume "i \<in> {..<m}" "j \<in> {..<m}" "?g i = ?g j"
    then show "i = j" using ne [of i j] ne [of j i] by (cases i j rule: linorder_cases) auto
  qed
  then have "card (?g ` {..<m}) = card {..<m}" by (rule card_image)
  moreover have "card (?g ` {..<m}) \<le> card {p. tgt p \<noteq> None}"
    using m(2) by (intro card_mono [OF assms(2)]) auto
  ultimately have "Suc m \<le> Suc N" using assms(3) by simp
  with m(3) show ?thesis by (rule follow_mono)
qed

lemma link_target_ok:
  assumes "fs_inv s" "link_target s p = Some t"
  shows "path_ok (Some t)" "valid_pathname (Some t)" "length t < MAX_FILE_NAME"
proof -
  obtain i where i: "lookup s p = Some i" "i_node_type (inode_of s i) = T_LINK" "t = link_path s i"
    using assms(2) by (auto simp: link_target_def split: option.splits if_splits)
  obtain u where "link_at s (i_data_block (inode_of s i)) u"
    using fs_invD(9) [OF assms(1)] lookup_file_inode [OF assms(1) i(1)] i(2) by (auto simp: link_inv_def)
  then have "t = slash # u" "good_name u" "length u + 2 \<le> MAX_FILE_NAME"
    using link_at_path(1) i(3) by (auto simp: link_path_def link_at_def)
  then show "path_ok (Some t)" "valid_pathname (Some t)" "length t < MAX_FILE_NAME"
    by (auto simp: path_ok_def valid_pathname_def good_name_def slash_def)
qed

lemma open_effect_stop:
  assumes "link_target s p = None \<or> has_flag mode TFS_O_CREAT"
  obtains r s' where "open_effect p mode s = (Returned r, s')"
proof -
  have "\<exists>r s'. open_effect p mode s = (Returned r, s')"
    using assms
    by (cases "lookup s p")
      (auto simp: open_effect_def link_target_def Let_def map_prod_def split: option.split prod.split if_splits)
  then show thesis using that by blast
qed

lemma open_effect_follow:
  "link_target s p = Some t \<Longrightarrow> \<not> has_flag mode TFS_O_CREAT \<Longrightarrow> open_effect p mode s = (Follow t, s)"
  by (auto simp: open_effect_def link_target_def split: option.splits if_splits)

lemma tfs_open_stop:
  assumes "fs_inv s" "path_ok p" "open_effect p mode s = (Returned r, s')"
  shows "tfs_open p mode s = Some (Ok (r, s'))"
  by (subst tfs_open.simps) (simp add: tfs_open_body_eq assms)

lemma tfs_open_resolves:
  assumes "resolves (link_target s) p q" "fs_inv s" "path_ok p" "\<not> has_flag mode TFS_O_CREAT"
    "open_effect q mode s = (Returned r, s')"
  shows "tfs_open p mode s = Some (Ok (r, s'))"
  using assms
proof (induction rule: resolves.induct)
  case (resolves_stop p)
  then show ?case by (intro tfs_open_stop)
next
  case (resolves_follow p t q)
  then show ?case
    using link_target_ok(1) [OF resolves_follow.prems(1) resolves_follow.hyps(1)]
    by (subst tfs_open.simps) (simp add: tfs_open_body_eq open_effect_follow)
qed

lemma resolves_ends: "resolves tgt p q \<Longrightarrow> tgt q = None"
  by (induction rule: resolves.induct)

lemma resolves_path_ok: "resolves (link_target s) p q \<Longrightarrow> fs_inv s \<Longrightarrow> path_ok p \<Longrightarrow> path_ok q"
  by (induction rule: resolves.induct) (auto dest: link_target_ok)

text \<open>Conversely, \<open>tfs_open\<close> returns only if the chain of links ends.\<close>

lemma tfs_open_returns:
  assumes "tfs_open p mode s = Some x" "fs_inv s" "path_ok p" "\<not> has_flag mode TFS_O_CREAT"
  shows "\<exists>q. resolves (link_target s) p q"
proof -
  have "fs_inv s \<longrightarrow> path_ok p \<longrightarrow> \<not> has_flag mode TFS_O_CREAT \<longrightarrow> (\<exists>q. resolves (link_target s) p q)"
  proof (rule tfs_open.raw_induct [OF _ assms(1)], intro impI)
    fix rec p mode s x
    assume rec: "\<And>p mode s x. rec p mode s = Some x \<Longrightarrow>
        fs_inv s \<longrightarrow> path_ok p \<longrightarrow> \<not> has_flag mode TFS_O_CREAT \<longrightarrow> (\<exists>q. resolves (link_target s) p q)"
      and body: "(case tfs_open_body p mode s of
          Ok (nx, s') \<Rightarrow> (case nx of Returned fd \<Rightarrow> Some (Ok (fd, s')) | Follow buffer \<Rightarrow> rec (Some buffer) mode s')
        | Abort \<Rightarrow> Some Abort | Undef \<Rightarrow> Some Undef | Deadlock \<Rightarrow> Some Deadlock) = Some x"
      and pre: "fs_inv s" "path_ok p" "\<not> has_flag mode TFS_O_CREAT"
    show "\<exists>q. resolves (link_target s) p q"
    proof (cases "link_target s p")
      case None
      then show ?thesis using resolves_stop [of "link_target s"] by blast
    next
      case (Some t)
      then have "rec (Some t) mode s = Some x"
        using body pre by (simp add: tfs_open_body_eq open_effect_follow)
      with rec pre link_target_ok [OF pre(1) Some] resolves_follow [of "link_target s", OF Some] show ?thesis by blast
    qed
  qed
  with assms(2-4) show ?thesis by blast
qed

section \<open>Copying a host file\<close>

definition copy_effect :: "byte list option \<Rightarrow> bool \<Rightarrow> cstring option \<Rightarrow> fs_state \<Rightarrow> int \<times> fs_state" where
  "copy_effect source close_fails dest s =
     (case source of
        None \<Rightarrow> (-1, s)
      | Some contents \<Rightarrow>
          if length contents > unat (BLOCK_SIZE s) then (-1, s)
          else
            (case open_effect dest (TFS_O_TRUNC OR TFS_O_CREAT) s of
               (Returned fd, s1) \<Rightarrow>
                 if fd = -1 then (-1, s1)
                 else
                   (case write_effect fd contents (length contents) s1 of
                      (r, s2) \<Rightarrow>
                        if r = -1 then (-1, snd (close_effect fd s2))
                        else if close_fails then (-1, s2) else close_effect fd s2)
             | (Follow _, s1) \<Rightarrow> (-1, s1)))"

lemma copy_mode: "has_flag (TFS_O_TRUNC OR TFS_O_CREAT) TFS_O_CREAT"
  by (simp add: has_flag_def TFS_O_TRUNC_def TFS_O_CREAT_def)

lemma close_result: "close_effect fd s = (r, s') \<Longrightarrow> r = 0 \<or> r = -1"
  by (auto simp: close_effect_def split: if_splits)

lemma copied_length:
  fixes contents :: "byte list"
  assumes "fs_inv s"
  defines "buf \<equiv> take (unat (BLOCK_SIZE s) + 1) contents"
  shows "unat (BLOCK_SIZE s + 1) = unat (BLOCK_SIZE s) + 1" "unat (BLOCK_SIZE s) < 2 ^ 32"
    "unat (of_nat (length buf) :: size_t) = length buf" "(of_nat (length buf) :: size_t) \<noteq> -1"
    "(of_nat (length buf) :: size_t) > BLOCK_SIZE s \<longleftrightarrow> length contents > unat (BLOCK_SIZE s)"
proof -
  show bs: "unat (BLOCK_SIZE s) < 2 ^ 32"
    using fs_invD(1) [OF assms(1)] by (simp add: shape_def params_ok_def)
  then show "unat (BLOCK_SIZE s + 1) = unat (BLOCK_SIZE s) + 1" by (simp add: unat_word_ariths)
  show ul: "unat (of_nat (length buf) :: size_t) = length buf"
    using bs by (intro unat_of_nat_size_t) (simp add: buf_def)
  show "(of_nat (length buf) :: size_t) \<noteq> -1"
  proof
    assume "(of_nat (length buf) :: size_t) = -1"
    then have "(of_nat (Suc (length buf)) :: size_t) = 0" by simp
    moreover have "unat (of_nat (Suc (length buf)) :: size_t) = Suc (length buf)"
      using bs by (intro unat_of_nat_size_t) (simp add: buf_def)
    ultimately show False by simp
  qed
  show "(of_nat (length buf) :: size_t) > BLOCK_SIZE s \<longleftrightarrow> length contents > unat (BLOCK_SIZE s)"
    using ul by (auto simp: word_less_nat_alt buf_def)
qed

lemma tfs_copy_eq:
  assumes inv: "fs_inv s" and p: "path_ok dest"
  shows "tfs_copy_from_external_fs source close_fails dest s = Some (Ok (copy_effect source close_fails dest s))"
proof (cases source)
  case None
  then show ?thesis by (simp add: tfs_copy_from_external_fs_def copy_effect_def)
next
  case (Some contents)
  note L = copied_length(1,2) [OF inv] copied_length(3-) [OF inv, of contents]
  note simps = tfs_copy_from_external_fs_def copy_effect_def state_block_size_def Let_def
  show ?thesis
  proof (cases "length contents > unat (BLOCK_SIZE s)")
    case True
    with Some L show ?thesis by (simp add: simps)
  next
    case False
    then have buf: "take (unat (BLOCK_SIZE s) + 1) contents = contents" by simp
    note L' = L [unfolded buf]
    let ?mode = "TFS_O_TRUNC OR TFS_O_CREAT"
    obtain fd s1 where op: "open_effect dest ?mode s = (Returned fd, s1)"
      using copy_mode by (rule open_effect_stop [OF disjI2])
    have inv1: "fs_inv s1" using open_inv_effect [OF inv p, of ?mode] op by simp
    have to: "tfs_open dest ?mode s = Some (Ok (fd, s1))" using tfs_open_stop [OF inv p op] .
    obtain r s2 where wr: "write_effect fd contents (length contents) s1 = (r, s2)" by fastforce
    have tw: "tfs_write fd contents (of_nat (length contents)) s1 = Ok (r, s2)"
      using tfs_write_eq [OF inv1, of "of_nat (length contents)" contents fd] wr L' False by simp
    have inv2: "fs_inv s2" using write_inv_effect [OF inv1, of "length contents" contents fd] wr by simp
    obtain q s3 where cl: "close_effect fd s2 = (q, s3)" by fastforce
    with tfs_close_eq [OF inv2] have tc: "tfs_close fd s2 = Ok (q, s3)" by simp
    show ?thesis
      using Some False buf L' op to wr tw cl tc close_result [OF cl] by (auto simp: simps)
  qed
qed

lemma copy_inv_effect:
  assumes inv: "fs_inv s" and p: "path_ok dest"
  shows "fs_inv (snd (copy_effect source close_fails dest s))"
proof (cases source)
  case (Some contents)
  let ?mode = "TFS_O_TRUNC OR TFS_O_CREAT"
  obtain fd s1 where op: "open_effect dest ?mode s = (Returned fd, s1)"
    using copy_mode by (rule open_effect_stop [OF disjI2])
  have inv1: "fs_inv s1" using open_inv_effect [OF inv p, of ?mode] op by simp
  obtain r s2 where wr: "write_effect fd contents (length contents) s1 = (r, s2)" by fastforce
  have inv2: "fs_inv s2" using write_inv_effect [OF inv1, of "length contents" contents fd] wr by simp
  then have "fs_inv (snd (close_effect fd s2))" by (rule close_inv)
  with Some inv inv1 inv2 op wr show ?thesis by (simp add: copy_effect_def)
qed (use inv in \<open>simp add: copy_effect_def\<close>)

section \<open>The whole interface as one system\<close>

datatype fs_op =
    Open_op "cstring option" tfs_file_mode_t
  | Close_op int
  | Write_op int "byte list" size_t
  | Read_op int size_t
  | Link_op "cstring option" "cstring option"
  | Sym_link_op "cstring option" "cstring option"
  | Unlink_op "cstring option"
  | Copy_op "byte list option" bool "cstring option"

datatype fs_reply = Code int | Data int "byte list"

definition code :: "(int \<times> fs_state) result \<Rightarrow> (fs_reply \<times> fs_state) result" where
  "code r = bindR r (\<lambda>(n, s). Ok (Code n, s))"

fun fs_call :: "fs_op \<Rightarrow> fs_state \<Rightarrow> (fs_reply \<times> fs_state) result option" where
  "fs_call (Open_op p mode) s = map_option code (tfs_open p mode s)"
| "fs_call (Close_op fd) s = Some (code (tfs_close fd s))"
| "fs_call (Write_op fd buffer n) s = Some (code (tfs_write fd buffer n s))"
| "fs_call (Read_op fd len) s = Some (bindR (tfs_read fd len s) (\<lambda>(n, xs, s). Ok (Data n xs, s)))"
| "fs_call (Link_op t p) s = Some (code (tfs_link t p s))"
| "fs_call (Sym_link_op t p) s = Some (code (tfs_sym_link t p s))"
| "fs_call (Unlink_op p) s = Some (code (tfs_unlink p s))"
| "fs_call (Copy_op src cf p) s = map_option code (tfs_copy_from_external_fs src cf p s)"

text \<open>The abstract calls. Opening follows at most as many links as there are names.\<close>

definition a_link_target :: "afs \<Rightarrow> cstring option \<Rightarrow> cstring option" where
  "a_link_target a p =
     (case a_lookup a p of
        Some i \<Rightarrow> (case a_nodes a i of Some (Link t) \<Rightarrow> Some t | _ \<Rightarrow> None)
      | None \<Rightarrow> None)"

definition a_follow :: "afs \<Rightarrow> cstring option \<Rightarrow> cstring option option" where
  "a_follow a p = follow (Suc (a_slots a)) (a_link_target a) p"

definition returned :: "open_next \<Rightarrow> int" where
  "returned nx = (case nx of Returned fd \<Rightarrow> fd | Follow _ \<Rightarrow> -1)"

definition a_tfs_open :: "cstring option \<Rightarrow> tfs_file_mode_t \<Rightarrow> afs \<Rightarrow> int \<times> afs" where
  "a_tfs_open p mode a =
     (if has_flag mode TFS_O_CREAT then map_prod returned id (a_open p mode a)
      else case a_follow a p of
        None \<Rightarrow> (-1, a)
      | Some q \<Rightarrow> map_prod returned id (a_open q mode a))"

definition a_copy :: "byte list option \<Rightarrow> bool \<Rightarrow> cstring option \<Rightarrow> afs \<Rightarrow> int \<times> afs" where
  "a_copy source close_fails dest a =
     (case source of
        None \<Rightarrow> (-1, a)
      | Some contents \<Rightarrow>
          if length contents > a_block a then (-1, a)
          else
            (case map_prod returned id (a_open dest (TFS_O_TRUNC OR TFS_O_CREAT) a) of
               (fd, a1) \<Rightarrow>
                 if fd = -1 then (-1, a1)
                 else
                   (case a_write fd contents a1 of
                      (r, a2) \<Rightarrow>
                        if r = -1 then (-1, snd (a_close fd a2))
                        else if close_fails then (-1, a2) else a_close fd a2)))"

fun fs_spec :: "fs_op \<Rightarrow> afs \<Rightarrow> fs_reply \<times> afs" where
  "fs_spec (Open_op p mode) a = map_prod Code id (a_tfs_open p mode a)"
| "fs_spec (Close_op fd) a = map_prod Code id (a_close fd a)"
| "fs_spec (Write_op fd buffer n) a = map_prod Code id (a_write fd (take (unat n) buffer) a)"
| "fs_spec (Read_op fd len) a = (case a_read fd (unat len) a of (n, xs, a') \<Rightarrow> (Data n xs, a'))"
| "fs_spec (Link_op t p) a = map_prod Code id (a_link t p a)"
| "fs_spec (Sym_link_op t p) a = map_prod Code id (a_sym_link t p a)"
| "fs_spec (Unlink_op p) a = map_prod Code id (a_unlink p a)"
| "fs_spec (Copy_op src cf p) a = map_prod Code id (a_copy src cf p a)"

text \<open>
  The caller's side: strings hold no NUL, a buffer is as long as the length passed with it, the
  target of a symbolic link leaves room for its terminator in a 40 byte buffer, a chain of links
  that is opened ends, and a handle is not used after its file was truncated below its offset.
\<close>

definition a_in_file :: "afs \<Rightarrow> int \<Rightarrow> bool" where
  "a_in_file a fd = (case a_handles a fd of None \<Rightarrow> True | Some (i, off) \<Rightarrow> off \<le> a_size a i)"

fun fs_allowed :: "fs_op \<Rightarrow> afs \<Rightarrow> bool" where
  "fs_allowed (Open_op p mode) a \<longleftrightarrow> path_ok p \<and> (has_flag mode TFS_O_CREAT \<or> a_follow a p \<noteq> None)"
| "fs_allowed (Close_op fd) a \<longleftrightarrow> True"
| "fs_allowed (Write_op fd buffer n) a \<longleftrightarrow> unat n \<le> length buffer \<and> unat n < 2 ^ 63 \<and> a_in_file a fd"
| "fs_allowed (Read_op fd len) a \<longleftrightarrow> a_in_file a fd"
| "fs_allowed (Link_op t p) a \<longleftrightarrow> path_ok t \<and> path_ok p"
| "fs_allowed (Sym_link_op t p) a \<longleftrightarrow> path_ok t \<and> path_ok p \<and> short_target t"
| "fs_allowed (Unlink_op p) a \<longleftrightarrow> path_ok p"
| "fs_allowed (Copy_op src cf p) a \<longleftrightarrow> path_ok p"

lemma a_link_target_abs: "fs_inv s \<Longrightarrow> a_link_target (abs_fs s) p = link_target s p"
  by (auto simp: a_link_target_def link_target_def node_at_def lookup_file_inode fun_eq_iff split: option.splits)

lemma a_in_file_abs: "fs_inv s \<Longrightarrow> a_in_file (abs_fs s) fd \<longleftrightarrow> (is_handle s fd \<longrightarrow> in_file s fd)"
  using handle_facts(3,4) [of s fd] length_content [of s]
  by (auto simp: a_in_file_def handle_at_def a_size_def node_at_def in_file_def Let_def word_le_nat_alt)

lemma open_call:
  assumes inv: "fs_inv s" and ok: "fs_allowed (Open_op p mode) (abs_fs s)"
  shows "\<exists>r s'. tfs_open p mode s = Some (Ok (r, s')) \<and> fs_inv s' \<and> a_tfs_open p mode (abs_fs s) = (r, abs_fs s')"
proof -
  have tgt: "a_link_target (abs_fs s) = link_target s" using a_link_target_abs [OF inv] by blast
  obtain q where q: "(has_flag mode TFS_O_CREAT \<and> q = p) \<or>
      (\<not> has_flag mode TFS_O_CREAT \<and> a_follow (abs_fs s) p = Some q)"
    using ok by auto
  have res: "resolves (link_target s) p q" if "\<not> has_flag mode TFS_O_CREAT"
    using q that by (auto simp: a_follow_def tgt simp del: follow.simps intro: follow_resolves)
  have qok: "path_ok q"
    using q ok res resolves_path_ok [OF _ inv, of p q] by auto
  obtain r s' where op: "open_effect q mode s = (Returned r, s')"
    using q res resolves_ends open_effect_stop [of s q mode] by metis
  have "tfs_open p mode s = Some (Ok (r, s'))"
    using q op ok tfs_open_stop [OF inv _ op] tfs_open_resolves [OF res inv _ _ op] by auto
  moreover have "fs_inv s'" using open_inv_effect [OF inv qok, of mode] op by simp
  moreover have "a_open q mode (abs_fs s) = (Returned r, abs_fs s')"
    using open_refines [OF inv qok, of mode] op by simp
  ultimately show ?thesis
    using q by (auto simp: a_tfs_open_def returned_def)
qed

lemma handle_offset:
  assumes "shape s" "handle_effect i off s = (fd, s')" "fd \<noteq> -1"
  shows "open_file_table s' ! nat fd = \<lparr>of_inumber = i, of_offset = off\<rparr>"
  using assms shape_lengths(5,6) [OF assms(1)]
  by (auto simp: handle_effect_def first_free_Some split: option.splits)

lemma open_offset:
  assumes inv: "fs_inv s" and p: "path_ok p" and op: "open_effect p mode s = (Returned fd, s')"
    and "\<not> has_flag mode TFS_O_APPEND" "fd \<noteq> -1"
  shows "of_offset (open_file_table s' ! nat fd) = 0"
proof (cases "lookup s p")
  case None
  then obtain i s1 where "create_effect (new_inode T_FILE) (base p) s = (Some i, s1)"
    "handle_effect i 0 s1 = (fd, s')"
    using op assms(5) by (auto simp: open_effect_def map_prod_def split: if_splits option.splits prod.splits)
  with handle_offset [OF create_effect_facts(1) [OF inv]] assms(5) show ?thesis by fastforce
next
  case (Some i)
  have fi: "file_inode s i" using lookup_file_inode [OF inv Some] .
  let ?s = "if has_flag mode TFS_O_TRUNC then truncate_effect i s else s"
  have "shape ?s" using fs_invD(1) [OF inv] by (simp add: truncate_effect_def)
  moreover have "handle_effect i 0 ?s = (fd, s')"
    using op Some assms(4,5)
    by (cases "handle_effect i 0 ?s") (auto simp: open_effect_def Let_def split: if_splits)
  ultimately show ?thesis using handle_offset assms(5) by fastforce
qed

lemma copy_no_append: "\<not> has_flag (TFS_O_TRUNC OR TFS_O_CREAT) TFS_O_APPEND"
  by (simp add: has_flag_def TFS_O_TRUNC_def TFS_O_CREAT_def TFS_O_APPEND_def)

lemma copy_call:
  assumes inv: "fs_inv s" and p: "path_ok dest"
  shows "map_prod id abs_fs (copy_effect source cf dest s) = a_copy source cf dest (abs_fs s)"
proof (cases source)
  case None
  then show ?thesis by (simp add: copy_effect_def a_copy_def)
next
  case (Some contents)
  let ?mode = "TFS_O_TRUNC OR TFS_O_CREAT"
  obtain fd s1 where op: "open_effect dest ?mode s = (Returned fd, s1)"
    using copy_mode by (rule open_effect_stop [OF disjI2])
  have inv1: "fs_inv s1" using open_inv_effect [OF inv p, of ?mode] op by simp
  have aop: "a_open dest ?mode (abs_fs s) = (Returned fd, abs_fs s1)"
    using open_refines [OF inv p, of ?mode] op by simp
  obtain r s2 where wr: "write_effect fd contents (length contents) s1 = (r, s2)" by fastforce
  have inv2: "fs_inv s2" using write_inv_effect [OF inv1, of "length contents" contents fd] wr by simp
  have awr: "a_write fd contents (abs_fs s1) = (r, abs_fs s2)" if "is_handle s1 fd \<longrightarrow> in_file s1 fd"
    using write_refines [OF inv1, of "length contents" contents fd] wr that by simp
  have "a_close fd (abs_fs s2) = map_prod id abs_fs (close_effect fd s2)"
    using close_refines [OF inv2] by simp
  moreover have "in_file s1 fd" if "fd \<noteq> -1"
    using open_offset [OF inv p op _ that] by (simp add: in_file_def Let_def copy_no_append)
  ultimately show ?thesis
    using Some op aop wr awr by (simp add: copy_effect_def a_copy_def returned_def split: prod.split)
qed


interpretation tfs: implements fs_inv abs_fs fs_call fs_spec fs_allowed
proof
  fix s x
  assume inv: "fs_inv s" and ok: "fs_allowed x (abs_fs s)"
  note inside = a_in_file_abs [OF inv]
  show "\<exists>r s'. fs_call x s = Some (Ok (r, s')) \<and> fs_inv s' \<and> fs_spec x (abs_fs s) = (r, abs_fs s')"
  proof (cases x)
    case (Open_op p mode)
    with open_call [OF inv, of p mode] ok show ?thesis by (auto simp: code_def)
  next
    case (Close_op fd)
    then show ?thesis
      using tfs_close_eq [OF inv, of fd] close_inv [OF inv, of fd] close_refines [OF inv, of fd, symmetric]
      by (cases "close_effect fd s") (auto simp: code_def)
  next
    case (Write_op fd buffer n)
    then have "unat n \<le> length buffer" "unat n < 2 ^ 63" "is_handle s fd \<Longrightarrow> in_file s fd"
      using ok inside by auto
    with Write_op show ?thesis
      using tfs_write_eq [OF inv, of n buffer fd] write_inv_effect [OF inv, of "unat n" buffer fd]
        write_refines [OF inv, of "unat n" buffer fd, symmetric]
      by (cases "write_effect fd buffer (unat n) s") (auto simp: code_def)
  next
    case (Read_op fd len)
    then have "is_handle s fd \<Longrightarrow> in_file s fd" using ok inside by auto
    with Read_op show ?thesis
      using tfs_read_eq [OF inv, of fd len] read_inv_effect [OF inv, of fd "unat len"]
        read_refines [OF inv, of fd "unat len", symmetric]
      by (cases "read_effect fd (unat len) s") (auto simp: code_def)
  next
    case (Link_op t p)
    then show ?thesis
      using ok tfs_link_eq [OF inv, of t p] link_inv_effect [OF inv, of p t] link_refines [OF inv, of p t, symmetric]
      by (cases "link_effect t p s") (auto simp: code_def)
  next
    case (Sym_link_op t p)
    then show ?thesis
      using ok tfs_sym_link_eq [OF inv, of t p] sym_link_inv_effect [OF inv, of p t]
        sym_link_refines [OF inv, of p t, symmetric]
      by (cases "sym_link_effect t p s") (auto simp: code_def)
  next
    case (Unlink_op p)
    then show ?thesis
      using ok tfs_unlink_eq [OF inv, of p] unlink_inv_effect [OF inv, of p] unlink_refines [OF inv, of p, symmetric]
      by (cases "unlink_effect p s") (auto simp: code_def)
  next
    case (Copy_op src cf p)
    then show ?thesis
      using ok tfs_copy_eq [OF inv, of p src cf] copy_inv_effect [OF inv, of p src cf] copy_call [OF inv, of p src cf, symmetric]
      by (cases "copy_effect src cf p s") (auto simp: code_def)
  qed
qed

end
