(* ===== verification/FS_Demo.thy ===== *)
theory FS_Demo
  imports FS_Run
begin

text \<open>
  A small file system (4 inodes, 4 blocks of 88 bytes, so 2 directory entries, and 2 handles) whose
  memory starts with arbitrary bytes, and the states it reaches by concrete calls. The properties
  are applied at these states.
\<close>

definition demo_params :: tfs_params where
  "demo_params = \<lparr>max_inode_count = 4, max_block_count = 4, max_open_files_count = 2, block_size = 88\<rparr>"

definition demo_allocs :: fs_allocs where
  "demo_allocs =
     \<lparr>a_inode_table = Some (replicate 4 \<lparr>i_node_type = T_LINK, i_links_count = 7, i_size = 9, i_data_block = 5\<rparr>),
      a_inode_rwl = True,
      a_freeinode_ts = Some (replicate 4 TAKEN),
      a_fs_data = Some (replicate 352 65),
      a_free_blocks = Some (replicate 4 TAKEN),
      a_open_file_table = Some (replicate 2 \<lparr>of_inumber = 3, of_offset = 4\<rparr>),
      a_free_open_file_entries = Some (replicate 2 TAKEN)\<rparr>"

definition blank :: fs_state where
  "blank =
     \<lparr>fs_params = \<lparr>max_inode_count = 0, max_block_count = 0, max_open_files_count = 0, block_size = 0\<rparr>,
      allocated = False, inode_table = [], freeinode_ts = [], fs_data = [], free_blocks = [],
      open_file_table = [], free_open_file_entries = [], locks_init = False, held = {}\<rparr>"

definition demo_fs :: fs_state where
  "demo_fs = (case tfs_init (Some demo_params) demo_allocs blank of Ok (_, s) \<Rightarrow> s | _ \<Rightarrow> blank)"

lemma demo_params_ok:
  "params_ok demo_params" "0 < unat (max_inode_count demo_params)" "0 < unat (max_block_count demo_params)"
  "allocs_ok demo_params demo_allocs" "\<not> allocated blank" "held blank = {}"
  by (simp_all add: params_ok_def demo_params_def allocs_ok_def demo_allocs_def blank_def)

lemma demo_fs_inv: "fs_inv demo_fs" "tfs_init (Some demo_params) demo_allocs blank = Ok (0, demo_fs)"
proof -
  obtain s where "tfs_init (Some demo_params) demo_allocs blank = Ok (0, s)" "fs_inv s"
    using init_inv [OF demo_params_ok] by blast
  then show "fs_inv demo_fs" "tfs_init (Some demo_params) demo_allocs blank = Ok (0, demo_fs)"
    unfolding demo_fs_def by simp_all
qed

section \<open>Calls that keep the contract, checked on the concrete state\<close>

fun callable :: "fs_op \<Rightarrow> fs_state \<Rightarrow> bool" where
  "callable (Open_op p mode) s \<longleftrightarrow>
     path_ok p \<and> (has_flag mode TFS_O_CREAT \<or> follow (Suc (MAX_DIR_ENTRIES s)) (link_target s) p \<noteq> None)"
| "callable (Close_op fd) s \<longleftrightarrow> True"
| "callable (Write_op fd buffer n) s \<longleftrightarrow>
     unat n \<le> length buffer \<and> n < 0x8000000000000000 \<and> (is_handle s fd \<longrightarrow> in_file s fd)"
| "callable (Read_op fd len) s \<longleftrightarrow> (is_handle s fd \<longrightarrow> in_file s fd)"
| "callable (Link_op t p) s \<longleftrightarrow> path_ok t \<and> path_ok p"
| "callable (Sym_link_op t p) s \<longleftrightarrow> path_ok t \<and> path_ok p \<and> short_target t"
| "callable (Unlink_op p) s \<longleftrightarrow> path_ok p"
| "callable (Copy_op src cf p) s \<longleftrightarrow> path_ok p"

lemma callable_allowed:
  assumes "fs_inv s"
  shows "callable x s \<longleftrightarrow> fs_allowed x (abs_fs s)"
proof -
  have "a_link_target (abs_fs s) = link_target s" using a_link_target_abs [OF assms] by blast
  then show ?thesis
    using a_in_file_abs [OF assms]
    by (cases x) (simp_all add: a_follow_def word_less_nat_alt del: follow.simps)
qed

fun callable_run :: "fs_op list \<Rightarrow> fs_state \<Rightarrow> bool" where
  "callable_run [] s = True"
| "callable_run (x # xs) s \<longleftrightarrow>
     callable x s \<and> (case fs_call x s of Some (Ok (_, s')) \<Rightarrow> callable_run xs s' | _ \<Rightarrow> False)"

fun after :: "fs_op list \<Rightarrow> fs_state \<Rightarrow> fs_state" where
  "after [] s = s"
| "after (x # xs) s = (case fs_call x s of Some (Ok (_, s')) \<Rightarrow> after xs s' | _ \<Rightarrow> s)"

lemma after_inv: "fs_inv s \<Longrightarrow> callable_run xs s \<Longrightarrow> fs_inv (after xs s)"
proof (induction xs arbitrary: s)
  case (Cons x xs)
  then obtain r s' where "fs_call x s = Some (Ok (r, s'))" "fs_inv s'"
    using tfs.step_spec [of s x] callable_allowed [of s x] by auto
  with Cons show ?case by simp
qed simp

definition path :: "string \<Rightarrow> cstring option" where
  "path t = Some (cstr t)"

text \<open>A file with two names, one of them open at offset 5 and again at offset 0.\<close>

definition demo_file :: fs_state where
  "demo_file = after
     [Open_op (path ''/f'') TFS_O_CREAT, Write_op 0 (cstr ''hello'') 5, Open_op (path ''/f'') 0] demo_fs"

lemma demo_file_inv: "fs_inv demo_file"
  unfolding demo_file_def by (rule after_inv [OF demo_fs_inv(1)]) code_simp

text \<open>A file and a symbolic link to it, nothing open.\<close>

definition demo_link :: fs_state where
  "demo_link = after
     [Open_op (path ''/f'') TFS_O_CREAT, Close_op 0, Sym_link_op (path ''/f'') (path ''/l'')] demo_fs"

lemma demo_link_inv: "fs_inv demo_link"
  unfolding demo_link_def by (rule after_inv [OF demo_fs_inv(1)]) code_simp

end
