(* ===== verification/FS_Theorems.thy ===== *)
theory FS_Theorems
  imports FS_Demo
begin

text \<open>
  The properties of TecnicoFS. The main one is that any sequence of calls that keeps the caller's
  contract returns and behaves like the abstract file system; the others state, on the tables and
  bytes of the code, what single operations guarantee, and where the code does not do what it
  means to.
\<close>

section \<open>Histories\<close>

definition a_init :: "tfs_params \<Rightarrow> afs" where
  "a_init p =
     \<lparr>a_names = Map.empty, a_nodes = Map.empty, a_handles = Map.empty,
      a_free = unat (max_block_count p) - 1, a_inodes = unat (max_inode_count p),
      a_slots = unat (block_size p) div sizeof_dir_entry, a_files = unat (max_open_files_count p),
      a_block = unat (block_size p)\<rparr>"

lemma init_abs:
  assumes "params_ok p" "0 < unat (max_inode_count p)" "0 < unat (max_block_count p)"
    "allocs_ok p al" "\<not> allocated s0" "held s0 = {}"
  obtains s where "tfs_init (Some p) al s0 = Ok (0, s)" "fs_inv s" "abs_fs s = a_init p"
proof -
  obtain s where s: "tfs_init (Some p) al s0 = Ok (0, s)" "fs_inv s" "fs_params s = p"
    "dir_map (dents s) = Map.empty" "\<And>i. \<not> file_inode s i" "\<And>k. \<not> handle s k"
    "free_blocks s = (replicate (unat (max_block_count p)) FREE)[0 := TAKEN]"
    using init_inv [OF assms] by blast
  have "free_count (replicate n FREE) = n" for n by (simp add: free_count_def)
  with assms(3) have "free_count (free_blocks s) = unat (max_block_count p) - 1"
    unfolding s(7) by (subst free_count_take) simp_all
  with s have "abs_fs s = a_init p"
    by (simp add: abs_fs_def a_init_def fun_eq_iff node_at_def handle_at_def is_handle_def MAX_DIR_ENTRIES_def)
  with s(1,2) that show thesis by blast
qed

text \<open>
  C9: From any initialised file system, whatever bytes its memory held before, every sequence of
  calls that keeps the contract runs to the end: no call aborts, deadlocks, recurses for ever or
  reads or writes outside its memory; the replies are those of the abstract file system, the final
  state represents the abstract final state, the invariant holds and no lock is held.
\<close>

theorem tfs_history_refines:
  assumes "params_ok p" "0 < unat (max_inode_count p)" "0 < unat (max_block_count p)"
    "allocs_ok p al" "\<not> allocated s0" "held s0 = {}" "allowed fs_allowed fs_spec xs (a_init p)"
  shows "\<exists>s rs s'. tfs_init (Some p) al s0 = Ok (0, s) \<and> run_ops fs_call xs s = Some (Ok (rs, s')) \<and>
    run_spec fs_spec xs (a_init p) = (rs, abs_fs s') \<and> fs_inv s' \<and> held s' = {}"
proof -
  obtain s where s: "tfs_init (Some p) al s0 = Ok (0, s)" "fs_inv s" "abs_fs s = a_init p"
    using init_abs [OF assms(1-6)] by blast
  with tfs.run_refines [of s xs] assms(7) show ?thesis by (metis fs_invD(2))
qed

theorem tfs_history_refines_witness:
  "\<exists>s rs s'. tfs_init (Some demo_params) demo_allocs blank = Ok (0, s) \<and>
    run_ops fs_call [Open_op (path ''/f'') TFS_O_CREAT, Write_op 0 (cstr ''hi'') 2, Close_op 0] s = Some (Ok (rs, s')) \<and>
    run_spec fs_spec [Open_op (path ''/f'') TFS_O_CREAT, Write_op 0 (cstr ''hi'') 2, Close_op 0] (a_init demo_params) =
      (rs, abs_fs s') \<and> fs_inv s' \<and> held s' = {}"
proof (rule tfs_history_refines [OF demo_params_ok])
  show "allowed fs_allowed fs_spec [Open_op (path ''/f'') TFS_O_CREAT, Write_op 0 (cstr ''hi'') 2, Close_op 0]
      (a_init demo_params)"
    by (simp add: path_def path_ok_def cstr_def has_flag_def TFS_O_CREAT_def a_tfs_open_def a_open_def a_lookup_def
        a_init_def a_in_file_def a_size_def a_create_def a_new_inode_def demo_params_def a_room_def a_handle_def
        a_new_handle_def valid_pathname_def slash_def base_def returned_def upt_conv_Cons)
qed

text \<open>
  C13: One call from any well-formed state: if the caller keeps the contract, the call returns, the
  new state is well-formed, and its reply and effect are those of the abstract call.
\<close>

theorem fs_call_refines:
  assumes "fs_inv s" "fs_allowed x (abs_fs s)"
  shows "\<exists>r s'. fs_call x s = Some (Ok (r, s')) \<and> fs_inv s' \<and> fs_spec x (abs_fs s) = (r, abs_fs s')"
  using assms by (rule tfs.step_spec)

theorem fs_call_refines_witness:
  "\<exists>r s'. fs_call (Unlink_op (path ''/l'')) demo_link = Some (Ok (r, s')) \<and> fs_inv s' \<and>
     fs_spec (Unlink_op (path ''/l'')) (abs_fs demo_link) = (r, abs_fs s')"
  by (rule fs_call_refines [OF demo_link_inv]) (simp add: path_def path_ok_def cstr_def)

section \<open>Opening\<close>

lemma links_bounded:
  assumes "fs_inv s"
  shows "finite {p. link_target s p \<noteq> None}" "card {p. link_target s p \<noteq> None} \<le> MAX_DIR_ENTRIES s"
proof -
  let ?L = "{p. link_target s p \<noteq> None}"
  have v: "p = Some (slash # base p)" "base p \<in> dom (dir_map (dents s))" if pL: "p \<in> ?L" for p
  proof -
    obtain i where i: "lookup s p = Some i" using pL by (cases "lookup s p") (auto simp: link_target_def)
    then show "p = Some (slash # base p)" "base p \<in> dom (dir_map (dents s))"
      using lookup_base_good(2,3) [OF assms i]
      by (auto simp: lookup_def valid_pathname_def split: if_splits option.splits)
  qed
  have inj: "inj_on base ?L"
  proof (rule inj_onI)
    fix p q assume pq: "p \<in> ?L" "q \<in> ?L" "base p = base q"
    show "p = q" by (rule trans [OF v(1) [OF pq(1)] trans [OF _ v(1) [OF pq(2), symmetric]]]) (simp add: pq(3))
  qed
  have sub: "base ` ?L \<subseteq> dom (dir_map (dents s))" using v by blast
  have fin: "finite (dom (dir_map (dents s)))" by (simp add: dir_map_def finite_dom_map_of)
  from finite_imageD [OF finite_subset [OF sub fin] inj] show "finite ?L" .
  have "card ?L \<le> card (dom (dir_map (dents s)))" using card_image [OF inj] card_mono [OF fin sub] by simp
  also have "\<dots> \<le> MAX_DIR_ENTRIES s"
    using card_dir_map [OF fs_invD(6) [OF assms]] length_filter_le [of live "dents s"] by simp
  finally show "card ?L \<le> MAX_DIR_ENTRIES s" .
qed

text \<open>
  C14: Opening without the create flag returns exactly when the chain of symbolic links that starts
  at the path ends, and following one link more than the directory has entries decides that.
\<close>

theorem tfs_open_terminates_iff:
  assumes "fs_inv s" "path_ok p" "\<not> has_flag mode TFS_O_CREAT"
  shows "tfs_open p mode s \<noteq> None \<longleftrightarrow> follow (Suc (MAX_DIR_ENTRIES s)) (link_target s) p \<noteq> None"
proof
  assume "tfs_open p mode s \<noteq> None"
  then obtain q where "resolves (link_target s) p q"
    using tfs_open_returns [OF _ assms] by blast
  then have "follow (Suc (MAX_DIR_ENTRIES s)) (link_target s) p = Some q"
    using links_bounded [OF assms(1)] by (rule resolves_bound)
  then show "follow (Suc (MAX_DIR_ENTRIES s)) (link_target s) p \<noteq> None" by simp
next
  assume "follow (Suc (MAX_DIR_ENTRIES s)) (link_target s) p \<noteq> None"
  then have "fs_allowed (Open_op p mode) (abs_fs s)"
    using assms callable_allowed [OF assms(1), of "Open_op p mode"] by simp
  with open_call [OF assms(1)] show "tfs_open p mode s \<noteq> None" by blast
qed

theorem tfs_open_terminates_iff_witness:
  "tfs_open (path ''/l'') 0 demo_link \<noteq> None"
proof -
  have "follow (Suc (MAX_DIR_ENTRIES demo_link)) (link_target demo_link) (path ''/l'') \<noteq> None" by code_simp
  then show ?thesis
    using tfs_open_terminates_iff [OF demo_link_inv, of "path ''/l''" 0]
    by (simp add: path_def path_ok_def cstr_def has_flag_def)
qed

text \<open>
  Two links that name each other are reachable with four calls of the interface, and then
  opening either of them never returns.
\<close>

definition demo_cycle :: fs_state where
  "demo_cycle = after
     [Open_op (path ''/f'') TFS_O_CREAT, Close_op 0, Sym_link_op (path ''/f'') (path ''/l''),
      Unlink_op (path ''/f''), Sym_link_op (path ''/l'') (path ''/f'')] demo_fs"

lemma demo_cycle_facts:
  "fs_inv demo_cycle" "link_target demo_cycle (path ''/l'') = path ''/f''"
  "link_target demo_cycle (path ''/f'') = path ''/l''"
proof -
  show "fs_inv demo_cycle"
    unfolding demo_cycle_def by (rule after_inv [OF demo_fs_inv(1)]) code_simp
  show "link_target demo_cycle (path ''/l'') = path ''/f''" by code_simp
  show "link_target demo_cycle (path ''/f'') = path ''/l''" by code_simp
qed

theorem tfs_open_link_cycle:
  "fs_inv demo_cycle \<and> tfs_open (path ''/l'') 0 demo_cycle = None \<and> tfs_open (path ''/f'') 0 demo_cycle = None"
proof -
  have ok: "path_ok (path t)" if "t = ''/l'' \<or> t = ''/f''" for t
    using that by (auto simp: path_def path_ok_def cstr_def)
  have "\<not> resolves (link_target demo_cycle) p q" if "p = path ''/l'' \<or> p = path ''/f''" for p q
  proof
    assume "resolves (link_target demo_cycle) p q"
    then show False using that
      by (induction rule: resolves.induct) (auto simp: demo_cycle_facts(2,3) [unfolded path_def] path_def)
  qed
  moreover have "\<not> has_flag 0 TFS_O_CREAT" by (simp add: has_flag_def)
  ultimately have "tfs_open (path t) 0 demo_cycle = None" if "t = ''/l'' \<or> t = ''/f''" for t
    using tfs_open_returns [OF _ demo_cycle_facts(1) ok [OF that]] that by (metis not_Some_eq)
  then show ?thesis using demo_cycle_facts(1) by simp
qed

section \<open>State layer\<close>

text \<open>
  Initialising a file system that is already initialised fails, but it has replaced the size
  parameters by then: the arrays keep the old sizes.
\<close>

theorem tfs_init_twice:
  assumes "fs_inv s"
  shows "tfs_init (Some p) al s = Ok (-1, s\<lparr>fs_params := p\<rparr>)"
  using fs_invD(1) [OF assms] by (simp add: tfs_init_def state_init_def Let_def shape_def)

theorem tfs_init_twice_witness:
  "tfs_init (Some tfs_default_params) demo_allocs demo_fs = Ok (-1, demo_fs\<lparr>fs_params := tfs_default_params\<rparr>)"
  by (rule tfs_init_twice [OF demo_fs_inv(1)])

text \<open>
  Data blocks are handed out without overlap and taken back: two allocations in a row give
  different blocks, and freeing the block just allocated restores the allocation table.
\<close>

theorem data_block_alloc_free:
  assumes "idle s" "data_block_alloc s = Ok (int j, s1)"
  shows "(\<forall>k s2. data_block_alloc s1 = Ok (int k, s2) \<longrightarrow> j \<noteq> k) \<and>
    (\<exists>s2. data_block_free (int j) s1 = Ok (0, s2) \<and> idle s2 \<and>
      (\<forall>k<length (free_blocks s). (free_blocks s2 ! k = TAKEN) = (free_blocks s ! k = TAKEN)))"
  using block_table.alloc_distinct [OF assms] block_table.alloc_release [OF assms] by metis

theorem data_block_alloc_free_witness:
  "\<exists>s1 s2. data_block_alloc demo_fs = Ok (1, s1) \<and> data_block_free 1 s1 = Ok (0, s2) \<and> idle s2"
proof -
  have "(case data_block_alloc demo_fs of Ok (r, _) \<Rightarrow> r = 1 | _ \<Rightarrow> False)" by code_simp
  then obtain s1 where s1: "data_block_alloc demo_fs = Ok (int 1, s1)" by (auto split: result.splits)
  have "idle demo_fs" using fs_invD [OF demo_fs_inv(1)] by (simp add: idle_def)
  from data_block_alloc_free [OF this s1] s1 show ?thesis by auto
qed

end
