(* ===== verification/FS_Files.thy ===== *)
theory FS_Files
  imports FS_Demo
begin

text \<open>
  Properties of file contents and handles: writing and reading, copying from the host, truncation,
  and the handles that outlive it.
\<close>

section \<open>Contents\<close>

lemma drop_splice: "off \<le> length c \<Longrightarrow> take (length xs) (drop off (splice off xs c)) = xs"
  by (simp add: splice_def)

text \<open>
  C15: What one handle writes, another handle of the same file that stands at the same offset reads
  back: the same number of bytes and the same bytes.
\<close>

theorem tfs_write_then_read:
  assumes inv: "fs_inv s" and n: "unat n \<le> length buffer" "unat n < 2 ^ 63"
    and h: "handle_at s fd = Some (i, off)" "handle_at s fd' = Some (i, off)" "fd \<noteq> fd'" "in_file s fd"
    and w: "tfs_write fd buffer n s = Ok (r, s1)" "0 < r"
  shows "\<exists>s2. tfs_read fd' (of_int r) s1 = Ok (r, take (nat r) buffer, s2) \<and> r \<le> int (unat n)"
proof -
  have we: "write_effect fd buffer (unat n) s = (r, s1)" using tfs_write_eq [OF inv n] w by simp
  have inv1: "fs_inv s1" using write_inv_effect [OF inv n(1), of fd] we by simp
  have aw: "a_write fd (take (unat n) buffer) (abs_fs s) = (r, abs_fs s1)"
    using write_refines [OF inv n(1), of fd] we h(4) by simp
  then obtain c where c: "node_at s i = Some (File c)" and r: "r = int (min (unat n) (unat (BLOCK_SIZE s) - off))"
    and s1: "node_at s1 = (node_at s)(i \<mapsto> File (splice off (take (nat r) buffer) c))"
      "handle_at s1 = (handle_at s)(fd \<mapsto> (i, off + nat r))"
    using w(2) n(1) h(1)
    by (auto simp: a_write_def Let_def abs_fs_def min_absorb2 split: if_splits option.splits node.splits)
  have off: "off \<le> length c"
    using h(1,4) c length_content [OF inv, of i]
    by (auto simp: handle_at_def node_at_def in_file_def Let_def word_le_nat_alt split: if_splits)
  have bytes: "take (nat r) (drop off (splice off (take (nat r) buffer) c)) = take (nat r) buffer"
    using drop_splice [OF off, of "take (nat r) buffer"] r n(1) by (simp add: min_absorb2)
  have h1: "handle_at s1 fd' = Some (i, off)" using s1(2) h(2,3) by simp
  have "off \<le> length (splice off (take (nat r) buffer) c)" using off by (simp add: splice_def)
  then have "a_in_file (abs_fs s1) fd'" using s1 h1 by (simp add: a_in_file_def a_size_def)
  then have inf: "is_handle s1 fd' \<Longrightarrow> in_file s1 fd'" using a_in_file_abs [OF inv1] by simp
  have len: "unat (of_int r :: size_t) = nat r"
    using r n(2) unat_of_nat_size_t [of "nat r"] by simp
  obtain m xs s2 where re: "read_effect fd' (nat r) s1 = (m, xs, s2)" by (rule prod_cases3)
  have read: "tfs_read fd' (of_int r) s1 = Ok (m, xs, s2)"
    using tfs_read_eq [OF inv1 inf] len re by simp
  have "a_read fd' (nat r) (abs_fs s1) = (m, xs, abs_fs s2)"
    using read_refines [OF inv1 inf, of "nat r"] re by simp
  then have "(int (length ys), ys) = (m, xs)"
    if "ys = take (nat r) (drop off (splice off (take (nat r) buffer) c))" for ys
    unfolding that using s1(1) h1 by (auto simp: a_read_def Let_def)
  from this [OF bytes [symmetric]] have "m = int (length (take (nat r) buffer))" "xs = take (nat r) buffer"
    by auto
  moreover have "int (length (take (nat r) buffer)) = r" using r n(1) by simp
  moreover have "r \<le> int (unat n)" unfolding r by (rule of_nat_mono [OF min.cobounded1])
  ultimately show ?thesis using read by simp
qed

definition demo_two :: fs_state where
  "demo_two = after [Open_op (path ''/f'') TFS_O_CREAT, Open_op (path ''/f'') 0] demo_fs"

definition demo_two_check :: "fs_state \<Rightarrow> bool" where
  "demo_two_check s \<longleftrightarrow>
     handle_at s 0 = Some (1, 0) \<and> handle_at s 1 = Some (1, 0) \<and> in_file s 0 \<and>
     (case tfs_write 0 (cstr ''yo'') 2 s of Ok (r, _) \<Rightarrow> r = 2 | _ \<Rightarrow> False)"

lemma demo_two_facts: "fs_inv demo_two" "demo_two_check demo_two"
proof -
  show "fs_inv demo_two"
    unfolding demo_two_def by (rule after_inv [OF demo_fs_inv(1)]) code_simp
qed code_simp

theorem tfs_write_then_read_witness:
  "\<exists>s1 s2. tfs_write 0 (cstr ''yo'') 2 demo_two = Ok (2, s1) \<and> tfs_read 1 2 s1 = Ok (2, cstr ''yo'', s2)"
proof -
  note c = demo_two_facts(2) [unfolded demo_two_check_def]
  then obtain s1 where "tfs_write 0 (cstr ''yo'') 2 demo_two = Ok (2, s1)"
    by (auto split: result.splits)
  with c tfs_write_then_read [OF demo_two_facts(1), of 2 "cstr ''yo''" 0 1 0 1 2 s1]
  show ?thesis by (auto simp: cstr_def)
qed

text \<open>
  \<open>tfs_write\<close> reports an error exactly when the handle is not open or when the file is empty,
  there is something to write and no data block is left; the state is then unchanged. Otherwise it
  reports how much of the request fits the block, and never more than was asked.
\<close>

theorem tfs_write_result:
  assumes inv: "fs_inv s" and n: "unat n \<le> length buffer" "unat n < 2 ^ 63"
  shows "\<exists>r s'. tfs_write fd buffer n s = Ok (r, s') \<and>
    (case handle_at s fd of
       None \<Rightarrow> r = -1 \<and> s' = s
     | Some (i, off) \<Rightarrow>
         let c = min (unat n) (unat (BLOCK_SIZE s) - off) in
         if c \<noteq> 0 \<and> i_size (inode_of s i) = 0 \<and> (\<forall>k<length (free_blocks s). free_blocks s ! k = TAKEN)
         then r = -1 \<and> s' = s else r = int c)"
proof -
  obtain r s' where we: "write_effect fd buffer (unat n) s = (r, s')" by fastforce
  then have "tfs_write fd buffer n s = Ok (r, s')" using tfs_write_eq [OF inv n] by simp
  moreover have wb: "i_size (inode_of s i) = 0 \<and> (\<forall>k<length (free_blocks s). free_blocks s ! k = TAKEN) \<longleftrightarrow>
      write_block s i = None" for i
    by (simp add: write_block_def first_free_None)
  ultimately show ?thesis
    using we unfolding wb write_effect_def handle_at_def Let_def write_count_def
    by (cases "write_block s (of_inumber (open_file_table s ! nat fd))") (auto split: if_splits)
qed

theorem tfs_write_result_witness:
  "\<exists>r s'. tfs_write 5 [] 0 demo_file = Ok (r, s') \<and> r = -1 \<and> s' = demo_file"
proof -
  have "handle_at demo_file 5 = None" by code_simp
  with tfs_write_result [OF demo_file_inv, of 0 "[]" 5] show ?thesis by auto
qed

lemma a_handle_new:
  "a_handle i off a = (fd, a') \<Longrightarrow> fd \<noteq> -1 \<Longrightarrow>
     a' = a\<lparr>a_handles := (a_handles a)(fd \<mapsto> (i, off))\<rparr> \<and> a_handles a fd = None"
  by (auto simp: a_handle_def a_new_handle_def find_upt_Some split: option.splits)

lemma a_open_empty:
  assumes "a_open p (TFS_O_TRUNC OR TFS_O_CREAT) a = (Returned fd, a1)" "fd \<noteq> -1"
  obtains i where "a_lookup a1 p = Some i" "a_nodes a1 i = Some (File [])"
    "a_handles a1 = (a_handles a)(fd \<mapsto> (i, 0))" "a_handles a fd = None" "a_block a1 = a_block a"
proof -
  have flags: "has_flag (TFS_O_TRUNC OR TFS_O_CREAT) TFS_O_TRUNC"
    "has_flag (TFS_O_TRUNC OR TFS_O_CREAT) TFS_O_CREAT" "\<not> has_flag (TFS_O_TRUNC OR TFS_O_CREAT) TFS_O_APPEND"
    by (simp_all add: has_flag_def TFS_O_TRUNC_def TFS_O_CREAT_def TFS_O_APPEND_def)
  show thesis
  proof (cases "a_lookup a p")
    case None
    then obtain i a0 where v: "valid_pathname p" and cr: "a_create (File []) (base p) a = (Some i, a0)"
      and h: "a_handle i 0 a0 = (fd, a1)"
      using assms flags by (auto simp: a_open_def map_prod_def split: if_splits option.splits prod.splits)
    from cr have "a_names a0 (base p) = Some i" "a_nodes a0 i = Some (File [])" "a_handles a0 = a_handles a"
      "a_block a0 = a_block a"
      by (auto simp: a_create_def split: option.splits if_splits)
    with a_handle_new [OF h assms(2)] v show thesis by (intro that [of i]) (auto simp: a_lookup_def)
  next
    case (Some i)
    then have h: "a_handle i 0 (a_truncate i a) = (fd, a1)"
      using assms flags
      by (auto simp: a_open_def Let_def map_prod_def split: if_splits option.splits prod.splits node.splits)
    from a_handle_new [OF h assms(2)] Some show thesis
      by (intro that [of i]) (auto simp: a_lookup_def a_truncate_def split: if_splits)
  qed
qed

text \<open>
  A successful copy from the host file system leaves a file at the destination whose contents
  are exactly the contents of the host file, and the handle used for it is closed again.
\<close>

theorem tfs_copy_contents:
  assumes inv: "fs_inv s" and p: "path_ok dest"
    and c: "tfs_copy_from_external_fs (Some contents) close_fails dest s = Some (Ok (0, s'))"
  shows "\<exists>i. lookup s' dest = Some i \<and> node_at s' i = Some (File contents) \<and> handle_at s' = handle_at s"
proof -
  have "copy_effect (Some contents) close_fails dest s = (0, s')"
    using tfs_copy_eq [OF inv p] c by simp
  then have ac: "a_copy (Some contents) close_fails dest (abs_fs s) = (0, abs_fs s')"
    using copy_call [OF inv p, of "Some contents" close_fails] by simp
  obtain nx a1 where "a_open dest (TFS_O_TRUNC OR TFS_O_CREAT) (abs_fs s) = (nx, a1)" by fastforce
  with ac obtain fd r a2 where fit: "length contents \<le> a_block (abs_fs s)"
    and op: "a_open dest (TFS_O_TRUNC OR TFS_O_CREAT) (abs_fs s) = (Returned fd, a1)" "fd \<noteq> -1"
    and wr: "a_write fd contents a1 = (r, a2)" "r \<noteq> -1" and cl: "a_close fd a2 = (0, abs_fs s')"
    by (cases nx) (auto simp: a_copy_def returned_def split: if_splits prod.splits)
  obtain i where i: "a_lookup a1 dest = Some i" "a_nodes a1 i = Some (File [])"
    "a_handles a1 = (handle_at s)(fd \<mapsto> (i, 0))" "handle_at s fd = None" "a_block a1 = a_block (abs_fs s)"
    using a_open_empty [OF op] by auto
  have a2: "a_lookup a2 dest = Some i \<and> a_nodes a2 i = Some (File contents) \<and> (a_handles a2)(fd := None) = handle_at s"
    using wr i fit by (auto simp: a_write_def Let_def splice_def a_lookup_def fun_upd_idem split: if_splits)
  with cl have ab: "abs_fs s' = a2\<lparr>a_handles := handle_at s\<rparr>" by (auto simp: a_close_def split: if_splits)
  have "dir_map (dents s') = a_names a2" using arg_cong [OF ab, of a_names] by simp
  moreover have "node_at s' = a_nodes a2" using arg_cong [OF ab, of a_nodes] by simp
  moreover have "handle_at s' = handle_at s" using arg_cong [OF ab, of a_handles] by simp
  ultimately show ?thesis using a2 by (auto simp: lookup_def a_lookup_def split: if_splits)
qed

theorem tfs_copy_contents_witness:
  "\<exists>s' i. tfs_copy_from_external_fs (Some (cstr ''abc'')) False (path ''/f'') demo_fs = Some (Ok (0, s')) \<and>
     lookup s' (path ''/f'') = Some i \<and> node_at s' i = Some (File (cstr ''abc''))"
proof -
  have "case tfs_copy_from_external_fs (Some (cstr ''abc'')) False (path ''/f'') demo_fs of
      Some (Ok (r, _)) \<Rightarrow> r = 0 | _ \<Rightarrow> False" by code_simp
  then obtain s' where
    c: "tfs_copy_from_external_fs (Some (cstr ''abc'')) False (path ''/f'') demo_fs = Some (Ok (0, s'))"
    by (auto split: option.splits result.splits)
  have "path_ok (path ''/f'')" by (simp add: path_def path_ok_def cstr_def)
  with tfs_copy_contents [OF demo_fs_inv(1) _ c] c show ?thesis by blast
qed

text \<open>
  Closing a handle ends it: closing it again, writing and reading through it all fail and change
  nothing.
\<close>

theorem tfs_close_ends:
  assumes "fs_inv s" "tfs_close fd s = Ok (0, s')" "unat n \<le> length buffer" "unat n < 2 ^ 63"
  shows "tfs_close fd s' = Ok (-1, s') \<and> tfs_write fd buffer n s' = Ok (-1, s') \<and>
    tfs_read fd len s' = Ok (-1, [], s')"
proof -
  have ce: "close_effect fd s = (0, s')" using tfs_close_eq [OF assms(1)] assms(2) by simp
  then have inv: "fs_inv s'" using close_inv [OF assms(1), of fd] by simp
  have "\<not> is_handle s' fd"
    using ce by (auto simp: close_effect_def is_handle_def handle_def split: if_splits)
  then show ?thesis
    using tfs_close_eq [OF inv] tfs_write_eq [OF inv assms(3,4)] tfs_read_eq [OF inv, of fd len]
    by (simp add: close_effect_def write_effect_def read_effect_def)
qed

theorem tfs_close_ends_witness:
  "\<exists>s'. tfs_close 0 demo_file = Ok (0, s') \<and> tfs_close 0 s' = Ok (-1, s') \<and> tfs_read 0 7 s' = Ok (-1, [], s')"
proof -
  have "case tfs_close 0 demo_file of Ok (r, _) \<Rightarrow> r = 0 | _ \<Rightarrow> False" by code_simp
  then obtain s' where c: "tfs_close 0 demo_file = Ok (0, s')" by (auto split: result.splits)
  with tfs_close_ends [OF demo_file_inv c, of 0 "[]" 7] show ?thesis by simp
qed

text \<open>
  C26: A file truncated through one handle leaves another handle behind its end. Reading there
  computes the number of bytes left as a \<open>size_t\<close> that wraps around, so the call delivers bytes
  of a block the file no longer owns instead of reporting the end of the file; asking for more
  reads past the end of the block array.
\<close>

definition demo_stale :: fs_state where
  "demo_stale = after
     [Open_op (path ''/f'') TFS_O_CREAT, Write_op 0 (cstr ''hello'') 5, Open_op (path ''/f'') TFS_O_TRUNC] demo_fs"

definition demo_stale_check :: "fs_state \<Rightarrow> bool" where
  "demo_stale_check s \<longleftrightarrow>
     handle_at s 0 = Some (1, 5) \<and> node_at s 1 = Some (File []) \<and>
     (case tfs_read 0 3 s of Ok (n, xs, _) \<Rightarrow> n = 3 \<and> xs = [65, 65, 65] | _ \<Rightarrow> False) \<and>
     (case tfs_read 0 1000 s of Undef \<Rightarrow> True | _ \<Rightarrow> False)"


end
