(* ===== verification/FS_Links.thy ===== *)
theory FS_Links
  imports FS_Demo
begin

text \<open>
  Properties of names: hard links and their counter, removal, symbolic links, and the directory as
  bytes.
\<close>

definition demo_closed :: fs_state where
  "demo_closed = after [Open_op (path ''/f'') TFS_O_CREAT, Close_op 0] demo_fs"

definition demo_closed_check :: "fs_state \<Rightarrow> bool" where
  "demo_closed_check s \<longleftrightarrow>
     lookup s (path ''/f'') = Some 1 \<and> \<not> opened s 1 \<and>
     (case tfs_link (path ''/f'') (path ''/g'') s of Ok (r, _) \<Rightarrow> r = 0 | _ \<Rightarrow> False) \<and>
     (case tfs_sym_link (path ''/f'') (path ''/g'') s of Ok (r, _) \<Rightarrow> r = 0 | _ \<Rightarrow> False)"

lemma demo_closed_facts: "fs_inv demo_closed" "demo_closed_check demo_closed"
proof -
  show "fs_inv demo_closed"
    unfolding demo_closed_def by (rule after_inv [OF demo_fs_inv(1)]) code_simp
qed code_simp

section \<open>Hard links\<close>

lemma refs_card:
  assumes "wf_dir es" "i \<noteq> -1"
  shows "refs es i = card {nm. dir_map es nm = Some i}"
proof -
  have eq: "filter (\<lambda>e. snd e = i) es = filter (\<lambda>e. snd e = i) (filter live es)"
    using assms(2) by (auto simp: live_def intro!: filter_cong)
  have "distinct (map ename (filter (\<lambda>e. snd e = i) es))"
    using wf_dir_distinct [OF assms(1)] unfolding eq by (rule distinct_map_filter)
  then have "card (set (map ename (filter (\<lambda>e. snd e = i) es))) = refs es i"
    using distinct_card by (fastforce simp: refs_def)
  moreover have "set (map ename (filter (\<lambda>e. snd e = i) es)) = {nm. dir_map es nm = Some i}"
    using assms(2) by (auto simp: dir_map_Some [OF assms(1)] live_def)
  ultimately show ?thesis by simp
qed



lemma tfs_link_done:
  assumes inv: "fs_inv s" and p: "path_ok target" "path_ok name"
    and l: "tfs_link target name s = Ok (0, s1)" and i: "lookup s target = Some i"
  shows "fs_inv s1" "valid_pathname name" "lookup s name = None"
    "dir_map (dents s1) = (dir_map (dents s))(base name \<mapsto> i)" "node_at s1 = node_at s" "handle_at s1 = handle_at s"
proof -
  have le: "link_effect target name s = (0, s1)" using tfs_link_eq [OF inv p] l by simp
  show "fs_inv s1" using link_inv_effect [OF inv p(2), of target] le by simp
  have al: "a_link target name (abs_fs s) = (0, abs_fs s1)"
    using link_refines [OF inv p(2), of target] le by simp
  then show "valid_pathname name" "lookup s name = None"
    using i by (auto simp: a_link_def split: option.splits node.splits if_splits)
  have ab: "abs_fs s1 = (abs_fs s)\<lparr>a_names := (dir_map (dents s))(base name \<mapsto> i)\<rparr>"
    using al i by (auto simp: a_link_def split: option.splits node.splits if_splits)
  show "dir_map (dents s1) = (dir_map (dents s))(base name \<mapsto> i)" using arg_cong [OF ab, of a_names] by simp
  show "node_at s1 = node_at s" using arg_cong [OF ab, of a_nodes] by simp
  show "handle_at s1 = handle_at s" using arg_cong [OF ab, of a_handles] by simp
qed

lemma tfs_unlink_keeps_file:
  assumes inv: "fs_inv s" and p: "path_ok target" and i: "lookup s target = Some i" and closed: "\<not> opened s i"
    and other: "i \<in> ran ((dir_map (dents s))(base target := None))"
  obtains s' where "tfs_unlink target s = Ok (0, s')" "fs_inv s'" "node_at s' = node_at s"
    "dir_map (dents s') = (dir_map (dents s))(base target := None)"
proof -
  obtain r s' where ue: "unlink_effect target s = (r, s')" by fastforce
  have "r = 0" and ab: "abs_fs s' = (abs_fs s)\<lparr>a_names := (dir_map (dents s))(base target := None)\<rparr>"
    using unlink_refines [OF inv, of target] ue i closed other by (auto simp: a_unlink_def Let_def handled_abs)
  show thesis
  proof (rule that)
    show "tfs_unlink target s = Ok (0, s')" using tfs_unlink_eq [OF inv p] ue \<open>r = 0\<close> by simp
    show "fs_inv s'" using unlink_inv_effect [OF inv, of target] ue by simp
    show "node_at s' = node_at s" using arg_cong [OF ab, of a_nodes] by simp
    show "dir_map (dents s') = (dir_map (dents s))(base target := None)" using arg_cong [OF ab, of a_names] by simp
  qed
qed

text \<open>
  C16: A hard link is a second name of the same file. Removing the first name afterwards leaves the
  file with its contents and its link counter under the new name: linking and unlinking renames.
\<close>

theorem tfs_link_unlink_renames:
  assumes inv: "fs_inv s" and p: "path_ok target" "path_ok name"
    and l: "tfs_link target name s = Ok (0, s1)" and i: "lookup s target = Some i" and closed: "\<not> opened s i"
  shows "\<exists>s2. tfs_unlink target s1 = Ok (0, s2) \<and> lookup s2 name = Some i \<and> lookup s2 target = None \<and>
    node_at s2 i = node_at s i \<and> i_links_count (inode_of s2 i) = i_links_count (inode_of s i)"
proof -
  note L = tfs_link_done [OF inv p l i]
  have vt: "valid_pathname target" and nt: "dir_map (dents s) (base target) = Some i"
    using i by (auto simp: lookup_def split: if_splits)
  have nn: "dir_map (dents s) (base name) = None" using L(2,3) by (simp add: lookup_def)
  then have ne: "base name \<noteq> base target" using nt by auto
  have "lookup s1 target = Some i" "\<not> opened s1 i" "i \<in> ran ((dir_map (dents s1))(base target := None))"
    using L(4,6) ne vt nt closed by (auto simp: lookup_def ran_def simp flip: handled_abs)
  then obtain s2 where s2: "tfs_unlink target s1 = Ok (0, s2)" "fs_inv s2" "node_at s2 = node_at s1"
    "dir_map (dents s2) = (dir_map (dents s1))(base target := None)"
    using tfs_unlink_keeps_file [OF L(1) p(1)] by blast
  have fi: "file_inode s i" "file_inode s2 i"
    using lookup_file_inode [OF inv i] s2(3) L(5) by (auto simp: node_at_def fun_eq_iff split: if_splits)
  let ?A = "{nm. dir_map (dents s) nm = Some i}"
  have fin: "finite ?A" by (rule finite_subset [OF _ finite_dom_map_of]) (auto simp: dir_map_def)
  have "card (insert (base name) (?A - {base target})) = Suc (card (?A - {base target}))"
    using fin nn by (intro card_insert_disjoint) auto
  also have "\<dots> = card ?A" using fin nt by (intro card_Suc_Diff1) auto
  finally have "card (insert (base name) (?A - {base target})) = card ?A" .
  moreover have "{nm. dir_map (dents s2) nm = Some i} = insert (base name) (?A - {base target})"
    using L(4) s2(4) ne by auto
  ultimately have "unat (i_links_count (inode_of s2 i)) = unat (i_links_count (inode_of s i))"
    using links_count(1) [OF inv fi(1)] links_count(1) [OF s2(2) fi(2)]
      refs_card [OF fs_invD(6) [OF inv]] refs_card [OF fs_invD(6) [OF s2(2)]] lookup_not_minus1 [OF inv i] by simp
  then have "i_links_count (inode_of s2 i) = i_links_count (inode_of s i)" by (simp add: word_unat_eq_iff)
  with s2 L(2,4,5) ne vt show ?thesis by (auto simp: lookup_def)
qed

theorem tfs_link_unlink_renames_witness:
  "\<exists>s1 s2. tfs_link (path ''/f'') (path ''/g'') demo_closed = Ok (0, s1) \<and> tfs_unlink (path ''/f'') s1 = Ok (0, s2) \<and>
     lookup s2 (path ''/g'') = Some 1 \<and> lookup s2 (path ''/f'') = None"
proof -
  note c = demo_closed_facts(2) [unfolded demo_closed_check_def]
  then obtain s1 where s1: "tfs_link (path ''/f'') (path ''/g'') demo_closed = Ok (0, s1)"
    by (auto split: result.splits)
  have ok: "path_ok (path ''/f'')" "path_ok (path ''/g'')" by (simp_all add: path_def path_ok_def cstr_def)
  from tfs_link_unlink_renames [OF demo_closed_facts(1) ok s1, of 1] c s1 show ?thesis by auto
qed

text \<open>
  A file that is open cannot be removed: \<open>tfs_unlink\<close> fails and changes nothing, also when the
  file has other names.
\<close>

theorem tfs_unlink_open_refused:
  assumes "fs_inv s" "path_ok p" "lookup s p = Some i" "handle_at s fd = Some (i, off)"
  shows "tfs_unlink p s = Ok (-1, s)"
proof -
  have op: "opened s i" using assms(4) by (simp flip: handled_abs) blast
  then have "i_node_type (inode_of s i) \<noteq> T_LINK"
    using fs_invD(10) [OF assms(1)] by (auto simp: opened_iff open_inv_def handle_wf_def)
  with op assms show ?thesis by (simp add: tfs_unlink_eq unlink_effect_def)
qed

theorem tfs_unlink_open_refused_witness:
  "tfs_unlink (path ''/f'') demo_file = Ok (-1, demo_file)"
proof (rule tfs_unlink_open_refused [OF demo_file_inv])
  show "lookup demo_file (path ''/f'') = Some 1" by code_simp
  show "handle_at demo_file 0 = Some (1, 5)" by code_simp
qed (simp add: path_def path_ok_def cstr_def)

section \<open>Symbolic links\<close>

text \<open>
  Creating a symbolic link and removing it again restores all names and files but not the free
  space: the data block of the link is never given back.
\<close>

theorem sym_link_block_leak:
  assumes inv: "fs_inv s" and p: "path_ok target" "path_ok name" "short_target target"
    and l: "tfs_sym_link target name s = Ok (0, s1)"
  shows "\<exists>s2. tfs_unlink name s1 = Ok (0, s2) \<and> dir_map (dents s2) = dir_map (dents s) \<and> node_at s2 = node_at s \<and>
    handle_at s2 = handle_at s \<and> free_count (free_blocks s2) + 1 = free_count (free_blocks s)"
proof -
  have le: "sym_link_effect target name s = (0, s1)" using tfs_sym_link_eq [OF inv p(1,2)] l by simp
  have inv1: "fs_inv s1" using sym_link_inv_effect [OF inv p(2,3)] le by simp
  have "a_sym_link target name (abs_fs s) = (0, abs_fs s1)"
    using sym_link_refines [OF inv p(2,3)] le by simp
  then obtain i where v: "valid_pathname name" and new: "lookup s name = None" and free: "0 < free_count (free_blocks s)"
    and i: "a_new_inode (abs_fs s) = Some i"
    and ab: "abs_fs s1 = (abs_fs s)\<lparr>a_free := free_count (free_blocks s) - 1,
      a_names := (dir_map (dents s))(base name \<mapsto> int i), a_nodes := (node_at s)(int i \<mapsto> Link (the target))\<rparr>"
    by (auto simp: a_sym_link_def a_create_def a_new_inode_def a_room_def split: if_splits option.splits)
  have nm: "dir_map (dents s) (base name) = None" using new v by (simp add: lookup_def)
  have ni: "node_at s (int i) = None" using i by (auto simp: a_new_inode_def find_Some_iff)
  then have fresh: "int i \<notin> ran (dir_map (dents s))"
    using dir_map_file_inode [OF inv] by (auto simp: ran_def node_at_def split: if_splits)
  have closed: "\<not> opened s (int i)"
    using ni fs_invD(10) [OF inv] by (auto simp: opened_iff open_inv_def handle_wf_def node_at_def)
  have names1: "dir_map (dents s1) = (dir_map (dents s))(base name \<mapsto> int i)" using arg_cong [OF ab, of a_names] by simp
  have nodes1: "node_at s1 = (node_at s)(int i \<mapsto> Link (the target))" using arg_cong [OF ab, of a_nodes] by simp
  have hand1: "handle_at s1 = handle_at s" using arg_cong [OF ab, of a_handles] by simp
  have free1: "free_count (free_blocks s1) = free_count (free_blocks s) - 1" using arg_cong [OF ab, of a_free] by simp
  obtain r s2 where ue: "unlink_effect name s1 = (r, s2)" by fastforce
  have "lookup s1 name = Some (int i)" using v names1 by (simp add: lookup_def)
  moreover have "\<not> opened s1 (int i)" using closed hand1 by (simp flip: handled_abs)
  ultimately have "r = 0" and ab2: "abs_fs s2 = (abs_fs s1)\<lparr>a_names := dir_map (dents s), a_nodes := node_at s,
      a_free := free_count (free_blocks s1)\<rparr>"
    using unlink_refines [OF inv1, of name] ue names1 nodes1 nm ni fresh
    by (auto simp: a_unlink_def Let_def handled_abs fun_upd_idem blocks_of_def)
  have "tfs_unlink name s1 = Ok (0, s2)" using tfs_unlink_eq [OF inv1 p(2)] ue \<open>r = 0\<close> by simp
  moreover have "dir_map (dents s2) = dir_map (dents s)" using arg_cong [OF ab2, of a_names] by simp
  moreover have "node_at s2 = node_at s" using arg_cong [OF ab2, of a_nodes] by simp
  moreover have "handle_at s2 = handle_at s" using arg_cong [OF ab2, of a_handles] hand1 by simp
  moreover have "free_count (free_blocks s2) + 1 = free_count (free_blocks s)"
    using arg_cong [OF ab2, of a_free] free1 free by simp
  ultimately show ?thesis by blast
qed

theorem sym_link_block_leak_witness:
  "\<exists>s1 s2. tfs_sym_link (path ''/f'') (path ''/g'') demo_closed = Ok (0, s1) \<and> tfs_unlink (path ''/g'') s1 = Ok (0, s2) \<and>
     node_at s2 = node_at demo_closed \<and> free_count (free_blocks s2) + 1 = free_count (free_blocks demo_closed)"
proof -
  note c = demo_closed_facts(2) [unfolded demo_closed_check_def]
  then obtain s1 where s1: "tfs_sym_link (path ''/f'') (path ''/g'') demo_closed = Ok (0, s1)"
    by (auto split: result.splits)
  have ok: "path_ok (path ''/f'')" "path_ok (path ''/g'')" "short_target (path ''/f'')"
    by (simp_all add: path_def path_ok_def cstr_def short_target_def)
  from sym_link_block_leak [OF demo_closed_facts(1) ok s1] s1 show ?thesis by auto
qed

text \<open>
  C27: A symbolic link to a file whose name has the full 39 characters can be created, but opening
  it copies a path of 40 characters and its terminator to a buffer of 40 bytes.
\<close>

definition long_name :: cstring where
  "long_name = slash # replicate 39 120"

definition demo_long :: fs_state where
  "demo_long = after
     [Open_op (Some long_name) TFS_O_CREAT, Close_op 0, Sym_link_op (Some long_name) (path ''/l'')] demo_fs"


section \<open>The directory block\<close>

text \<open>
  On the bytes of the directory block, an entry that \<open>add_dir_entry\<close> reports as added is found
  by \<open>find_in_dir\<close> under its name with its inumber, and every other name is found as before.
\<close>

theorem add_dir_entry_found:
  assumes "dir_wf s" "good_name nm" "good_name m" "int32_range i" "i \<noteq> -1"
    "find_in_dir ROOT_DIR_INUM nm s = Ok (-1)" "add_dir_entry ROOT_DIR_INUM nm i s = Ok (0, s')"
  shows "find_in_dir ROOT_DIR_INUM m s' = (if m = nm then Ok i else find_in_dir ROOT_DIR_INUM m s)"
  using assms root_dir.find_absent [of s nm] root_dir.add_then_find [of s nm m i s'] by simp

lemma inv_dir_wf: "fs_inv s \<Longrightarrow> dir_wf s"
  using fs_invD by (simp add: dir_wf_def)

theorem add_dir_entry_found_witness:
  "\<exists>s'. add_dir_entry ROOT_DIR_INUM (cstr ''g'') 3 demo_closed = Ok (0, s') \<and>
     find_in_dir ROOT_DIR_INUM (cstr ''g'') s' = Ok 3 \<and> find_in_dir ROOT_DIR_INUM (cstr ''f'') s' = Ok 1"
proof -
  have "(case add_dir_entry ROOT_DIR_INUM (cstr ''g'') 3 demo_closed of Ok (r, _) \<Rightarrow> r = 0 | _ \<Rightarrow> False)" by code_simp
  then obtain s' where s': "add_dir_entry ROOT_DIR_INUM (cstr ''g'') 3 demo_closed = Ok (0, s')"
    by (auto split: result.splits)
  have f: "find_in_dir ROOT_DIR_INUM (cstr ''g'') demo_closed = Ok (-1)"
    "find_in_dir ROOT_DIR_INUM (cstr ''f'') demo_closed = Ok 1" by code_simp+
  have g: "good_name (cstr ''g'')" "good_name (cstr ''f'')" "cstr ''f'' \<noteq> cstr ''g''"
    by (simp_all add: good_name_def cstr_def)
  note add = add_dir_entry_found [OF inv_dir_wf [OF demo_closed_facts(1)] g(1) _ _ _ f(1) s']
  show ?thesis
    using s' add [OF g(1)] add [OF g(2)] f(2) g(3) by (auto simp: int32_range_def)
qed

text \<open>
  Clearing an entry makes room again: after \<open>clear_dir_entry\<close> the old name is not found any
  more and a further name can be added and is found, even if the directory was full.
\<close>

theorem clear_dir_entry_reuse:
  assumes "dir_wf s" "find_in_dir ROOT_DIR_INUM nm s = Ok i" "i \<noteq> -1" "good_name nm"
    "good_name m" "find_in_dir ROOT_DIR_INUM m s = Ok (-1)" "int32_range j" "j \<noteq> -1"
  shows "\<exists>s1 s2. clear_dir_entry ROOT_DIR_INUM nm s = Ok (0, s1) \<and> find_in_dir ROOT_DIR_INUM nm s1 = Ok (-1) \<and>
    add_dir_entry ROOT_DIR_INUM m j s1 = Ok (0, s2) \<and> find_in_dir ROOT_DIR_INUM m s2 = Ok j"
proof -
  have nm: "dir_map (dents s) nm = Some i"
    using root_dir.find_names [OF assms(1,4)] assms(2,3) by (auto split: option.splits)
  have m: "dir_map (dents s) m = None" using root_dir.find_absent [OF assms(1,5)] assms(6) by simp
  obtain s1 s2 where "clear_dir_entry ROOT_DIR_INUM nm s = Ok (0, s1)" "add_dir_entry ROOT_DIR_INUM m j s1 = Ok (0, s2)"
    "find_in_dir ROOT_DIR_INUM m s2 = Ok j"
    using root_dir.clear_makes_room [OF assms(1) nm assms(5) _ m] assms(7,8) by blast
  moreover from this(1) have "find_in_dir ROOT_DIR_INUM nm s1 = Ok (-1)"
    using root_dir.clear_then_find [OF assms(1) nm assms(4)] by fastforce
  ultimately show ?thesis by blast
qed

theorem clear_dir_entry_reuse_witness:
  "\<exists>s1 s2. clear_dir_entry ROOT_DIR_INUM (cstr ''f'') demo_closed = Ok (0, s1) \<and>
     find_in_dir ROOT_DIR_INUM (cstr ''f'') s1 = Ok (-1) \<and>
     add_dir_entry ROOT_DIR_INUM (cstr ''g'') 2 s1 = Ok (0, s2) \<and> find_in_dir ROOT_DIR_INUM (cstr ''g'') s2 = Ok 2"
proof (rule clear_dir_entry_reuse [OF inv_dir_wf [OF demo_closed_facts(1)]])
  show "find_in_dir ROOT_DIR_INUM (cstr ''f'') demo_closed = Ok 1" by code_simp
  show "find_in_dir ROOT_DIR_INUM (cstr ''g'') demo_closed = Ok (-1)" by code_simp
qed (simp_all add: good_name_def cstr_def int32_range_def)

end
