(* ===== verification/FS_Threads.thy ===== *)
theory FS_Threads
  imports FS_Preserve
begin

text \<open>
  Several threads that read and write files of TecnicoFS at the same time (\<open>tfs_read\<close> and
  \<open>tfs_write\<close> of \<open>fs/operations.c\<close>), interleaved at their accesses to shared memory and to locks. A step is
  one statement: taking or releasing the mutex of an open file entry or the read-write lock of an inode,
  an allocation of a block, \<open>memcpy\<close>, or an assignment to a field. Here the locks have owners: the
  field \<open>held\<close> of the file system is not used.
\<close>

section \<open>Threads\<close>

datatype rw_call = Read_call int size_t | Write_call int "byte list" size_t

fun call_fd :: "rw_call \<Rightarrow> int" where
  "call_fd (Read_call fd len) = fd"
| "call_fd (Write_call fd buffer n) = fd"

fun is_write :: "rw_call \<Rightarrow> bool" where
  "is_write (Read_call fd len) \<longleftrightarrow> False"
| "is_write (Write_call fd buffer n) \<longleftrightarrow> True"

text \<open>
  Where a thread is in its call. The arguments are its local variables: the number of bytes, the block
  that was allocated, the bytes that were read and the value to be returned.
\<close>

datatype rw_pc =
    Start | Lock_file | Lock_inode | Size
  | Alloc size_t | Set_block size_t int | Copy size_t | Move size_t "byte list" | Grow size_t
  | Unlock_inode int "byte list" | Unlock_file int "byte list" | Return int "byte list"

text \<open>\<open>rw_order\<close> records, for the theorems, in which order the calls have taken effect.\<close>

record rw_threads =
  rw_fs :: fs_state
  rw_mutex :: "int \<Rightarrow> nat option"
  rw_writer :: "int \<Rightarrow> nat option"
  rw_readers :: "int \<Rightarrow> nat set"
  rw_pc :: "nat \<Rightarrow> rw_pc"
  rw_order :: "nat list"

definition goto :: "nat \<Rightarrow> rw_pc \<Rightarrow> rw_threads \<Rightarrow> rw_threads" where
  "goto t p C = C\<lparr>rw_pc := (rw_pc C)(t := p)\<rparr>"

definition takes_effect :: "nat \<Rightarrow> rw_threads \<Rightarrow> rw_threads" where
  "takes_effect t C = C\<lparr>rw_order := rw_order C @ [t]\<rparr>"

definition with_fs :: "fs_state \<Rightarrow> rw_threads \<Rightarrow> rw_threads" where
  "with_fs s C = C\<lparr>rw_fs := s\<rparr>"

text \<open>The locks. \<open>None\<close>: the thread has to wait.\<close>

definition lock_inode :: "nat \<Rightarrow> bool \<Rightarrow> int \<Rightarrow> rw_threads \<Rightarrow> rw_threads option" where
  "lock_inode t wr i C =
     (if rw_writer C i \<noteq> None then None
      else if wr then if rw_readers C i = {} then Some (C\<lparr>rw_writer := (rw_writer C)(i := Some t)\<rparr>) else None
      else Some (C\<lparr>rw_readers := (rw_readers C)(i := insert t (rw_readers C i))\<rparr>))"

definition unlock_inode :: "nat \<Rightarrow> bool \<Rightarrow> int \<Rightarrow> rw_threads \<Rightarrow> rw_threads" where
  "unlock_inode t wr i C =
     (if wr then C\<lparr>rw_writer := (rw_writer C)(i := None)\<rparr>
      else C\<lparr>rw_readers := (rw_readers C)(i := rw_readers C i - {t})\<rparr>)"

section \<open>Statements\<close>

text \<open>
  The next statement of thread \<open>t\<close>, which has read its open file entry \<open>e\<close> and its inode \<open>ino\<close>, number
  \<open>i\<close>. A call takes effect, in the sense of \<open>rw_order\<close>, when it finds out that there is nothing to
  do or no room, when a read copies its bytes, and when a write has its block.
\<close>

definition at_size :: "rw_call \<Rightarrow> nat \<Rightarrow> open_file_entry_t \<Rightarrow> inode_t \<Rightarrow> rw_threads \<Rightarrow> rw_threads" where
  "at_size call t e ino C =
     (case call of
        Write_call fd buffer to_write \<Rightarrow>
          let bs = state_block_size (rw_fs C);
              to_write = (if to_write + of_offset e > bs then bs - of_offset e else to_write) in
          if to_write > 0 then goto t (Alloc to_write) C
          else takes_effect t (goto t (Unlock_inode (sint to_write) []) C)
      | Read_call fd len \<Rightarrow>
          let to_read = i_size ino - of_offset e;
              to_read = (if to_read > len then len else to_read) in
          if to_read > 0 then goto t (Copy to_read) C
          else takes_effect t (goto t (Unlock_inode (sint to_read) []) C))"

definition at_alloc :: "nat \<Rightarrow> size_t \<Rightarrow> inode_t \<Rightarrow> rw_threads \<Rightarrow> rw_threads result" where
  "at_alloc t n ino C =
     (if i_size ino = 0 then
        bindR (data_block_alloc (rw_fs C)) (\<lambda>(bnum, s).
        Ok (takes_effect t (if bnum = -1 then goto t (Unlock_inode (-1) []) C else goto t (Set_block n bnum) (with_fs s C))))
      else Ok (takes_effect t (goto t (Copy n) C)))"

definition at_copy ::
  "rw_call \<Rightarrow> nat \<Rightarrow> size_t \<Rightarrow> open_file_entry_t \<Rightarrow> inode_t \<Rightarrow> rw_threads \<Rightarrow> rw_threads result" where
  "at_copy call t n e ino C =
     (let s = rw_fs C in
      case data_block_get (i_data_block ino) s of
        None \<Rightarrow> Ok (goto t (Unlock_inode (-1) []) C)
      | Some block \<Rightarrow>
          (case call of
             Write_call fd buffer to_write \<Rightarrow>
               bindR (mem_read buffer 0 (unat n)) (\<lambda>bytes.
               bindR (mem_write (fs_data s) (block + unat (of_offset e)) bytes) (\<lambda>m.
               Ok (goto t (Move n []) (with_fs (s\<lparr>fs_data := m\<rparr>) C))))
           | Read_call fd len \<Rightarrow>
               bindR (mem_read (fs_data s) (block + unat (of_offset e)) (unat n)) (\<lambda>bytes.
               Ok (takes_effect t (goto t (Move n bytes) C)))))"

definition put_inode :: "int \<Rightarrow> inode_t \<Rightarrow> rw_threads \<Rightarrow> rw_threads" where
  "put_inode i ino C = with_fs ((rw_fs C)\<lparr>inode_table := (inode_table (rw_fs C))[nat i := ino]\<rparr>) C"

definition put_entry :: "int \<Rightarrow> open_file_entry_t \<Rightarrow> rw_threads \<Rightarrow> rw_threads" where
  "put_entry f e C = with_fs ((rw_fs C)\<lparr>open_file_table := (open_file_table (rw_fs C))[nat f := e]\<rparr>) C"

definition on_inode :: "rw_call \<Rightarrow> nat \<Rightarrow> int \<Rightarrow> rw_threads \<Rightarrow> rw_pc \<Rightarrow> rw_threads result option" where
  "on_inode call t i C p =
     (let e = open_file_table (rw_fs C) ! nat (call_fd call); ino = inode_table (rw_fs C) ! nat i in
      case p of
        Lock_inode \<Rightarrow> map_option (\<lambda>C. Ok (goto t Size C)) (lock_inode t (is_write call) i C)
      | Size \<Rightarrow> Some (Ok (at_size call t e ino C))
      | Alloc n \<Rightarrow> Some (at_alloc t n ino C)
      | Set_block n b \<Rightarrow> Some (Ok (goto t (Copy n) (put_inode i (ino\<lparr>i_data_block := b\<rparr>) C)))
      | Copy n \<Rightarrow> Some (at_copy call t n e ino C)
      | Move n bs \<Rightarrow>
          Some (Ok (goto t (if is_write call then Grow n else Unlock_inode (sint n) bs)
            (put_entry (call_fd call) (e\<lparr>of_offset := of_offset e + n\<rparr>) C)))
      | Grow n \<Rightarrow>
          Some (Ok (goto t (Unlock_inode (sint n) [])
            (put_inode i (if of_offset e > i_size ino then ino\<lparr>i_size := of_offset e\<rparr> else ino) C)))
      | Unlock_inode r bs \<Rightarrow> Some (Ok (goto t (Unlock_file r bs) (unlock_inode t (is_write call) i C)))
      | _ \<Rightarrow> None)"

definition on_file :: "rw_call \<Rightarrow> nat \<Rightarrow> rw_threads \<Rightarrow> rw_pc \<Rightarrow> rw_threads result option" where
  "on_file call t C p =
     (let f = call_fd call; i = of_inumber (open_file_table (rw_fs C) ! nat f) in
      case p of
        Lock_file \<Rightarrow>
          if rw_mutex C f = None then Some (Ok (goto t Lock_inode (C\<lparr>rw_mutex := (rw_mutex C)(f := Some t)\<rparr>))) else None
      | Unlock_file r bs \<Rightarrow> Some (Ok (goto t (Return r bs) (C\<lparr>rw_mutex := (rw_mutex C)(f := None)\<rparr>)))
      | _ \<Rightarrow>
          if \<not> valid_inumber (rw_fs C) i \<or> length (inode_table (rw_fs C)) \<le> nat i then Some Undef
          else on_inode call t i C p)"

definition rw_next :: "(nat \<Rightarrow> rw_call) \<Rightarrow> nat \<Rightarrow> rw_threads \<Rightarrow> rw_threads result option" where
  "rw_next calls t C =
     (let f = call_fd (calls t) in
      case rw_pc C t of
        Start \<Rightarrow>
          Some (bindR (get_open_file_entry f (rw_fs C)) (\<lambda>file.
          Ok (if file = None then takes_effect t (goto t (Return (-1) []) C) else goto t Lock_file C)))
      | Return r bs \<Rightarrow> None
      | p \<Rightarrow>
          if f < 0 \<or> length (open_file_table (rw_fs C)) \<le> nat f then Some Undef else on_file (calls t) t C p)"

lemmas rw_next_defs = rw_next_def on_file_def on_inode_def put_inode_def put_entry_def Let_def

inductive rw_step :: "(nat \<Rightarrow> rw_call) \<Rightarrow> rw_threads \<Rightarrow> rw_threads \<Rightarrow> bool" for calls where
  rw_step: "rw_next calls t C = Some (Ok C') \<Longrightarrow> rw_step calls C C'"

definition rw_start :: "fs_state \<Rightarrow> rw_threads" where
  "rw_start s = \<lparr>rw_fs = s, rw_mutex = (\<lambda>_. None), rw_writer = (\<lambda>_. None), rw_readers = (\<lambda>_. {}), rw_pc = (\<lambda>_. Start), rw_order = []\<rparr>"

section \<open>One after the other\<close>

definition seq_call :: "rw_call \<Rightarrow> fs_state \<Rightarrow> (int \<times> byte list \<times> fs_state) result" where
  "seq_call call s =
     (case call of
        Read_call fd len \<Rightarrow> tfs_read fd len s
      | Write_call fd buffer n \<Rightarrow> bindR (tfs_write fd buffer n s) (\<lambda>(r, s). Ok (r, [], s)))"

definition serial ::
  "(nat \<Rightarrow> rw_call) \<Rightarrow> nat list \<Rightarrow> fs_state \<Rightarrow> ((nat \<rightharpoonup> int \<times> byte list) \<times> fs_state) result" where
  "serial calls ts s =
     foldR (\<lambda>t (res, s). bindR (seq_call (calls t) s) (\<lambda>(r, bs, s). Ok (res(t \<mapsto> (r, bs)), s))) ts (Map.empty, s)"

lemma foldR_single: "foldR f [x] = f x"
proof
  show "foldR f [x] s = f x s" for s by (cases "f x s") simp_all
qed

lemma serial_snoc:
  "serial calls (ts @ [t]) s =
     bindR (serial calls ts s) (\<lambda>(res, s). bindR (seq_call (calls t) s) (\<lambda>(r, bs, s). Ok (res(t \<mapsto> (r, bs)), s)))"
  by (simp add: serial_def foldR_append foldR_single)

definition call_ok :: "rw_call \<Rightarrow> bool" where
  "call_ok call = (case call of Write_call fd buffer n \<Rightarrow> unat n \<le> length buffer \<and> unat n < 2 ^ 63 | _ \<Rightarrow> True)"

text \<open>Every handle stands inside its file.\<close>

definition all_in_file :: "fs_state \<Rightarrow> bool" where
  "all_in_file s \<longleftrightarrow> (\<forall>k < length (open_file_table s). handle s k \<longrightarrow> in_file s (int k))"

lemma all_in_fileD: "all_in_file s \<Longrightarrow> fs_inv s \<Longrightarrow> is_handle s fd \<Longrightarrow> in_file s fd"
  using handle_facts(1,2) [of s fd] by (auto simp: all_in_file_def is_handle_def in_file_def)

definition call_effect :: "rw_call \<Rightarrow> fs_state \<Rightarrow> int \<times> byte list \<times> fs_state" where
  "call_effect call s =
     (case call of
        Read_call fd len \<Rightarrow> read_effect fd (unat len) s
      | Write_call fd buffer n \<Rightarrow> (case write_effect fd buffer (unat n) s of (r, s) \<Rightarrow> (r, [], s)))"

lemma seq_call_eq: "fs_inv s \<Longrightarrow> all_in_file s \<Longrightarrow> call_ok call \<Longrightarrow> seq_call call s = Ok (call_effect call s)"
  by (cases call) (auto simp: seq_call_def call_effect_def call_ok_def tfs_read_eq tfs_write_eq all_in_fileD split: prod.split)

lemma call_effect_inv:
  assumes "fs_inv s" "all_in_file s" "call_ok call"
  shows "fs_inv (snd (snd (call_effect call s)))"
proof (cases call)
  case (Read_call fd len)
  with assms show ?thesis by (auto simp: call_effect_def intro: read_inv_effect all_in_fileD)
next
  case (Write_call fd buffer n)
  with assms write_inv_effect [of s "unat n" buffer fd] show ?thesis
    by (simp add: call_effect_def call_ok_def case_prod_beta)
qed

lemma add_of_nat_le:
  assumes "unat x + k \<le> unat (y :: size_t)"
  shows "unat (x + of_nat k) = unat x + k" "x + of_nat k \<le> y"
proof -
  have "unat y < 2 ^ LENGTH(64)" by (rule unsigned_less)
  with assms have "k < 2 ^ 64" "unat x + k < 2 ^ 64" by simp_all
  then show "unat (x + of_nat k) = unat x + k" by (simp add: unat_word_ariths unat_of_nat_size_t)
  with assms show "x + of_nat k \<le> y" by (simp add: word_le_nat_alt)
qed

lemma call_effect_in_file:
  assumes inv: "fs_inv s" and a: "all_in_file s" and ok: "call_ok call"
  shows "all_in_file (snd (snd (call_effect call s)))"
proof (cases call)
  case (Read_call fd len)
  show ?thesis
  proof (cases "is_handle s fd")
    case True
    note hf = handle_facts [OF inv True] and inf = all_in_fileD [OF a inv True]
    have "unat (of_offset (open_file_table s ! nat fd)) + read_count s fd (unat len) \<le>
        unat (i_size (inode_of s (of_inumber (open_file_table s ! nat fd))))"
      using inf unfolding read_count_def in_file_def Let_def word_le_nat_alt by linarith
    from add_of_nat_le(2) [OF this] Read_call True a hf(2) show ?thesis
      by (simp add: call_effect_def read_effect_def Let_def all_in_file_def handle_def in_file_def nth_list_update view_simps)
  qed (use Read_call a in \<open>simp add: call_effect_def read_effect_def\<close>)
next
  case (Write_call fd buffer n)
  show ?thesis
  proof (cases "is_handle s fd")
    case True
    note hf = handle_facts [OF inv True] and ib = file_inode_bounds [OF handle_facts(3) [OF inv True] fs_invD(1) [OF inv]]
    with Write_call True a show ?thesis
      by (auto simp: call_effect_def write_effect_def Let_def all_in_file_def handle_def in_file_def nth_list_update inode_of_table
          inode_of_def le_max_iff_disj split: option.split)
  qed (use Write_call a in \<open>simp add: call_effect_def write_effect_def\<close>)
qed

end
