(* ===== verification/FS_Serial.thy ===== *)
theory FS_Serial
  imports FS_Threads
begin

text \<open>
  Reads and writes that run at the same time behave as if they ran one after the other. The state of
  the threads is compared with the state \<open>a\<close> in which every call that has taken effect is finished:
  a thread between its point of effect and its last assignment leaves the real state behind \<open>a\<close>, in the
  entry, the inode and the bytes that its locks protect, and nowhere else.
\<close>

section \<open>Where a thread is\<close>

fun has_file :: "rw_pc \<Rightarrow> bool" where
  "has_file Start = False" | "has_file Lock_file = False" | "has_file (Return r bs) = False" | "has_file p = True"

fun has_inode :: "rw_pc \<Rightarrow> bool" where
  "has_inode Lock_inode = False" | "has_inode (Unlock_file r bs) = False" | "has_inode p = has_file p"

text \<open>What the call returns, from its point of effect on.\<close>

fun result_of :: "bool \<Rightarrow> rw_pc \<Rightarrow> (int \<times> byte list) option" where
  "result_of wr (Set_block n b) = Some (sint n, [])"
| "result_of wr (Copy n) = (if wr then Some (sint n, []) else None)"
| "result_of wr (Move n bs) = Some (sint n, bs)"
| "result_of wr (Grow n) = Some (sint n, [])"
| "result_of wr (Unlock_inode r bs) = Some (r, bs)"
| "result_of wr (Unlock_file r bs) = Some (r, bs)"
| "result_of wr (Return r bs) = Some (r, bs)"
| "result_of wr p = None"

definition results :: "(nat \<Rightarrow> rw_call) \<Rightarrow> rw_threads \<Rightarrow> nat \<rightharpoonup> int \<times> byte list" where
  "results calls C t = result_of (is_write (calls t)) (rw_pc C t)"

text \<open>What is still to be done: the bytes to copy, the distance to move, the inode to update.\<close>

fun data_lag :: "bool \<Rightarrow> rw_pc \<Rightarrow> size_t" where
  "data_lag wr (Set_block n b) = n"
| "data_lag wr (Copy n) = (if wr then n else 0)"
| "data_lag wr p = 0"

fun off_lag :: "bool \<Rightarrow> rw_pc \<Rightarrow> size_t" where
  "off_lag wr (Move n bs) = n"
| "off_lag wr p = data_lag wr p"

fun ahead :: "rw_pc \<Rightarrow> size_t \<Rightarrow> inode_t \<Rightarrow> inode_t" where
  "ahead (Set_block n b) off ino = ino\<lparr>i_size := max (i_size ino) off, i_data_block := b\<rparr>"
| "ahead (Copy n) off ino = ino\<lparr>i_size := max (i_size ino) off\<rparr>"
| "ahead (Move n bs) off ino = ino\<lparr>i_size := max (i_size ino) off\<rparr>"
| "ahead (Grow n) off ino = ino\<lparr>i_size := max (i_size ino) off\<rparr>"
| "ahead p off ino = ino"

definition inum :: "(nat \<Rightarrow> rw_call) \<Rightarrow> fs_state \<Rightarrow> nat \<Rightarrow> int" where
  "inum calls s t = of_inumber (open_file_table s ! nat (call_fd (calls t)))"

definition place :: "(nat \<Rightarrow> rw_call) \<Rightarrow> fs_state \<Rightarrow> rw_threads \<Rightarrow> nat \<Rightarrow> nat" where
  "place calls a C t =
     blk_addr a (i_data_block (inode_of a (inum calls a t))) +
     unat (of_offset (open_file_table (rw_fs C) ! nat (call_fd (calls t))))"

text \<open>The addresses where the bytes of thread \<open>t\<close> are still missing.\<close>

definition lagging :: "(nat \<Rightarrow> rw_call) \<Rightarrow> fs_state \<Rightarrow> rw_threads \<Rightarrow> nat \<Rightarrow> nat \<Rightarrow> bool" where
  "lagging calls a C t k \<longleftrightarrow>
     place calls a C t \<le> k \<and> k < place calls a C t + unat (data_lag (is_write (calls t)) (rw_pc C t))"

section \<open>The comparison\<close>

definition late_copy :: "(nat \<Rightarrow> rw_call) \<Rightarrow> fs_state \<Rightarrow> rw_threads \<Rightarrow> nat \<Rightarrow> size_t \<Rightarrow> bool" where
  "late_copy calls a C t n \<longleftrightarrow>
     (case calls t of
        Read_call fd len \<Rightarrow> False
      | Write_call fd buffer m \<Rightarrow>
          i_size (inode_of a (inum calls a t)) \<noteq> 0 \<and>
          unat (of_offset (open_file_table (rw_fs C) ! nat fd)) + unat n \<le> unat (BLOCK_SIZE a) \<and>
          unat n \<le> length buffer \<and> read_at (place calls a C t) (unat n) (fs_data a) = take (unat n) buffer)"

definition thread_ok :: "(nat \<Rightarrow> rw_call) \<Rightarrow> fs_state \<Rightarrow> rw_threads \<Rightarrow> nat \<Rightarrow> bool" where
  "thread_ok calls a C t \<longleftrightarrow>
     (let e = open_file_table a ! nat (call_fd (calls t)); ino = inode_of a (inum calls a t) in
      case rw_pc C t of
        Alloc n \<Rightarrow>
          (case calls t of
             Read_call fd len \<Rightarrow> False
           | Write_call fd buffer m \<Rightarrow> n = clamp_write m (of_offset e) (BLOCK_SIZE a) \<and> n \<noteq> 0)
      | Set_block n b \<Rightarrow> late_copy calls a C t n
      | Copy n \<Rightarrow>
          (case calls t of
             Read_call fd len \<Rightarrow> n = clamp_read (i_size ino - of_offset e) len \<and> n \<noteq> 0
           | Write_call fd buffer m \<Rightarrow> late_copy calls a C t n)
      | Move n bs \<Rightarrow> is_write (calls t) \<longrightarrow> bs = []
      | Grow n \<Rightarrow> is_write (calls t)
      | _ \<Rightarrow> True)"

definition locks_ok :: "(nat \<Rightarrow> rw_call) \<Rightarrow> fs_state \<Rightarrow> rw_threads \<Rightarrow> bool" where
  "locks_ok calls a C \<longleftrightarrow>
     (\<forall>t. has_file (rw_pc C t) \<or> rw_pc C t = Lock_file \<longrightarrow> is_handle a (call_fd (calls t))) \<and>
     (\<forall>f t. rw_mutex C f = Some t \<longleftrightarrow> call_fd (calls t) = f \<and> has_file (rw_pc C t)) \<and>
     (\<forall>i t. rw_writer C i = Some t \<longleftrightarrow> inum calls a t = i \<and> is_write (calls t) \<and> has_inode (rw_pc C t)) \<and>
     (\<forall>i t. t \<in> rw_readers C i \<longleftrightarrow> inum calls a t = i \<and> \<not> is_write (calls t) \<and> has_inode (rw_pc C t)) \<and>
     (\<forall>t u. has_inode (rw_pc C t) \<and> has_inode (rw_pc C u) \<and> is_write (calls t) \<and> \<not> is_write (calls u) \<longrightarrow>
        inum calls a t \<noteq> inum calls a u)"

definition entry_lag :: "(nat \<Rightarrow> rw_call) \<Rightarrow> rw_threads \<Rightarrow> int \<Rightarrow> size_t" where
  "entry_lag calls C f = (case rw_mutex C f of None \<Rightarrow> 0 | Some t \<Rightarrow> off_lag (is_write (calls t)) (rw_pc C t))"

definition inode_ahead :: "(nat \<Rightarrow> rw_call) \<Rightarrow> fs_state \<Rightarrow> rw_threads \<Rightarrow> int \<Rightarrow> inode_t \<Rightarrow> inode_t" where
  "inode_ahead calls a C i ino =
     (case rw_writer C i of
        None \<Rightarrow> ino
      | Some t \<Rightarrow> ahead (rw_pc C t) (of_offset (open_file_table a ! nat (call_fd (calls t)))) ino)"

definition same_fs :: "(nat \<Rightarrow> rw_call) \<Rightarrow> fs_state \<Rightarrow> rw_threads \<Rightarrow> bool" where
  "same_fs calls a C \<longleftrightarrow>
     (let c = rw_fs C in
      c = a\<lparr>open_file_table := open_file_table c, inode_table := inode_table c, fs_data := fs_data c\<rparr> \<and>
      length (open_file_table c) = length (open_file_table a) \<and>
      length (inode_table c) = length (inode_table a) \<and> length (fs_data c) = length (fs_data a) \<and>
      (\<forall>k < length (open_file_table a). open_file_table a ! k =
         (open_file_table c ! k)\<lparr>of_offset := of_offset (open_file_table c ! k) + entry_lag calls C (int k)\<rparr>) \<and>
      (\<forall>k < length (inode_table a). inode_table a ! k = inode_ahead calls a C (int k) (inode_table c ! k)) \<and>
      (\<forall>k < length (fs_data a). (\<forall>t. \<not> lagging calls a C t k) \<longrightarrow> fs_data a ! k = fs_data c ! k))"

definition sim :: "(nat \<Rightarrow> rw_call) \<Rightarrow> fs_state \<Rightarrow> rw_threads \<Rightarrow> bool" where
  "sim calls a C \<longleftrightarrow>
     fs_inv a \<and> all_in_file a \<and> locks_ok calls a C \<and> same_fs calls a C \<and> (\<forall>t. thread_ok calls a C t)"

text \<open>A step either leaves \<open>a\<close> alone, or is the point of effect of the call of its thread.\<close>

definition sim_step :: "(nat \<Rightarrow> rw_call) \<Rightarrow> fs_state \<Rightarrow> rw_threads \<Rightarrow> nat \<Rightarrow> rw_threads \<Rightarrow> bool" where
  "sim_step calls a C t C' \<longleftrightarrow>
     (rw_order C' = rw_order C \<and> results calls C' = results calls C \<and> sim calls a C') \<or>
     (rw_order C' = rw_order C @ [t] \<and> results calls C t = None \<and>
       (\<exists>r bs a'. call_effect (calls t) a = (r, bs, a') \<and> results calls C' = (results calls C)(t \<mapsto> (r, bs)) \<and> sim calls a' C'))"

lemma simD:
  assumes "sim calls a C"
  shows "fs_inv a" "all_in_file a" "locks_ok calls a C" "same_fs calls a C" "thread_ok calls a C t"
  using assms by (auto simp: sim_def)

lemma locks_okD:
  assumes "locks_ok calls a C"
  shows "rw_mutex C f = Some t \<Longrightarrow> call_fd (calls t) = f \<and> has_file (rw_pc C t)"
    "rw_writer C i = Some t \<Longrightarrow> inum calls a t = i \<and> is_write (calls t) \<and> has_inode (rw_pc C t)"
  using assms by (simp_all add: locks_ok_def)

lemma has_inode_file: "has_inode p \<Longrightarrow> has_file p"
  by (cases p) auto

lemma sim_shape:
  assumes "sim calls a C"
  shows "shape (rw_fs C)" "held (rw_fs C) = {}" "fs_params (rw_fs C) = fs_params a" "free_blocks (rw_fs C) = free_blocks a"
    "free_open_file_entries (rw_fs C) = free_open_file_entries a" "length (open_file_table (rw_fs C)) = length (open_file_table a)"
    "length (inode_table (rw_fs C)) = length (inode_table a)" "length (fs_data (rw_fs C)) = length (fs_data a)"
proof -
  have c: "rw_fs C = a\<lparr>open_file_table := open_file_table (rw_fs C), inode_table := inode_table (rw_fs C), fs_data := fs_data (rw_fs C)\<rparr>"
    and len: "length (open_file_table (rw_fs C)) = length (open_file_table a)"
    "length (inode_table (rw_fs C)) = length (inode_table a)" "length (fs_data (rw_fs C)) = length (fs_data a)"
    using simD(4) [OF assms] by (auto simp: same_fs_def Let_def)
  show "length (open_file_table (rw_fs C)) = length (open_file_table a)"
    "length (inode_table (rw_fs C)) = length (inode_table a)" "length (fs_data (rw_fs C)) = length (fs_data a)" by fact+
  show "shape (rw_fs C)" "held (rw_fs C) = {}" "fs_params (rw_fs C) = fs_params a" "free_blocks (rw_fs C) = free_blocks a"
    "free_open_file_entries (rw_fs C) = free_open_file_entries a"
    using fs_invD(1,2) [OF simD(1) [OF assms]] len by (subst c, simp)+
qed

lemma sim_entry:
  assumes S: "sim calls a C" and p: "has_file (rw_pc C t)"
  defines "f \<equiv> call_fd (calls t)"
  shows "is_handle a f" "0 \<le> f" "nat f < length (open_file_table a)"
    "open_file_table a ! nat f = (open_file_table (rw_fs C) ! nat f)
       \<lparr>of_offset := of_offset (open_file_table (rw_fs C) ! nat f) + off_lag (is_write (calls t)) (rw_pc C t)\<rparr>"
    "of_inumber (open_file_table (rw_fs C) ! nat f) = inum calls a t" "file_inode a (inum calls a t)"
    "0 \<le> inum calls a t" "nat (inum calls a t) < length (inode_table a)" "valid_inumber (rw_fs C) (inum calls a t)"
proof -
  show h: "is_handle a f" using simD(3) [OF S] p by (simp add: locks_ok_def f_def)
  note hf = handle_facts [OF simD(1) [OF S] h]
  show f: "0 \<le> f" "nat f < length (open_file_table a)" by fact+
  have m: "rw_mutex C f = Some t" using simD(3) [OF S] p by (simp add: locks_ok_def f_def)
  show e: "open_file_table a ! nat f = (open_file_table (rw_fs C) ! nat f)
       \<lparr>of_offset := of_offset (open_file_table (rw_fs C) ! nat f) + off_lag (is_write (calls t)) (rw_pc C t)\<rparr>"
    using simD(4) [OF S] f m by (simp add: same_fs_def Let_def entry_lag_def)
  then have "of_inumber (open_file_table a ! nat f) = of_inumber (open_file_table (rw_fs C) ! nat f)" by simp
  then show "of_inumber (open_file_table (rw_fs C) ! nat f) = inum calls a t" by (simp add: inum_def f_def)
  show i: "file_inode a (inum calls a t)" using hf(3) by (simp add: inum_def f_def)
  from file_inode_bounds [OF i fs_invD(1) [OF simD(1) [OF S]]] sim_shape(3) [OF S]
  show "0 \<le> inum calls a t" "nat (inum calls a t) < length (inode_table a)" "valid_inumber (rw_fs C) (inum calls a t)"
    by (simp_all add: valid_inumber_def)
qed

lemma sim_inode:
  assumes S: "sim calls a C" and p: "has_inode (rw_pc C t)"
  defines "i \<equiv> inum calls a t"
  shows "inode_of a i = (if is_write (calls t)
      then ahead (rw_pc C t) (of_offset (open_file_table a ! nat (call_fd (calls t)))) (inode_of (rw_fs C) i)
      else inode_of (rw_fs C) i)"
    "rw_writer C i = (if is_write (calls t) then Some t else None)"
proof -
  show w: "rw_writer C i = (if is_write (calls t) then Some t else None)"
  proof (cases "is_write (calls t)")
    case False
    then have "rw_writer C i \<noteq> Some u" for u using locks_okD(2) [OF simD(3) [OF S], of i u] simD(3) [OF S] p by (auto simp: locks_ok_def i_def)
    then have "rw_writer C i = None" by (cases "rw_writer C i") blast+
    with False show ?thesis by simp
  qed (use simD(3) [OF S] p in \<open>simp add: locks_ok_def i_def\<close>)
  note b = sim_entry(7,8) [OF S has_inode_file [OF p], folded i_def]
  have "inode_table a ! nat i = inode_ahead calls a C i (inode_table (rw_fs C) ! nat i)"
    using simD(4) [OF S] b by (simp add: same_fs_def Let_def)
  then show "inode_of a i = (if is_write (calls t)
      then ahead (rw_pc C t) (of_offset (open_file_table a ! nat (call_fd (calls t)))) (inode_of (rw_fs C) i)
      else inode_of (rw_fs C) i)"
    by (simp add: inode_of_def inode_ahead_def w)
qed

section \<open>Steps keep the comparison\<close>

text \<open>Steps that take or release a lock.\<close>

fun quiet :: "rw_pc \<Rightarrow> bool" where
  "quiet (Alloc n) = False" | "quiet (Set_block n b) = False" | "quiet (Copy n) = False" | "quiet (Move n bs) = False"
| "quiet (Grow n) = False" | "quiet p = True"

lemma quietD [simp]:
  assumes "quiet p"
  shows "data_lag wr p = 0" "off_lag wr p = 0" "ahead p off ino = ino"
  using assms by (cases p; simp)+

lemma holder_change:
  assumes "\<And>u. l = Some u \<longleftrightarrow> P u \<and> h (pc u)" "\<And>u. l' = Some u \<longleftrightarrow> P u \<and> h ((pc(t := p)) u)"
    and "g t (pc t) = z" "g t p = z"
  shows "(case l' of None \<Rightarrow> z | Some u \<Rightarrow> g u ((pc(t := p)) u)) = (case l of None \<Rightarrow> z | Some u \<Rightarrow> g u (pc u))"
proof -
  have keep: "l = Some u \<longleftrightarrow> l' = Some u" if "u \<noteq> t" for u
    using assms(1,2) [of u] that by simp
  then have "l = l' \<or> l \<in> {None, Some t} \<and> l' \<in> {None, Some t}"
    by (cases l; cases l') auto
  with assms(3,4) keep show ?thesis by (auto split: option.split)
qed

lemma lock_step:
  assumes S: "sim calls a C" and C': "rw_fs C' = rw_fs C" "rw_pc C' = (rw_pc C)(t := p)"
    and q: "quiet (rw_pc C t)" "quiet p" and l: "locks_ok calls a C'"
  shows "sim calls a C'"
proof -
  have L: "locks_ok calls a C" by (rule simD(3) [OF S])
  have e: "entry_lag calls C' f = entry_lag calls C f" for f
    unfolding entry_lag_def C'(2)
    by (rule holder_change [where P = "\<lambda>u. call_fd (calls u) = f" and h = has_file and g = "\<lambda>u. off_lag (is_write (calls u))"])
      (use L l q C'(2) in \<open>simp_all add: locks_ok_def\<close>)
  have i: "inode_ahead calls a C' i ino = inode_ahead calls a C i ino" for i ino
    unfolding inode_ahead_def C'(2)
    by (rule holder_change [where P = "\<lambda>u. inum calls a u = i \<and> is_write (calls u)" and h = has_inode and
          g = "\<lambda>u p. ahead p (of_offset (open_file_table a ! nat (call_fd (calls u)))) ino"])
      (use L l q C'(2) in \<open>simp_all add: locks_ok_def\<close>)
  have d: "lagging calls a C' u k = lagging calls a C u k" for u k
    using q C' by (simp add: lagging_def place_def)
  have "same_fs calls a C'" using simD(4) [OF S] by (simp add: same_fs_def C'(1) e i d)
  moreover have "thread_ok calls a C' u" for u
  proof (cases "u = t")
    case True
    with q(2) C'(2) show ?thesis by (cases p) (auto simp: thread_ok_def)
  next
    case False
    have lc: "late_copy calls a C' = late_copy calls a C" by (simp add: fun_eq_iff late_copy_def place_def C'(1) split: rw_call.split)
    with simD(5) [OF S, of u] False show ?thesis unfolding thread_ok_def C'(2) lc by simp
  qed
  ultimately show ?thesis using simD [OF S] l by (simp add: sim_def)
qed

text \<open>Steps of a thread that holds both its locks.\<close>

lemma others_apart:
  assumes S: "sim calls a C" and t: "has_inode (rw_pc C t)" and u: "u \<noteq> t"
  shows "has_file (rw_pc C u) \<Longrightarrow> nat (call_fd (calls u)) \<noteq> nat (call_fd (calls t))"
    "has_inode (rw_pc C u) \<Longrightarrow> is_write (calls t) \<Longrightarrow> nat (inum calls a u) \<noteq> nat (inum calls a t)"
proof -
  note L = simD(3) [OF S, unfolded locks_ok_def] and tb = sim_entry [OF S has_inode_file [OF t]]
  { assume p: "has_file (rw_pc C u)"
    have "rw_mutex C (call_fd (calls u)) = Some u" "rw_mutex C (call_fd (calls t)) = Some t"
      using L p has_inode_file [OF t] by blast+
    with u have "call_fd (calls u) \<noteq> call_fd (calls t)" by auto
    with sim_entry(2) [OF S p] tb(2) show "nat (call_fd (calls u)) \<noteq> nat (call_fd (calls t))" by simp }
  { assume p: "has_inode (rw_pc C u)" and w: "is_write (calls t)"
    have "inum calls a u \<noteq> inum calls a t"
      using sim_inode(2) [OF S p] sim_inode(2) [OF S t] w u by (auto split: if_splits)
    with sim_entry(7) [OF S has_inode_file [OF p]] tb(7) show "nat (inum calls a u) \<noteq> nat (inum calls a t)" by simp }
qed

lemma data_lag_inode: "data_lag wr p \<noteq> 0 \<Longrightarrow> has_inode p"
  by (cases p) auto

lemma no_lag: "data_lag (is_write (calls t)) (rw_pc C t) = 0 \<Longrightarrow> \<not> lagging calls a C t k"
  by (simp add: lagging_def)

lemma late_copy_keep:
  assumes "late_copy calls a C u n"
    and "inode_of a' (inum calls a' u) = inode_of a (inum calls a u)"
    and "open_file_table (rw_fs C') ! nat (call_fd (calls u)) = open_file_table (rw_fs C) ! nat (call_fd (calls u))"
    and "fs_params a' = fs_params a"
    and "read_at (place calls a C u) (unat n) (fs_data a') = read_at (place calls a C u) (unat n) (fs_data a)"
  shows "late_copy calls a' C' u n"
proof -
  have "place calls a' C' u = place calls a C u" using assms(2-4) by (simp add: place_def blk_addr_def)
  with assms show ?thesis by (cases "calls u") (simp_all add: late_copy_def)
qed

lemma late_copy_block:
  assumes inv: "fs_inv a" and l: "late_copy calls a C u n" and f: "file_inode a (inum calls a u)"
  defines "b \<equiv> i_data_block (inode_of a (inum calls a u))"
  shows "owns a (inum calls a u) b" "valid_block_number a b"
    "blk_addr a b \<le> place calls a C u" "place calls a C u + unat n \<le> blk_addr a b + unat (BLOCK_SIZE a)"
proof -
  show o: "owns a (inum calls a u) b" using l f by (cases "calls u") (simp_all add: late_copy_def owns_def b_def)
  show "valid_block_number a b" by (rule owns_block(1) [OF inv o])
  show "blk_addr a b \<le> place calls a C u" "place calls a C u + unat n \<le> blk_addr a b + unat (BLOCK_SIZE a)"
    using l by (cases "calls u"; simp add: late_copy_def place_def b_def)+
qed

lemma entries_step:
  fixes calls C t
  defines "f \<equiv> call_fd (calls t)"
  assumes S: "sim calls a C" and p: "has_inode (rw_pc C t)"
    and C': "rw_pc C' = (rw_pc C)(t := p')" "rw_mutex C' = rw_mutex C" "open_file_table (rw_fs C') = (open_file_table (rw_fs C))[nat f := ce]"
    and k: "k < length (open_file_table a)"
  shows "(open_file_table a)[nat f := ce\<lparr>of_offset := of_offset ce + off_lag (is_write (calls t)) p'\<rparr>] ! k =
    (open_file_table (rw_fs C') ! k)\<lparr>of_offset := of_offset (open_file_table (rw_fs C') ! k) + entry_lag calls C' (int k)\<rparr>"
proof -
  note tb = sim_entry [OF S has_inode_file [OF p], folded f_def] and L = simD(3) [OF S]
  have m: "rw_mutex C f = Some t" using L has_inode_file [OF p] by (simp add: locks_ok_def f_def)
  show ?thesis
  proof (cases "k = nat f")
    case True
    then have "entry_lag calls C' (int k) = off_lag (is_write (calls t)) p'"
      using m tb(2) by (simp add: entry_lag_def C')
    with True tb(3) sim_shape(6) [OF S] show ?thesis by (simp add: C'(3))
  next
    case False
    then have "rw_mutex C (int k) \<noteq> Some t" using locks_okD(1) [OF L, of "int k" t] by (auto simp: f_def)
    then have "entry_lag calls C' (int k) = entry_lag calls C (int k)"
      by (auto simp: entry_lag_def C' split: option.split)
    with False k simD(4) [OF S] show ?thesis by (simp add: C'(3) same_fs_def Let_def)
  qed
qed

lemma inodes_step:
  fixes calls C t
  defines "wr \<equiv> is_write (calls t)" and "f \<equiv> call_fd (calls t)"
  assumes S: "sim calls a C" and i: "i = inum calls a t" and p: "has_inode (rw_pc C t)"
    and C': "rw_pc C' = (rw_pc C)(t := p')" "rw_writer C' = rw_writer C" "inode_table (rw_fs C') = (inode_table (rw_fs C))[nat i := ci]"
    and others: "\<And>u. u \<noteq> t \<Longrightarrow> has_file (rw_pc C u) \<Longrightarrow>
      open_file_table a' ! nat (call_fd (calls u)) = open_file_table a ! nat (call_fd (calls u))"
    and ino: "if wr then ai = ahead p' (of_offset (open_file_table a' ! nat f)) ci else ai = inode_of a i \<and> ci = inode_of (rw_fs C) i"
    and k: "k < length (inode_table a)"
  shows "(inode_table a)[nat i := ai] ! k = inode_ahead calls a' C' (int k) (inode_table (rw_fs C') ! k)"
proof (cases "k = nat i")
  case True
  have w: "rw_writer C i = (if wr then Some t else None)" using sim_inode(2) [OF S p] by (simp add: i wr_def)
  with True have "inode_ahead calls a' C' (int k) x = (if wr then ahead p' (of_offset (open_file_table a' ! nat f)) x else x)" for x
    using sim_entry(7) [OF S has_inode_file [OF p]] by (simp add: inode_ahead_def C' f_def i)
  moreover have "\<not> wr \<Longrightarrow> inode_of a i = inode_of (rw_fs C) i" using sim_inode(1) [OF S p] by (simp add: i wr_def)
  ultimately show ?thesis
    using True ino k sim_shape(7) [OF S] by (auto simp: C'(3) split: if_splits)
next
  case False
  have "inode_ahead calls a' C' (int k) x = inode_ahead calls a C (int k) x" for x
  proof (cases "rw_writer C (int k)")
    case (Some u)
    with False have "u \<noteq> t" "has_inode (rw_pc C u)" using locks_okD(2) [OF simD(3) [OF S] Some] i by auto
    with others [OF _ has_inode_file] Some show ?thesis by (simp add: inode_ahead_def C')
  qed (simp add: inode_ahead_def C'(2))
  with False k simD(4) [OF S] show ?thesis by (simp add: C'(3) same_fs_def Let_def)
qed

text \<open>The bytes another thread still has to copy are not touched: they are in a block of its own inode.\<close>

lemma slices_step:
  assumes inv: "fs_inv a" "fs_inv a'" and l: "late_copy calls a C u n" and uf: "file_inode a (inum calls a u)"
    and o: "owns a' (inum calls a u) (i_data_block (inode_of a (inum calls a u)))"
    and change: "\<And>k. k < length (fs_data a) \<Longrightarrow> am ! k \<noteq> fs_data a ! k \<Longrightarrow>
      inum calls a u \<noteq> i \<and> owns a' i b \<and> blk_addr a b \<le> k \<and> k < blk_addr a b + unat (BLOCK_SIZE a)"
    and len: "length am = length (fs_data a)"
  shows "read_at (place calls a C u) (unat n) am = read_at (place calls a C u) (unat n) (fs_data a)"
proof -
  define d where "d = i_data_block (inode_of a (inum calls a u))"
  note lb = late_copy_block [OF inv(1) l uf, folded d_def]
  have bound: "place calls a C u + unat n \<le> length (fs_data a)"
    using lb(4) blk_in_data [OF fs_invD(1) [OF inv(1)] lb(2)] by simp
  have "am ! k = fs_data a ! k" if k: "place calls a C u \<le> k" "k < place calls a C u + unat n" for k
  proof (rule ccontr)
    assume "am ! k \<noteq> fs_data a ! k"
    with change [of k] bound k have ch: "inum calls a u \<noteq> i" "owns a' i b" "blk_addr a b \<le> k"
      "k < blk_addr a b + unat (BLOCK_SIZE a)" by auto
    then have "b \<noteq> d" using owns_unique [OF inv(2) _ o] by (auto simp: d_def)
    then have "blk_addr a d + unat (BLOCK_SIZE a) \<le> blk_addr a b \<or> blk_addr a b + unat (BLOCK_SIZE a) \<le> blk_addr a d"
      using owns_block(3) [OF inv(2) ch(2)] lb(2) by (intro blk_disjoint) (auto simp: valid_block_number_iff)
    with ch(3,4) k lb(3,4) show False by linarith
  qed
  with bound len show ?thesis by (intro nth_equalityI) (simp_all add: nth_read_at)
qed

lemma data_step:
  fixes calls C t
  defines "f \<equiv> call_fd (calls t)" and "wr \<equiv> is_write (calls t)"
  assumes S: "sim calls a C" and i: "i = inum calls a t" and p: "has_inode (rw_pc C t)" "has_inode p'"
    and C': "rw_fs C' = (rw_fs C)\<lparr>free_blocks := fb, fs_data := cm, inode_table := (inode_table (rw_fs C))[nat i := ci],
        open_file_table := (open_file_table (rw_fs C))[nat f := ce]\<rparr>"
      "rw_pc C' = (rw_pc C)(t := p')" "rw_mutex C' = rw_mutex C" "rw_writer C' = rw_writer C" "rw_readers C' = rw_readers C"
    and a': "a' = a\<lparr>free_blocks := fb, fs_data := am, inode_table := (inode_table a)[nat i := ai],
        open_file_table := (open_file_table a)[nat f := ae]\<rparr>"
    and inv: "fs_inv a'" "all_in_file a'"
    and e: "ae = ce\<lparr>of_offset := of_offset ce + off_lag wr p'\<rparr>" "of_inumber ce = i"
    and ino: "if wr then ai = ahead p' (of_offset ae) ci else ai = inode_of a i \<and> ci = inode_of (rw_fs C) i"
    and len: "length am = length (fs_data a)" "length cm = length (fs_data a)"
    and change: "\<And>k. k < length (fs_data a) \<Longrightarrow> am ! k \<noteq> fs_data a ! k \<Longrightarrow> wr \<and> i_size ai \<noteq> 0 \<and>
        blk_addr a (i_data_block ai) \<le> k \<and> k < blk_addr a (i_data_block ai) + unat (BLOCK_SIZE a)"
    and lags: "\<And>k. k < length (fs_data a) \<Longrightarrow> \<not> lagging calls a' C' t k \<Longrightarrow>
        (\<not> lagging calls a C t k \<Longrightarrow> fs_data a ! k = fs_data (rw_fs C) ! k) \<Longrightarrow> am ! k = cm ! k"
    and own: "thread_ok calls a' C' t"
  shows "sim calls a' C'"
proof -
  note tb = sim_entry [OF S has_inode_file [OF p(1)], folded f_def, folded i]
  have inum: "inum calls a' u = inum calls a u" for u
    using tb(3) e i by (cases "nat (call_fd (calls u)) = nat f") (simp_all add: inum_def a' f_def)
  have inode: "inode_of a' j = (if nat j = nat i then ai else inode_of a j)" for j
    using tb(8) by (simp add: inode_of_def a')
  have inode_a: "inode_of a' (inum calls a' u) = inode_of a (inum calls a u)" if "u \<noteq> t" "has_inode (rw_pc C u)" for u
    using others_apart(2) [OF S p(1) that] ino by (cases wr) (simp_all add: inode inum i wr_def, simp add: inode_of_def)
  have entry: "open_file_table a' ! nat (call_fd (calls u)) = open_file_table a ! nat (call_fd (calls u))"
    "open_file_table (rw_fs C') ! nat (call_fd (calls u)) = open_file_table (rw_fs C) ! nat (call_fd (calls u))"
    if "u \<noteq> t" "has_file (rw_pc C u)" for u
    using others_apart(1) [OF S p(1) that] by (simp_all add: a' C'(1) f_def)
  have par: "fs_params a' = fs_params a" "fs_data a' = am" by (simp_all add: a')
  have "is_handle a' = is_handle a" by (simp add: fun_eq_iff is_handle_def handle_def a')
  then have "locks_ok calls a' C'"
    using simD(3) [OF S] p has_inode_file [OF p(1)] has_inode_file [OF p(2)]
    by (simp add: locks_ok_def inum C' fun_upd_apply)
  moreover have "same_fs calls a' C'"
  proof -
    have c: "rw_fs C = a\<lparr>open_file_table := open_file_table (rw_fs C), inode_table := inode_table (rw_fs C), fs_data := fs_data (rw_fs C)\<rparr>"
      using simD(4) [OF S] by (simp add: same_fs_def Let_def)
    have "rw_fs C' = a'\<lparr>open_file_table := open_file_table (rw_fs C'), inode_table := inode_table (rw_fs C'), fs_data := fs_data (rw_fs C')\<rparr>"
      by (simp add: C'(1) a') (subst c, simp)
    moreover have "fs_data a' ! k = fs_data (rw_fs C') ! k"
      if k: "k < length (fs_data a')" and no: "\<forall>u. \<not> lagging calls a' C' u k" for k
    proof -
      have "lagging calls a' C' u k = lagging calls a C u k" if "u \<noteq> t" for u
        using that data_lag_inode [of "is_write (calls u)" "rw_pc C u"] inode_a [OF that] entry(2) [OF that has_inode_file]
        by (cases "data_lag (is_write (calls u)) (rw_pc C u) = 0")
          (simp add: no_lag C'(2), simp add: lagging_def place_def C'(2) par blk_addr_def)
      with no have "\<not> lagging calls a C t k \<Longrightarrow> fs_data a ! k = fs_data (rw_fs C) ! k"
        using simD(4) [OF S] k len by (simp add: same_fs_def Let_def par) metis
      with lags [of k] no k len show ?thesis by (simp add: par C'(1))
    qed
    moreover have new: "open_file_table (rw_fs C') = (open_file_table (rw_fs C))[nat f := ce]"
      "inode_table (rw_fs C') = (inode_table (rw_fs C))[nat i := ci]" "fs_data (rw_fs C') = cm" by (simp_all add: C'(1))
    moreover have "if wr then ai = ahead p' (of_offset (open_file_table a' ! nat f)) ci else ai = inode_of a i \<and> ci = inode_of (rw_fs C) i"
      using ino tb(3) by (simp add: a')
    note inodes_step [OF S i p(1) C'(2,4) new(2) entry(1) this [unfolded wr_def f_def]]
    moreover have "open_file_table a' = (open_file_table a)[nat f := ce\<lparr>of_offset := of_offset ce + off_lag wr p'\<rparr>]"
      "inode_table a' = (inode_table a)[nat i := ai]" by (simp_all add: a' e(1))
    ultimately show ?thesis
      using sim_shape(6-8) [OF S] len entries_step [OF S p(1) C'(2,3), folded f_def wr_def, OF new(1)]
      by (simp add: same_fs_def Let_def par(2))
  qed
  moreover have "thread_ok calls a' C' u" for u
  proof (cases "u = t \<or> \<not> has_inode (rw_pc C u)")
    case True
    with own C'(2) show ?thesis by (cases "u = t"; cases "rw_pc C u") (simp_all add: thread_ok_def)
  next
    case False
    then have u: "u \<noteq> t" "has_inode (rw_pc C u)" by auto
    note same = inode_a [OF u] entry [OF u(1) has_inode_file [OF u(2)]] par(1) and uf = sim_entry(6) [OF S has_inode_file [OF u(2)]]
    have "late_copy calls a' C' u n" if l: "late_copy calls a C u n" for n
    proof (rule late_copy_keep [OF l same(1,3,4)], unfold par(2), rule slices_step [OF simD(1) [OF S] inv(1) l uf _ _ len(1)])
      show "owns a' (inum calls a u) (i_data_block (inode_of a (inum calls a u)))"
        using late_copy_block(1) [OF simD(1) [OF S] l uf] same(1) uf by (simp add: owns_def inum) (simp add: a' view_simps)
      fix k assume "k < length (fs_data a)" "am ! k \<noteq> fs_data a ! k"
      from change [OF this] others_apart(2) [OF S p(1) u] tb(6)
      show "inum calls a u \<noteq> i \<and> owns a' i (i_data_block ai) \<and> blk_addr a (i_data_block ai) \<le> k \<and>
          k < blk_addr a (i_data_block ai) + unat (BLOCK_SIZE a)"
        by (auto simp: owns_def inode i wr_def) (simp_all add: a' view_simps i)
    qed
    with simD(5) [OF S, of u] u(1) same show ?thesis
      by (cases "rw_pc C u"; cases "calls u") (auto simp: thread_ok_def Let_def C'(2))
  qed
  ultimately show ?thesis using inv by (simp add: sim_def)
qed

end
