(* ===== verification/FS_Serial_Steps.thy ===== *)
theory FS_Serial_Steps
  imports FS_Serial
begin

text \<open>Every statement of \<open>tfs_read\<close> and \<open>tfs_write\<close> keeps the comparison of \<open>FS_Serial\<close>.\<close>

section \<open>Statements under both locks\<close>

lemma data_step_same:
  fixes calls C t
  defines "f \<equiv> call_fd (calls t)" and "wr \<equiv> is_write (calls t)"
  assumes S: "sim calls a C" and i: "i = inum calls a t" and p: "has_inode (rw_pc C t)" "has_inode p'"
    and C': "rw_fs C' = (rw_fs C)\<lparr>fs_data := cm, inode_table := (inode_table (rw_fs C))[nat i := ci],
        open_file_table := (open_file_table (rw_fs C))[nat f := ce]\<rparr>"
      "rw_pc C' = (rw_pc C)(t := p')" "rw_mutex C' = rw_mutex C" "rw_writer C' = rw_writer C" "rw_readers C' = rw_readers C"
    and e: "open_file_table a ! nat f = ce\<lparr>of_offset := of_offset ce + off_lag wr p'\<rparr>"
    and ino: "if wr then inode_of a i = ahead p' (of_offset (open_file_table a ! nat f)) ci else ci = inode_of (rw_fs C) i"
    and len: "length cm = length (fs_data a)"
    and lags: "\<And>k. k < length (fs_data a) \<Longrightarrow> \<not> lagging calls a C' t k \<Longrightarrow>
        (\<not> lagging calls a C t k \<Longrightarrow> fs_data a ! k = fs_data (rw_fs C) ! k) \<Longrightarrow> fs_data a ! k = cm ! k"
    and own: "thread_ok calls a C' t"
  shows "sim calls a C'"
proof (rule data_step [OF S i p _ C'(2-5)])
  show "rw_fs C' = (rw_fs C)\<lparr>free_blocks := free_blocks a, fs_data := cm, inode_table := (inode_table (rw_fs C))[nat i := ci],
      open_file_table := (open_file_table (rw_fs C))[nat (call_fd (calls t)) := ce]\<rparr>"
    using sim_shape(4) [OF S, symmetric] by (simp add: C'(1) f_def)
  show "a = a\<lparr>free_blocks := free_blocks a, fs_data := fs_data a, inode_table := (inode_table a)[nat i := inode_of a i],
      open_file_table := (open_file_table a)[nat (call_fd (calls t)) := open_file_table a ! nat f]\<rparr>"
    by (simp add: inode_of_def f_def)
  show "of_inumber ce = i" using arg_cong [OF e, of of_inumber] by (simp add: i inum_def f_def)
qed (use simD [OF S] e ino len lags own in \<open>simp_all add: f_def wr_def\<close>)

text \<open>The next statement, once the checks of the arrays are out of the way.\<close>

lemma rw_next_in:
  assumes S: "sim calls a C" and p: "has_inode (rw_pc C t)"
  defines "s \<equiv> rw_fs C" and "call \<equiv> calls t" and "f \<equiv> call_fd (calls t)" and "i \<equiv> inum calls a t" and "wr \<equiv> is_write (calls t)"
  defines "e \<equiv> open_file_table s ! nat f" and "ino \<equiv> inode_of s i"
  defines "put \<equiv> (\<lambda>x. with_fs (s\<lparr>inode_table := (inode_table s)[nat i := x]\<rparr>) C)"
  shows "rw_next calls t C =
    Some (case rw_pc C t of
        Size \<Rightarrow> Ok (at_size call t e ino C)
      | Alloc n \<Rightarrow> at_alloc t n ino C
      | Set_block n b \<Rightarrow> Ok (goto t (Copy n) (put (ino\<lparr>i_data_block := b\<rparr>)))
      | Copy n \<Rightarrow> at_copy call t n e ino C
      | Move n bs \<Rightarrow> Ok (goto t (if wr then Grow n else Unlock_inode (sint n) bs)
          (with_fs (s\<lparr>open_file_table := (open_file_table s)[nat f := e\<lparr>of_offset := of_offset e + n\<rparr>]\<rparr>) C))
      | Grow n \<Rightarrow> Ok (goto t (Unlock_inode (sint n) []) (put (if of_offset e > i_size ino then ino\<lparr>i_size := of_offset e\<rparr> else ino)))
      | Unlock_inode r bs \<Rightarrow> Ok (goto t (Unlock_file r bs) (unlock_inode t wr i C)))"
proof -
  note tb = sim_entry [OF S has_inode_file [OF p]]
  have ok: "\<not> (f < 0 \<or> length (open_file_table s) \<le> nat f)" "\<not> (\<not> valid_inumber s i \<or> length (inode_table s) \<le> nat i)"
    "of_inumber (open_file_table s ! nat f) = i"
    using tb sim_shape(6,7) [OF S] by (simp_all add: f_def i_def s_def)
  show ?thesis
    using p ok unfolding rw_next_defs s_def [symmetric] f_def [symmetric] ok(3)
    by (cases "rw_pc C t") (simp_all add: e_def ino_def put_def wr_def call_def inode_of_def)
qed

lemma results_goto:
  assumes "rw_pc C' = (rw_pc C)(t := p)"
  shows "results calls C' = (case result_of (is_write (calls t)) p of None \<Rightarrow> (results calls C)(t := None) | Some x \<Rightarrow> (results calls C)(t \<mapsto> x))"
  using assms by (auto simp: results_def fun_eq_iff split: option.split)

lemma goto_simps [simp]:
  "rw_fs (goto t p C) = rw_fs C" "rw_pc (goto t p C) = (rw_pc C)(t := p)" "rw_mutex (goto t p C) = rw_mutex C"
  "rw_writer (goto t p C) = rw_writer C" "rw_readers (goto t p C) = rw_readers C" "rw_order (goto t p C) = rw_order C"
  "rw_fs (takes_effect t C) = rw_fs C" "rw_pc (takes_effect t C) = rw_pc C" "rw_mutex (takes_effect t C) = rw_mutex C"
  "rw_writer (takes_effect t C) = rw_writer C" "rw_readers (takes_effect t C) = rw_readers C"
  "rw_order (takes_effect t C) = rw_order C @ [t]"
  "rw_fs (with_fs s C) = s" "rw_pc (with_fs s C) = rw_pc C" "rw_mutex (with_fs s C) = rw_mutex C"
  "rw_writer (with_fs s C) = rw_writer C" "rw_readers (with_fs s C) = rw_readers C" "rw_order (with_fs s C) = rw_order C"
  by (simp_all add: goto_def takes_effect_def with_fs_def)

lemma results_same:
  "result_of (is_write (calls t)) p = result_of (is_write (calls t)) (rw_pc C t) \<Longrightarrow> rw_pc C' = (rw_pc C)(t := p) \<Longrightarrow>
     results calls C' = results calls C"
  by (auto simp: results_def fun_eq_iff)

lemma sim_quietly:
  assumes "sim calls a C'" "rw_order C' = rw_order C" "rw_pc C' = (rw_pc C)(t := p)"
    and "result_of (is_write (calls t)) p = result_of (is_write (calls t)) (rw_pc C t)"
  shows "sim_step calls a C t C'"
  using assms results_same [of calls t p C C'] by (simp add: sim_step_def)

lemma sim_effect:
  assumes "call_effect (calls t) a = (r, bs, a')" "sim calls a' C'" "rw_order C' = rw_order C @ [t]"
    and "rw_pc C' = (rw_pc C)(t := p)" "result_of (is_write (calls t)) (rw_pc C t) = None"
      "result_of (is_write (calls t)) p = Some (r, bs)"
  shows "sim_step calls a C t C'"
  using assms results_goto [OF assms(4)] by (auto simp: sim_step_def results_def)

lemma step_Set_block:
  assumes S: "sim calls a C" and p: "rw_pc C t = Set_block n b"
  shows "\<exists>C'. rw_next calls t C = Some (Ok C') \<and> sim_step calls a C t C'"
proof -
  let ?i = "inum calls a t"
  define C' where "C' = goto t (Copy n) (with_fs ((rw_fs C)\<lparr>inode_table := (inode_table (rw_fs C))[nat ?i := (inode_of (rw_fs C) ?i)\<lparr>i_data_block := b\<rparr>]\<rparr>) C)"
  have h: "has_inode (rw_pc C t)" and lc: "late_copy calls a C t n" using simD(5) [OF S, of t] by (simp_all add: p thread_ok_def)
  from lc obtain fd buffer m where c: "calls t = Write_call fd buffer m" by (cases "calls t") (simp_all add: late_copy_def)
  have same: "place calls a C' t = place calls a C t" by (simp add: place_def C'_def)
  have "sim calls a C'"
  proof (rule data_step_same [OF S refl h, where p' = "Copy n" and C' = C' and cm = "fs_data (rw_fs C)"
        and ce = "open_file_table (rw_fs C) ! nat (call_fd (calls t))"])
    show "thread_ok calls a C' t" using lc by (simp add: thread_ok_def C'_def c late_copy_def place_def)
    have "ahead (Copy n) off (ino\<lparr>i_data_block := b\<rparr>) = ahead (Set_block n b) off ino" for off ino by (cases ino) simp
    then show "if is_write (calls t) then inode_of a ?i = ahead (Copy n) (of_offset (open_file_table a ! nat (call_fd (calls t))))
          ((inode_of (rw_fs C) ?i)\<lparr>i_data_block := b\<rparr>) else (inode_of (rw_fs C) ?i)\<lparr>i_data_block := b\<rparr> = inode_of (rw_fs C) ?i"
      using sim_inode(1) [OF S h] by (simp only: p c is_write.simps if_True)
  qed (use sim_entry(4) [OF S has_inode_file [OF h]] sim_shape(8) [OF S] same in
      \<open>simp_all add: C'_def p c lagging_def\<close>)
  then show ?thesis
    using rw_next_in [OF S h] by (auto simp: p C'_def c intro: sim_quietly)
qed

lemma step_Copy_write:
  assumes S: "sim calls a C" and p: "rw_pc C t = Copy n" and w: "calls t = Write_call fd buffer m"
  shows "\<exists>C'. rw_next calls t C = Some (Ok C') \<and> sim_step calls a C t C'"
proof -
  let ?i = "inum calls a t" and ?p = "place calls a C t"
  have h: "has_inode (rw_pc C t)" and lc: "late_copy calls a C t n" using simD(5) [OF S, of t] by (simp_all add: p w thread_ok_def)
  note tb = sim_entry [OF S has_inode_file [OF h]] and inv = simD(1) [OF S] and si = sim_inode(1) [OF S h] and sh = sim_shape [OF S]
  note lb = late_copy_block [OF inv lc tb(6)]
  have blk: "i_data_block (inode_of a ?i) = i_data_block (inode_of (rw_fs C) ?i)" using si by (simp add: p w)
  have fits: "?p + unat n \<le> length (fs_data a)"
    using lb(4) blk_in_data [OF fs_invD(1) [OF inv] lb(2)] by simp
  have n: "unat n \<le> length buffer" "read_at ?p (unat n) (fs_data a) = take (unat n) buffer"
    using lc by (simp_all add: late_copy_def w)
  define cm where "cm = write_at ?p (take (unat n) buffer) (fs_data (rw_fs C))"
  define C' where "C' = goto t (Move n []) (with_fs ((rw_fs C)\<lparr>fs_data := cm\<rparr>) C)"
  have "at_copy (calls t) t n (open_file_table (rw_fs C) ! nat (call_fd (calls t))) (inode_of (rw_fs C) ?i) C = Ok C'"
    using lb(2) fits n(1) sh(1,3,8) blk
    by (simp add: at_copy_def w data_block_get_eq Let_def C'_def cm_def place_def blk_addr_def valid_block_number_def read_at_def)
  moreover have "sim calls a C'"
  proof (rule data_step_same [OF S refl h, where p' = "Move n []" and C' = C' and cm = cm
        and ci = "inode_of (rw_fs C) ?i" and ce = "open_file_table (rw_fs C) ! nat (call_fd (calls t))"])
    show "rw_fs C' = (rw_fs C)\<lparr>fs_data := cm, inode_table := (inode_table (rw_fs C))[nat ?i := inode_of (rw_fs C) ?i],
        open_file_table := (open_file_table (rw_fs C))[nat (call_fd (calls t)) := open_file_table (rw_fs C) ! nat (call_fd (calls t))]\<rparr>"
      by (simp add: C'_def inode_of_def)
    fix k assume k: "k < length (fs_data a)" and eq: "\<not> lagging calls a C t k \<Longrightarrow> fs_data a ! k = fs_data (rw_fs C) ! k"
    show "fs_data a ! k = cm ! k"
    proof (cases "lagging calls a C t k")
      case True
      then have "?p \<le> k" "k - ?p < unat n" by (auto simp: lagging_def p w)
      moreover have "read_at ?p (unat n) (fs_data a) ! (k - ?p) = take (unat n) buffer ! (k - ?p)" by (simp only: n(2))
      ultimately have "fs_data a ! k = buffer ! (k - ?p)" using fits by (simp add: nth_read_at)
      with \<open>?p \<le> k\<close> \<open>k - ?p < unat n\<close> k fits n(1) sh(8) show ?thesis by (simp add: cm_def nth_write_at) linarith
    next
      case False
      with eq k fits n(1) sh(8) show ?thesis by (auto simp: cm_def nth_write_at lagging_def p w)
    qed
  qed (use tb(4) si sh(8) fits n(1) in \<open>simp_all add: C'_def p w cm_def thread_ok_def\<close>)
  ultimately show ?thesis
    using rw_next_in [OF S h] by (auto simp: p C'_def w intro: sim_quietly)
qed

lemma step_Move:
  assumes S: "sim calls a C" and p: "rw_pc C t = Move n bs"
  shows "\<exists>C'. rw_next calls t C = Some (Ok C') \<and> sim_step calls a C t C'"
proof -
  let ?i = "inum calls a t" and ?f = "call_fd (calls t)" and ?e = "open_file_table (rw_fs C) ! nat (call_fd (calls t))"
  have h: "has_inode (rw_pc C t)" and bs: "is_write (calls t) \<Longrightarrow> bs = []" using simD(5) [OF S, of t] by (simp_all add: p thread_ok_def)
  define p' where "p' = (if is_write (calls t) then Grow n else Unlock_inode (sint n) bs)"
  define C' where "C' = goto t p' (with_fs ((rw_fs C)\<lparr>open_file_table := (open_file_table (rw_fs C))[nat ?f := ?e\<lparr>of_offset := of_offset ?e + n\<rparr>]\<rparr>) C)"
  have "sim calls a C'"
  proof (rule data_step_same [OF S refl h, where p' = p' and C' = C' and cm = "fs_data (rw_fs C)"
        and ci = "inode_of (rw_fs C) ?i" and ce = "?e\<lparr>of_offset := of_offset ?e + n\<rparr>"])
    show "rw_fs C' = (rw_fs C)\<lparr>fs_data := fs_data (rw_fs C), inode_table := (inode_table (rw_fs C))[nat ?i := inode_of (rw_fs C) ?i],
        open_file_table := (open_file_table (rw_fs C))[nat ?f := ?e\<lparr>of_offset := of_offset ?e + n\<rparr>]\<rparr>"
      by (simp add: C'_def inode_of_def)
  qed (use sim_entry(4) [OF S has_inode_file [OF h]] sim_inode(1) [OF S h] sim_shape(8) [OF S] in
      \<open>simp_all add: C'_def p p'_def no_lag thread_ok_def\<close>)
  then show ?thesis
    using rw_next_in [OF S h] bs by (auto simp: p C'_def p'_def intro!: sim_quietly)
qed

lemma step_Grow:
  assumes S: "sim calls a C" and p: "rw_pc C t = Grow n"
  shows "\<exists>C'. rw_next calls t C = Some (Ok C') \<and> sim_step calls a C t C'"
proof -
  let ?i = "inum calls a t" and ?f = "call_fd (calls t)" and ?e = "open_file_table (rw_fs C) ! nat (call_fd (calls t))"
  have h: "has_inode (rw_pc C t)" and w: "is_write (calls t)" using simD(5) [OF S, of t] by (simp_all add: p thread_ok_def)
  define ino where "ino = inode_of (rw_fs C) ?i"
  define ci where "ci = (if of_offset ?e > i_size ino then ino\<lparr>i_size := of_offset ?e\<rparr> else ino)"
  define C' where "C' = goto t (Unlock_inode (sint n) []) (with_fs ((rw_fs C)\<lparr>inode_table := (inode_table (rw_fs C))[nat ?i := ci]\<rparr>) C)"
  have ci: "ci = ino\<lparr>i_size := max (i_size ino) (of_offset ?e)\<rparr>" by (cases ino) (auto simp: ci_def max_def)
  have "sim calls a C'"
    by (rule data_step_same [OF S refl h, where p' = "Unlock_inode (sint n) []" and C' = C' and cm = "fs_data (rw_fs C)"
        and ci = ci and ce = ?e])
      (use sim_entry(4) [OF S has_inode_file [OF h]] sim_inode(1) [OF S h] sim_shape(8) [OF S] w in
      \<open>simp_all add: C'_def p no_lag thread_ok_def ci ino_def\<close>)
  then show ?thesis
    using rw_next_in [OF S h] by (auto simp: p C'_def ci_def ino_def intro!: sim_quietly)
qed

lemma pc_step:
  assumes S: "sim calls a C" and h: "has_inode (rw_pc C t)" "has_inode p'"
    and C': "rw_fs C' = rw_fs C" "rw_pc C' = (rw_pc C)(t := p')" "rw_mutex C' = rw_mutex C" "rw_writer C' = rw_writer C"
      "rw_readers C' = rw_readers C"
    and p': "off_lag (is_write (calls t)) p' = off_lag (is_write (calls t)) (rw_pc C t)"
      "data_lag (is_write (calls t)) p' = 0" "data_lag (is_write (calls t)) (rw_pc C t) = 0"
      "\<And>off ino. is_write (calls t) \<Longrightarrow> ahead p' off ino = ahead (rw_pc C t) off ino"
    and own: "thread_ok calls a C' t"
  shows "sim calls a C'"
proof (rule data_step_same [OF S refl h _ C'(2-5)])
  show "rw_fs C' = (rw_fs C)\<lparr>fs_data := fs_data (rw_fs C),
      inode_table := (inode_table (rw_fs C))[nat (inum calls a t) := inode_of (rw_fs C) (inum calls a t)],
      open_file_table := (open_file_table (rw_fs C))[nat (call_fd (calls t)) := open_file_table (rw_fs C) ! nat (call_fd (calls t))]\<rparr>"
    by (simp add: C'(1) inode_of_def)
qed (use sim_entry(4) [OF S has_inode_file [OF h(1)]] sim_inode(1) [OF S h(1)] sim_shape(8) [OF S] p' C'(2) own in
    \<open>simp_all add: no_lag\<close>)

lemma write_amount:
  assumes "fs_inv a" "is_handle a fd" "call_ok (Write_call fd buffer m)"
  defines "e \<equiv> open_file_table a ! nat fd"
  defines "n \<equiv> clamp_write m (of_offset e) (BLOCK_SIZE a)"
  shows "unat n = write_count a fd (unat m)" "unat n \<le> length buffer" "sint n = int (unat n)"
    "unat (of_offset e) + unat n \<le> unat (BLOCK_SIZE a)" "of_nat (write_count a fd (unat m)) = n"
proof -
  note hf = handle_facts [OF assms(1,2)]
  show c: "unat n = write_count a fd (unat m)"
    unfolding n_def e_def write_count_def using assms(3) hf(5,7) by (intro unat_clamp_write) (simp_all add: call_ok_def)
  show "of_nat (write_count a fd (unat m)) = n" by (simp flip: c)
  show "unat n \<le> length buffer" using assms(3) by (simp add: c write_count_def call_ok_def min.coboundedI1)
  show "unat (of_offset e) + unat n \<le> unat (BLOCK_SIZE a)"
    using hf(5) by (simp add: c write_count_def e_def word_le_nat_alt)
  then show "sint n = int (unat n)" using hf(7) by (intro sint_small) simp
qed

lemma read_amount:
  fixes len :: size_t
  assumes "fs_inv a" "is_handle a fd" "in_file a fd"
  defines "e \<equiv> open_file_table a ! nat fd"
  defines "sz \<equiv> i_size (inode_of a (of_inumber e))"
  defines "n \<equiv> clamp_read (sz - of_offset e) len"
  shows "unat n = read_count a fd (unat len)" "sint n = int (unat n)"
    "unat (of_offset e) + unat n \<le> unat sz" "unat sz \<le> unat (BLOCK_SIZE a)" "of_nat (read_count a fd (unat len)) = n"
proof -
  note hf = handle_facts [OF assms(1,2)]
  have off: "of_offset e \<le> sz" using assms(3) by (simp add: in_file_def Let_def e_def sz_def)
  show c: "unat n = read_count a fd (unat len)"
    using unat_clamp_read [OF off] by (simp add: n_def read_count_def e_def sz_def Let_def)
  show "of_nat (read_count a fd (unat len)) = n" by (simp flip: c)
  show b: "unat (of_offset e) + unat n \<le> unat sz" "unat sz \<le> unat (BLOCK_SIZE a)"
    using off hf(6) unat_clamp_read [OF off, of len] unfolding n_def word_le_nat_alt sz_def e_def by linarith+
  show "sint n = int (unat n)" using b hf(7) by (intro sint_small) simp
qed

lemma step_nothing:
  assumes S: "sim calls a C" and p: "rw_pc C t = Size \<or> (\<exists>n. rw_pc C t = Alloc n)" and c: "call_effect (calls t) a = (r, [], a)"
  shows "sim_step calls a C t (takes_effect t (goto t (Unlock_inode r []) C))"
proof (rule sim_effect [where p = "Unlock_inode r []" and calls = calls and t = t, OF c])
  show "sim calls a (takes_effect t (goto t (Unlock_inode r []) C))"
    by (rule pc_step [OF S, of t "Unlock_inode r []"]) (use p in \<open>auto simp: thread_ok_def\<close>)
qed (use p in auto)

lemma step_Size:
  assumes S: "sim calls a C" and p: "rw_pc C t = Size" and ok: "call_ok (calls t)"
  shows "\<exists>C'. rw_next calls t C = Some (Ok C') \<and> sim_step calls a C t C'"
proof -
  have h: "has_inode (rw_pc C t)" by (simp add: p)
  note tb = sim_entry [OF S has_inode_file [OF h]] and inv = simD(1) [OF S]
  have e: "open_file_table (rw_fs C) ! nat (call_fd (calls t)) = open_file_table a ! nat (call_fd (calls t))"
    and ino: "inode_of (rw_fs C) (inum calls a t) = inode_of a (inum calls a t)"
    using tb(4) sim_inode(1) [OF S h] by (simp_all add: p)
  show ?thesis
  proof (cases "calls t")
    case (Read_call fd len)
    define n where "n = clamp_read (i_size (inode_of a (inum calls a t)) - of_offset (open_file_table a ! nat fd)) len"
    note ra = read_amount(1) [where fd = fd and len = len, OF inv]
    note nx = rw_next_in [OF S h] e [unfolded Read_call call_fd.simps] ino p Read_call at_size_def Let_def clamp_read_def [symmetric] n_def [symmetric] word_gt_0
    show ?thesis
    proof (cases "n = 0")
      case True
      have "read_count a fd (unat len) = 0"
        using ra tb(1) all_in_fileD [OF simD(2) [OF S] inv] True by (simp add: n_def inum_def Read_call)
      then have "call_effect (calls t) a = (0, [], a)"
        using tb(1) by (simp add: call_effect_def read_effect_def Let_def Read_call)
      then have "sim_step calls a C t (takes_effect t (goto t (Unlock_inode 0 []) C))"
        using p by (intro step_nothing [OF S]) simp_all
      with True show ?thesis by (simp add: nx)
    next
      case False
      have "sim_step calls a C t (goto t (Copy n) C)"
        by (rule sim_quietly [where p = "Copy n"], rule pc_step [OF S h, of "Copy n"])
          (simp_all add: p thread_ok_def Read_call n_def False [unfolded n_def])
      with False show ?thesis by (simp add: nx)
    qed
  next
    case (Write_call fd buffer m)
    define n where "n = clamp_write m (of_offset (open_file_table a ! nat fd)) (BLOCK_SIZE a)"
    note wa = write_amount [OF inv _ ok [unfolded Write_call]]
    note nx = rw_next_in [OF S h] e [unfolded Write_call call_fd.simps] ino p Write_call at_size_def Let_def clamp_write_def [symmetric] n_def [symmetric] word_gt_0
      state_block_size_def sim_shape(3) [OF S]
    show ?thesis
    proof (cases "n = 0")
      case True
      have "write_count a fd (unat m) = 0" using wa(1) tb(1) True by (simp add: n_def Write_call)
      then have "call_effect (calls t) a = (0, [], a)"
        using tb(1) by (simp add: call_effect_def write_effect_def Let_def Write_call)
      then have "sim_step calls a C t (takes_effect t (goto t (Unlock_inode 0 []) C))"
        using p by (intro step_nothing [OF S]) simp_all
      with True show ?thesis by (simp add: nx)
    next
      case False
      have "sim_step calls a C t (goto t (Alloc n) C)"
        by (rule sim_quietly [where p = "Alloc n"], rule pc_step [OF S h, of "Alloc n"])
          (simp_all add: p thread_ok_def Write_call n_def False [unfolded n_def])
      with False show ?thesis by (simp add: nx)
    qed
  qed
qed

text \<open>A write that has its block: from here on its bytes, its size and its offset count as written.\<close>

lemma alloc_effect:
  assumes S: "sim calls a C" and p: "rw_pc C t = Alloc n" and w: "calls t = Write_call fd buffer m" and ok: "call_ok (calls t)"
    and b: "write_block a (inum calls a t) = Some b"
    and p': "p' = (if i_size (inode_of a (inum calls a t)) = 0 then Set_block n b else Copy n)"
    and C': "rw_fs C' = (rw_fs C)\<lparr>free_blocks := (free_blocks a)[nat b := TAKEN]\<rparr>" "rw_pc C' = (rw_pc C)(t := p')"
      "rw_mutex C' = rw_mutex C" "rw_writer C' = rw_writer C" "rw_readers C' = rw_readers C" "rw_order C' = rw_order C @ [t]"
  shows "sim_step calls a C t C'"
proof -
  let ?i = "inum calls a t" and ?e = "open_file_table a ! nat fd" and ?ino = "inode_of a (inum calls a t)"
  have h: "has_inode (rw_pc C t)" and n: "n = clamp_write m (of_offset ?e) (BLOCK_SIZE a)" "n \<noteq> 0"
    using simD(5) [OF S, of t] by (auto simp: p w thread_ok_def)
  note tb = sim_entry [OF S has_inode_file [OF h], unfolded w call_fd.simps, folded w] and inv = simD(1) [OF S]
  note wa = write_amount [OF inv tb(1) ok [unfolded w], folded n(1)] and wb = write_block_facts [OF inv tb(6) b]
  have e: "open_file_table (rw_fs C) ! nat fd = ?e" and ino: "inode_of (rw_fs C) ?i = ?ino"
    using tb(4) sim_inode(1) [OF S h] by (simp_all add: p w)
  define off' where "off' = of_offset ?e + n"
  define q where "q = blk_addr a b + unat (of_offset ?e)"
  define ai where "ai = ?ino\<lparr>i_size := max (i_size ?ino) off', i_data_block := b\<rparr>"
  define am where "am = write_at q (take (unat n) buffer) (fs_data a)"
  define a' where "a' = a\<lparr>free_blocks := (free_blocks a)[nat b := TAKEN], fs_data := am, inode_table := (inode_table a)[nat ?i := ai],
      open_file_table := (open_file_table a)[nat fd := ?e\<lparr>of_offset := off'\<rparr>]\<rparr>"
  have fits: "q + unat n \<le> length (fs_data a)" "q + unat n \<le> blk_addr a b + unat (BLOCK_SIZE a)"
    using wa(4) blk_in_data [OF fs_invD(1) [OF inv] wb(1)] by (simp_all add: q_def)
  have off: "unat off' = unat (of_offset ?e) + unat n"
    using add_of_nat_le(1) [OF wa(4)] by (simp add: off'_def)
  with n(2) have sz: "i_size ai \<noteq> 0" by (auto simp: ai_def max_def unat_eq_0 [symmetric] word_le_nat_alt)
  have eff: "call_effect (calls t) a = (sint n, [], a')"
    using tb(1) b n(2) wa(1,3,5)
    by (simp add: call_effect_def write_effect_def Let_def w a'_def am_def ai_def off'_def q_def inum_def unat_eq_0 flip: wa(1))
  have place: "place calls a' C' t = q"
    using tb(3,8) by (simp add: place_def a'_def C'(1) w e q_def ai_def inode_of_def inum_def)
  have lag: "data_lag True p' = n" "off_lag True p' = n" by (simp_all add: p')
  have ah: "ai = ahead p' off' ?ino"
    using wb(3) by (cases ?ino) (auto simp: ai_def p')
  have "sim calls a' C'"
  proof (rule data_step [OF S refl h, where p' = p' and C' = C' and cm = "fs_data (rw_fs C)" and am = am and ci = ?ino and ai = ai
        and ce = ?e and ae = "?e\<lparr>of_offset := off'\<rparr>" and fb = "(free_blocks a)[nat b := TAKEN]"])
    show "rw_fs C' = (rw_fs C)\<lparr>free_blocks := (free_blocks a)[nat b := TAKEN], fs_data := fs_data (rw_fs C),
        inode_table := (inode_table (rw_fs C))[nat ?i := ?ino], open_file_table := (open_file_table (rw_fs C))[nat (call_fd (calls t)) := ?e]\<rparr>"
      using e [symmetric] ino [symmetric] by (simp add: C'(1) inode_of_def w)
    show "fs_inv a'" "all_in_file a'"
      using call_effect_inv [OF inv simD(2) [OF S] ok] call_effect_in_file [OF inv simD(2) [OF S] ok] by (simp_all add: eff)
    fix k
    assume k: "k < length (fs_data a)"
    { assume "am ! k \<noteq> fs_data a ! k"
      with k fits wa(2) have "q \<le> k \<and> k < q + unat n" by (auto simp: am_def nth_write_at split: if_splits)
      with fits(2) sz show "is_write (calls t) \<and> i_size ai \<noteq> 0 \<and> blk_addr a (i_data_block ai) \<le> k \<and>
          k < blk_addr a (i_data_block ai) + unat (BLOCK_SIZE a)" by (simp add: w ai_def q_def) }
    assume "\<not> lagging calls a' C' t k" "\<not> lagging calls a C t k \<Longrightarrow> fs_data a ! k = fs_data (rw_fs C) ! k"
    with k fits wa(2) show "am ! k = fs_data (rw_fs C) ! k"
      by (auto simp: lagging_def place am_def nth_write_at C'(2) lag p w)
  next
    have "late_copy calls a' C' t n"
      using wa(2,4) sz fits tb(3,8) e read_write_same [of q "take (unat n) buffer" "fs_data a"]
      by (simp add: late_copy_def w place) (simp add: a'_def am_def C'(1) inode_of_def inum_def w min_absorb2)
    then show "thread_ok calls a' C' t" by (simp add: thread_ok_def C'(2) p' w)
  qed (use C' tb(3) ah fits wa(2) sim_shape(8) [OF S] in \<open>simp_all add: a'_def w inum_def am_def off'_def p'\<close>)
  then show ?thesis
    by (rule sim_effect [where calls = calls and t = t and p = p', OF eff _ C'(6,2)]) (simp_all add: p p' w)
qed

lemma step_Alloc:
  assumes S: "sim calls a C" and p: "rw_pc C t = Alloc n" and ok: "call_ok (calls t)"
  shows "\<exists>C'. rw_next calls t C = Some (Ok C') \<and> sim_step calls a C t C'"
proof -
  let ?i = "inum calls a t" and ?ino = "inode_of a (inum calls a t)"
  obtain fd buffer m where w: "calls t = Write_call fd buffer m" and n: "n = clamp_write m (of_offset (open_file_table a ! nat fd)) (BLOCK_SIZE a)" "n \<noteq> 0"
    using simD(5) [OF S, of t] by (cases "calls t") (auto simp: p thread_ok_def)
  have h: "has_inode (rw_pc C t)" by (simp add: p)
  note tb = sim_entry [OF S has_inode_file [OF h]] and inv = simD(1) [OF S] and sh = sim_shape [OF S]
  have ino: "inode_of (rw_fs C) ?i = ?ino" using sim_inode(1) [OF S h] by (simp add: p)
  show ?thesis
  proof (cases "write_block a ?i")
    case None
    have "unat n = write_count a fd (unat m)"
      using write_amount(1) [OF inv tb(1) [unfolded w call_fd.simps] ok [unfolded w]] by (simp only: n(1))
    with n(2) have "write_count a fd (unat m) \<noteq> 0" by (metis unat_eq_0)
    then have "call_effect (calls t) a = (-1, [], a)"
      using tb(1) None by (simp add: call_effect_def write_effect_def w Let_def inum_def)
    then have "sim_step calls a C t (takes_effect t (goto t (Unlock_inode (-1) []) C))"
      using p by (intro step_nothing [OF S]) simp_all
    moreover have "i_size ?ino = 0" "first_free (free_blocks a) = None" using None by (auto simp: write_block_def split: if_splits)
    ultimately show ?thesis
      using sh by (simp add: rw_next_in [OF S h] p at_alloc_def ino data_block_alloc_eq)
  next
    case (Some b)
    note wb = write_block_facts [OF inv tb(6) Some]
    define p' where "p' = (if i_size ?ino = 0 then Set_block n b else Copy n)"
    define C' where "C' = takes_effect t (goto t p' (with_fs ((rw_fs C)\<lparr>free_blocks := (free_blocks a)[nat b := TAKEN]\<rparr>) C))"
    have "sim_step calls a C t C'"
      by (rule alloc_effect [OF S p w ok Some p'_def]) (simp_all add: C'_def)
    moreover have "at_alloc t n ?ino C = Ok C'"
    proof (cases "i_size ?ino = 0")
      case True
      with Some obtain k where k: "first_free (free_blocks a) = Some k" "b = int k" by (auto simp: write_block_def)
      with True sh show ?thesis by (simp add: at_alloc_def data_block_alloc_eq C'_def p'_def)
    next
      case False
      with wb(3) sh(4) [symmetric] have "with_fs ((rw_fs C)\<lparr>free_blocks := (free_blocks a)[nat b := TAKEN]\<rparr>) C = C"
        by (simp add: with_fs_def)
      with False show ?thesis by (simp add: at_alloc_def C'_def p'_def)
    qed
    ultimately show ?thesis by (simp add: rw_next_in [OF S h] p ino)
  qed
qed

text \<open>A read copies out of a block that no write is changing.\<close>

lemma quiet_block:
  assumes S: "sim calls a C" and h: "has_inode (rw_pc C t)" and r: "\<not> is_write (calls t)"
    and o: "owns a (inum calls a t) b" and k: "blk_addr a b \<le> k" "k < blk_addr a b + unat (BLOCK_SIZE a)"
  shows "fs_data a ! k = fs_data (rw_fs C) ! k"
proof -
  note inv = simD(1) [OF S]
  have "\<not> lagging calls a C u k" for u
  proof
    assume l: "lagging calls a C u k"
    define n where "n = data_lag (is_write (calls u)) (rw_pc C u)"
    from l have n: "n \<noteq> 0" "place calls a C u \<le> k" "k < place calls a C u + unat n" by (auto simp: lagging_def n_def)
    have hu: "has_inode (rw_pc C u)" using data_lag_inode n(1) by (auto simp: n_def)
    have lc: "late_copy calls a C u n"
      using simD(5) [OF S, of u] n(1) unfolding n_def
      by (cases "rw_pc C u"; cases "calls u") (auto simp: thread_ok_def late_copy_def)
    then have "is_write (calls u)" by (cases "calls u") (simp_all add: late_copy_def)
    then have ne: "inum calls a u \<noteq> inum calls a t" using sim_inode(2) [OF S hu] sim_inode(2) [OF S h] r by auto
    note lb = late_copy_block [OF inv lc sim_entry(6) [OF S has_inode_file [OF hu]]]
    have "i_data_block (inode_of a (inum calls a u)) \<noteq> b" using owns_unique [OF inv lb(1)] o ne by auto
    then have "blk_addr a b + unat (BLOCK_SIZE a) \<le> blk_addr a (i_data_block (inode_of a (inum calls a u))) \<or>
        blk_addr a (i_data_block (inode_of a (inum calls a u))) + unat (BLOCK_SIZE a) \<le> blk_addr a b"
      using owns_block(3) [OF inv o] owns_block(3) [OF inv lb(1)] by (intro blk_disjoint) auto
    with k n lb(3,4) show False by linarith
  qed
  moreover have "k < length (fs_data a)"
    using k blk_in_data [OF fs_invD(1) [OF inv] owns_block(1) [OF inv o]] by simp
  ultimately show ?thesis using simD(4) [OF S] by (simp add: same_fs_def Let_def)
qed

lemma step_Copy_read:
  assumes S: "sim calls a C" and p: "rw_pc C t = Copy n" and r: "calls t = Read_call fd len"
  shows "\<exists>C'. rw_next calls t C = Some (Ok C') \<and> sim_step calls a C t C'"
proof -
  let ?i = "inum calls a t" and ?e = "open_file_table a ! nat fd" and ?ino = "inode_of a (inum calls a t)"
  have h: "has_inode (rw_pc C t)" and n: "n = clamp_read (i_size ?ino - of_offset ?e) len" "n \<noteq> 0"
    using simD(5) [OF S, of t] by (auto simp: p r thread_ok_def)
  note tb = sim_entry [OF S has_inode_file [OF h], unfolded r call_fd.simps, folded r] and inv = simD(1) [OF S] and sh = sim_shape [OF S]
  have iv: "of_inumber ?e = ?i" by (simp add: inum_def r)
  have inf: "in_file a fd" by (rule all_in_fileD [OF simD(2) [OF S] inv tb(1)])
  note ra = read_amount(1-3,5) [OF inv tb(1) inf, unfolded iv, where len = len, folded n(1)] and sz = read_amount(4) [OF inv tb(1) inf, unfolded iv]
  have e: "open_file_table (rw_fs C) ! nat fd = ?e" and ino: "inode_of (rw_fs C) ?i = ?ino"
    using tb(4) sim_inode(1) [OF S h] by (simp_all add: p r)
  define b where "b = i_data_block ?ino"
  define q where "q = blk_addr a b + unat (of_offset ?e)"
  define bytes where "bytes = read_at q (unat n) (fs_data a)"
  define C' where "C' = takes_effect t (goto t (Move n bytes) C)"
  define a' where "a' = a\<lparr>open_file_table := (open_file_table a)[nat fd := ?e\<lparr>of_offset := of_offset ?e + n\<rparr>]\<rparr>"
  have "i_size ?ino \<noteq> 0" using ra(3) n(2) by (auto simp: unat_eq_0 [symmetric])
  then have o: "owns a ?i b" using tb(6) by (simp add: owns_def b_def)
  note vb = owns_block(1) [OF inv o]
  have fits: "q + unat n \<le> length (fs_data a)" "q + unat n \<le> blk_addr a b + unat (BLOCK_SIZE a)"
    using ra(3) sz blk_in_data [OF fs_invD(1) [OF inv] vb] by (simp_all add: q_def)
  have "read_at q (unat n) (fs_data (rw_fs C)) = bytes"
    unfolding bytes_def using fits sh(8) quiet_block [OF S h _ o]
    by (intro nth_equalityI) (simp_all add: nth_read_at r q_def)
  then have cp: "at_copy (calls t) t n (open_file_table (rw_fs C) ! nat fd) (inode_of (rw_fs C) ?i) C = Ok C'"
    using vb fits sh(1,3,8)
    by (simp add: at_copy_def r e ino data_block_get_eq b_def [symmetric] q_def blk_addr_def valid_block_number_def Let_def C'_def)
  have eff: "call_effect (calls t) a = (sint n, bytes, a')"
    using tb(1) by (simp add: call_effect_def read_effect_def r Let_def iv b_def q_def bytes_def a'_def ra(2,4) flip: ra(1))
  have "sim calls a' C'"
  proof (rule data_step [OF S refl h, where p' = "Move n bytes" and C' = C' and cm = "fs_data (rw_fs C)" and am = "fs_data a" and ci = ?ino
        and ai = ?ino and ce = ?e and ae = "?e\<lparr>of_offset := of_offset ?e + n\<rparr>" and fb = "free_blocks a"])
    show "rw_fs C' = (rw_fs C)\<lparr>free_blocks := free_blocks a, fs_data := fs_data (rw_fs C),
        inode_table := (inode_table (rw_fs C))[nat ?i := ?ino], open_file_table := (open_file_table (rw_fs C))[nat (call_fd (calls t)) := ?e]\<rparr>"
      using e [symmetric] ino [symmetric] sh(4) [symmetric] by (simp add: C'_def inode_of_def r)
    show "fs_inv a'" "all_in_file a'"
      using call_effect_inv [OF inv simD(2) [OF S], of "calls t"] call_effect_in_file [OF inv simD(2) [OF S], of "calls t"]
      by (simp_all add: eff) (simp_all add: r call_ok_def)
  qed (use sh(8) ino iv in \<open>simp_all add: C'_def a'_def r p no_lag thread_ok_def inode_of_def\<close>)
  then have "sim_step calls a C t C'"
    by (intro sim_effect [where calls = calls and t = t and p = "Move n bytes", OF eff]) (simp_all add: C'_def p r)
  with cp show ?thesis by (simp add: rw_next_in [OF S h] p r)
qed

section \<open>Locks\<close>

lemma step_Start:
  assumes S: "sim calls a C" and p: "rw_pc C t = Start"
  shows "\<exists>C'. rw_next calls t C = Some (Ok C') \<and> sim_step calls a C t C'"
proof -
  let ?f = "call_fd (calls t)"
  have g: "get_open_file_entry ?f (rw_fs C) = Ok (if is_handle a ?f then Some ?f else None)"
    using get_open_file_entry_eq [OF sim_shape(1) [OF S]] sim_shape [OF S] shape_lengths(6) [OF fs_invD(1) [OF simD(1) [OF S]]]
    by (simp add: is_handle_def handle_def valid_file_handle_iff)
  show ?thesis
  proof (cases "is_handle a ?f")
    case True
    have "sim calls a (goto t Lock_file C)"
      by (rule lock_step [OF S, of _ t Lock_file]) (use simD(3) [OF S] True in \<open>auto simp: p locks_ok_def\<close>)
    then have "sim_step calls a C t (goto t Lock_file C)"
      by (rule sim_quietly [where p = Lock_file]) (simp_all add: p)
    with True g show ?thesis by (simp add: rw_next_defs p)
  next
    case False
    have "sim calls a (takes_effect t (goto t (Return (-1) []) C))"
      by (rule lock_step [OF S, of _ t "Return (-1) []"]) (use simD(3) [OF S] in \<open>auto simp: p locks_ok_def\<close>)
    moreover have "call_effect (calls t) a = (-1, [], a)"
      using False by (cases "calls t") (simp_all add: call_effect_def read_effect_def write_effect_def)
    ultimately have "sim_step calls a C t (takes_effect t (goto t (Return (-1) []) C))"
      by (intro sim_effect [where calls = calls and t = t and p = "Return (-1) []"]) (simp_all add: p)
    with False g show ?thesis by (simp add: rw_next_defs p)
  qed
qed

lemma no_holder:
  assumes "locks_ok calls a C"
  shows "rw_mutex C f = None \<Longrightarrow> call_fd (calls u) = f \<Longrightarrow> \<not> has_file (rw_pc C u)"
    "rw_mutex C f = Some t \<Longrightarrow> u \<noteq> t \<Longrightarrow> call_fd (calls u) = f \<Longrightarrow> \<not> has_file (rw_pc C u)"
    "rw_writer C i = None \<Longrightarrow> inum calls a u = i \<Longrightarrow> is_write (calls u) \<Longrightarrow> \<not> has_inode (rw_pc C u)"
    "rw_writer C i = Some t \<Longrightarrow> u \<noteq> t \<Longrightarrow> inum calls a u = i \<Longrightarrow> \<not> has_inode (rw_pc C u)"
    "rw_readers C i = {} \<Longrightarrow> inum calls a u = i \<Longrightarrow> \<not> is_write (calls u) \<Longrightarrow> \<not> has_inode (rw_pc C u)"
  using assms unfolding locks_ok_def by (metis option.distinct(1) option.inject empty_iff)+

lemma step_Lock_file:
  assumes S: "sim calls a C" and p: "rw_pc C t = Lock_file"
  shows "if rw_mutex C (call_fd (calls t)) = None then \<exists>C'. rw_next calls t C = Some (Ok C') \<and> sim_step calls a C t C'
    else rw_next calls t C = None"
proof -
  let ?f = "call_fd (calls t)"
  define C' where "C' = goto t Lock_inode (C\<lparr>rw_mutex := (rw_mutex C)(?f := Some t)\<rparr>)"
  have "is_handle a ?f" using simD(3) [OF S] p by (simp add: locks_ok_def)
  from handle_facts(1,2) [OF simD(1) [OF S] this] sim_shape(6) [OF S]
  have nx: "rw_next calls t C = (if rw_mutex C ?f = None then Some (Ok C') else None)"
    by (simp add: rw_next_defs p C'_def)
  have "sim calls a C'" if "rw_mutex C ?f = None"
    by (rule lock_step [OF S, of _ t Lock_inode])
      (use simD(3) [OF S] no_holder(1) [OF simD(3) [OF S] that] in \<open>auto simp: p C'_def locks_ok_def\<close>)
  then show ?thesis
    using nx by (auto simp: p C'_def intro: sim_quietly)
qed

lemma step_Lock_inode:
  assumes S: "sim calls a C" and p: "rw_pc C t = Lock_inode"
  shows "if rw_writer C (inum calls a t) = None \<and> (is_write (calls t) \<longrightarrow> rw_readers C (inum calls a t) = {})
    then \<exists>C'. rw_next calls t C = Some (Ok C') \<and> sim_step calls a C t C' else rw_next calls t C = None"
proof -
  let ?i = "inum calls a t"
  have "has_file (rw_pc C t)" by (simp add: p)
  note tb = sim_entry [OF S this]
  have nx: "rw_next calls t C = map_option (\<lambda>C. Ok (goto t Size C)) (lock_inode t (is_write (calls t)) ?i C)"
    using tb sim_shape(6,7) [OF S] by (simp add: rw_next_defs p)
  have "sim_step calls a C t (goto t Size C1)" if l: "lock_inode t (is_write (calls t)) ?i C = Some C1" for C1
  proof (rule sim_quietly [where p = Size], rule lock_step [OF S, of _ t Size])
    note L = simD(3) [OF S]
    show "locks_ok calls a (goto t Size C1)"
    proof (cases "is_write (calls t)")
      case True
      with l have C1: "C1 = C\<lparr>rw_writer := (rw_writer C)(?i := Some t)\<rparr>" "rw_writer C ?i = None" "rw_readers C ?i = {}"
        by (auto simp: lock_inode_def split: if_splits)
      have no: "inum calls a u = ?i \<Longrightarrow> \<not> has_inode (rw_pc C u)" for u
        using no_holder(3,5) [OF L] C1(2,3) by blast
      show ?thesis
        using L True tb(1) no unfolding locks_ok_def C1(1) by (simp add: p) (metis option.inject)
    next
      case False
      with l have C1: "C1 = C\<lparr>rw_readers := (rw_readers C)(?i := insert t (rw_readers C ?i))\<rparr>" "rw_writer C ?i = None"
        by (auto simp: lock_inode_def split: if_splits)
      show ?thesis
        using L False tb(1) no_holder(3) [OF L C1(2)] unfolding locks_ok_def C1(1) by (simp add: p) (metis option.inject)
    qed
  qed (use l in \<open>auto simp: p lock_inode_def split: if_splits\<close>)
  with nx show ?thesis by (auto simp: lock_inode_def)
qed

lemma step_Unlock_inode:
  assumes S: "sim calls a C" and p: "rw_pc C t = Unlock_inode r bs"
  shows "\<exists>C'. rw_next calls t C = Some (Ok C') \<and> sim_step calls a C t C'"
proof -
  define C' where "C' = goto t (Unlock_file r bs) (unlock_inode t (is_write (calls t)) (inum calls a t) C)"
  have h: "has_inode (rw_pc C t)" by (simp add: p)
  note w = sim_inode(2) [OF S h]
  have "sim_step calls a C t C'"
  proof (rule sim_quietly [where p = "Unlock_file r bs"], rule lock_step [OF S, of _ t "Unlock_file r bs"])
    show "locks_ok calls a C'"
    proof (cases "is_write (calls t)")
      case True
      with simD(3) [OF S] w sim_entry(1) [OF S has_inode_file [OF h]] no_holder(4) [OF simD(3) [OF S], of "inum calls a t" t]
      show ?thesis unfolding locks_ok_def by (simp add: p C'_def unlock_inode_def)
    next
      case False
      with simD(3) [OF S] sim_entry(1) [OF S has_inode_file [OF h]]
      show ?thesis unfolding locks_ok_def by (simp add: p C'_def unlock_inode_def)
    qed
  qed (auto simp: p C'_def unlock_inode_def)
  then show ?thesis using rw_next_in [OF S h] by (simp add: p C'_def)
qed

lemma step_Unlock_file:
  assumes S: "sim calls a C" and p: "rw_pc C t = Unlock_file r bs"
  shows "\<exists>C'. rw_next calls t C = Some (Ok C') \<and> sim_step calls a C t C'"
proof -
  let ?f = "call_fd (calls t)"
  define C' where "C' = goto t (Return r bs) (C\<lparr>rw_mutex := (rw_mutex C)(?f := None)\<rparr>)"
  have h: "has_file (rw_pc C t)" by (simp add: p)
  have m: "rw_mutex C ?f = Some t" using simD(3) [OF S] h by (simp add: locks_ok_def)
  have "sim_step calls a C t C'"
  proof (rule sim_quietly [where p = "Return r bs"], rule lock_step [OF S, of _ t "Return r bs"])
    show "locks_ok calls a C'"
      using simD(3) [OF S] no_holder(2) [OF simD(3) [OF S] m] by (auto simp: p C'_def locks_ok_def)
  qed (auto simp: p C'_def)
  then show ?thesis using sim_entry [OF S h] sim_shape(6) [OF S] by (simp add: rw_next_defs p C'_def)
qed

end
