(* ===== verification/FS_Interleave.thy ===== *)
theory FS_Interleave
  imports FS_Serial_Steps FS_Demo
begin

text \<open>
  The properties of reads and writes that run at the same time: they behave as if they ran one after the
  other, in an order that respects real time, and no schedule blocks them for ever.
\<close>

section \<open>Reachable states\<close>

lemma idle_not_file: "\<not> has_file p \<Longrightarrow> p \<noteq> Lock_file \<Longrightarrow> p = Start \<or> (\<exists>r bs. p = Return r bs)"
  by (cases p) simp_all

definition waits_for_lock :: "(nat \<Rightarrow> rw_call) \<Rightarrow> fs_state \<Rightarrow> rw_threads \<Rightarrow> nat \<Rightarrow> bool" where
  "waits_for_lock calls a C t \<longleftrightarrow>
     (rw_pc C t = Lock_file \<and> rw_mutex C (call_fd (calls t)) \<noteq> None) \<or>
     (rw_pc C t = Lock_inode \<and>
        (rw_writer C (inum calls a t) \<noteq> None \<or> is_write (calls t) \<and> rw_readers C (inum calls a t) \<noteq> {}))"

lemma step_any:
  assumes S: "sim calls a C" and ok: "call_ok (calls t)" and p: "\<forall>r bs. rw_pc C t \<noteq> Return r bs" and w: "\<not> waits_for_lock calls a C t"
  shows "\<exists>C'. rw_next calls t C = Some (Ok C') \<and> sim_step calls a C t C'"
proof (cases "rw_pc C t")
  case (Copy n)
  with S show ?thesis by (cases "calls t") (auto intro: step_Copy_read step_Copy_write)
qed (use p w step_Lock_file [OF S, of t] step_Lock_inode [OF S, of t] in
    \<open>auto simp: waits_for_lock_def intro: step_Start [OF S] step_Size [OF S _ ok] step_Alloc [OF S _ ok] step_Set_block [OF S]
      step_Move [OF S] step_Grow [OF S] step_Unlock_inode [OF S] step_Unlock_file [OF S]\<close>)

lemma step_none:
  assumes S: "sim calls a C" and p: "(\<exists>r bs. rw_pc C t = Return r bs) \<or> waits_for_lock calls a C t"
  shows "rw_next calls t C = None"
proof (cases "waits_for_lock calls a C t")
  case True
  then show ?thesis
    using step_Lock_file [OF S, of t] step_Lock_inode [OF S, of t] by (auto simp: waits_for_lock_def split: if_splits)
qed (use p in \<open>auto simp: rw_next_defs\<close>)

definition rw_init :: "(nat \<Rightarrow> rw_call) \<Rightarrow> fs_state \<Rightarrow> rw_threads \<Rightarrow> bool" where
  "rw_init calls s C \<longleftrightarrow> fs_inv s \<and> all_in_file s \<and> (\<forall>t. call_ok (calls t)) \<and> C = rw_start s"

definition rw_inv :: "(nat \<Rightarrow> rw_call) \<Rightarrow> fs_state \<Rightarrow> rw_threads \<Rightarrow> bool" where
  "rw_inv calls s C \<longleftrightarrow>
     (\<forall>t. call_ok (calls t)) \<and> distinct (rw_order C) \<and> set (rw_order C) = dom (results calls C) \<and>
     (\<exists>a. serial calls (rw_order C) s = Ok (results calls C, a) \<and> sim calls a C)"

lemma sim_start:
  assumes "fs_inv s" "all_in_file s"
  shows "sim calls s (rw_start s)"
  using assms
  by (auto simp: sim_def locks_ok_def same_fs_def thread_ok_def rw_start_def entry_lag_def inode_ahead_def Let_def lagging_def)

interpretation rw: stepping "rw_init calls s" "rw_step calls" "rw_inv calls s"
proof
  fix C assume i: "rw_init calls s C"
  then have "results calls C = Map.empty" by (auto simp: rw_init_def rw_start_def results_def)
  moreover have "rw_order (rw_start s) = []" by (simp add: rw_start_def)
  ultimately show "rw_inv calls s C"
    using i sim_start [of s calls] by (auto simp: rw_init_def rw_inv_def serial_def)
next
  fix C C' assume inv: "rw_inv calls s C" and "rw_step calls C C'"
  then obtain t where nx: "rw_next calls t C = Some (Ok C')" by (auto elim: rw_step.cases)
  from inv obtain a where ok: "\<forall>t. call_ok (calls t)" and ser: "serial calls (rw_order C) s = Ok (results calls C, a)" and S: "sim calls a C"
    and d: "distinct (rw_order C)" "set (rw_order C) = dom (results calls C)"
    by (auto simp: rw_inv_def)
  have "sim_step calls a C t C'" using step_none [OF S, of t] step_any [OF S, of t] ok nx by fastforce
  then consider "rw_order C' = rw_order C" "results calls C' = results calls C" "sim calls a C'"
    | r bs a' where "rw_order C' = rw_order C @ [t]" "results calls C t = None" "call_effect (calls t) a = (r, bs, a')"
      "results calls C' = (results calls C)(t \<mapsto> (r, bs))" "sim calls a' C'"
    by (auto simp: sim_step_def)
  then show "rw_inv calls s C'"
  proof cases
    case 1
    with ok d ser show ?thesis by (auto simp: rw_inv_def)
  next
    case 2
    moreover have "seq_call (calls t) a = Ok (r, bs, a')"
      using seq_call_eq [OF simD(1,2) [OF S], of "calls t"] ok 2(3) by simp
    ultimately show ?thesis
      using ok d ser by (auto simp: rw_inv_def serial_snoc)
  qed
qed

section \<open>Progress\<close>

text \<open>How many statements are left, at most.\<close>

fun rank :: "rw_pc \<Rightarrow> nat" where
  "rank Start = 11" | "rank Lock_file = 10" | "rank Lock_inode = 9" | "rank Size = 8" | "rank (Alloc n) = 7"
| "rank (Set_block n b) = 6" | "rank (Copy n) = 5" | "rank (Move n bs) = 4" | "rank (Grow n) = 3"
| "rank (Unlock_inode r bs) = 2" | "rank (Unlock_file r bs) = 1" | "rank (Return r bs) = 0"

definition rw_work :: "nat set \<Rightarrow> rw_threads \<Rightarrow> nat" where
  "rw_work T C = (\<Sum>t\<in>T. rank (rw_pc C t))"

lemma rw_next_moves:
  assumes "rw_next calls t C = Some (Ok C')"
  shows "\<exists>p. rw_pc C' = (rw_pc C)(t := p) \<and> rank p < rank (rw_pc C t)"
    and "rw_order C' = rw_order C \<or> rw_order C' = rw_order C @ [t]"
proof -
  have "(\<exists>p. rw_pc C' = (rw_pc C)(t := p) \<and> rank p < rank (rw_pc C t)) \<and> (rw_order C' = rw_order C \<or> rw_order C' = rw_order C @ [t])"
    using assms
    by (cases "rw_pc C t"; cases "calls t")
      (auto simp: rw_next_defs at_size_def at_alloc_def at_copy_def lock_inode_def unlock_inode_def bindR_eq_Ok
        split: if_splits option.splits)
  then show "\<exists>p. rw_pc C' = (rw_pc C)(t := p) \<and> rank p < rank (rw_pc C t)" "rw_order C' = rw_order C \<or> rw_order C' = rw_order C @ [t]"
    by blast+
qed

lemma order_grows: "(rw_step calls)\<^sup>*\<^sup>* C C' \<Longrightarrow> \<exists>ts. rw_order C' = rw_order C @ ts"
proof (induction rule: rtranclp_induct)
  case (step C1 C2)
  then show ?case using rw_next_moves(2) by (fastforce elim: rw_step.cases)
qed simp

lemma someone_can:
  assumes S: "sim calls a C" and ok: "\<forall>t. call_ok (calls t)" and t: "\<forall>r bs. rw_pc C t \<noteq> Return r bs"
  shows "\<exists>u C'. rw_next calls u C = Some (Ok C') \<and> (rw_pc C u \<noteq> Start \<or> u = t)"
proof -
  note L = simD(3) [OF S]
  have can: "\<exists>u C'. rw_next calls u C = Some (Ok C') \<and> (rw_pc C u \<noteq> Start \<or> u = t)"
    if "\<forall>r bs. rw_pc C u \<noteq> Return r bs" "\<not> waits_for_lock calls a C u" "rw_pc C u \<noteq> Start \<or> u = t" for u
    using step_any [OF S, of u] ok that by blast
  consider u where "has_inode (rw_pc C u)" | u where "\<forall>u. \<not> has_inode (rw_pc C u)" "has_file (rw_pc C u)" | "\<forall>u. \<not> has_file (rw_pc C u)"
    by blast
  then show ?thesis
  proof cases
    case 1
    then show ?thesis by (intro can [of u]) (auto simp: waits_for_lock_def)
  next
    case 2
    have "rw_writer C i = None" for i using locks_okD(2) [OF L, of i] 2(1) by (cases "rw_writer C i") auto
    moreover have "rw_readers C i = {}" for i using L 2(1) by (auto simp: locks_ok_def)
    ultimately show ?thesis using 2(2) by (intro can [of u]) (auto simp: waits_for_lock_def)
  next
    case 3
    have "rw_mutex C f = None" for f using locks_okD(1) [OF L, of f] 3 by (cases "rw_mutex C f") auto
    moreover have "rw_pc C t \<noteq> Lock_inode" using spec [OF 3, of t] by auto
    ultimately show ?thesis using t by (intro can [of t]) (auto simp: waits_for_lock_def)
  qed
qed

section \<open>One thread after the other\<close>

lemma quiet_same:
  assumes S: "sim calls a C" and q: "\<And>t. rw_pc C t = Start \<or> (\<exists>r bs. rw_pc C t = Return r bs)"
  shows "rw_fs C = a"
proof -
  note L = simD(3) [OF S]
  have hold: "\<not> has_file (rw_pc C t)" "\<not> has_inode (rw_pc C t)" "data_lag wr (rw_pc C t) = 0" for t wr
    using q [of t] by auto
  have m: "rw_mutex C f = None" for f using locks_okD(1) [OF L, of f] hold(1) by (cases "rw_mutex C f") auto
  have w: "rw_writer C i = None" for i using locks_okD(2) [OF L, of i] hold(2) by (cases "rw_writer C i") auto
  let ?c = "rw_fs C"
  have "?c = a\<lparr>open_file_table := open_file_table ?c, inode_table := inode_table ?c, fs_data := fs_data ?c\<rparr>"
    using simD(4) [OF S] by (simp add: same_fs_def Let_def)
  moreover have "open_file_table ?c = open_file_table a" "inode_table ?c = inode_table a" "fs_data ?c = fs_data a"
    using simD(4) [OF S] m w no_lag hold(3)
    by (auto simp: same_fs_def Let_def entry_lag_def inode_ahead_def intro!: nth_equalityI)
  ultimately show ?thesis by simp
qed

text \<open>
  C10: Threads that call \<open>tfs_read\<close> and \<open>tfs_write\<close> at the same time, on any handles and interleaved in any way
  at their accesses to memory and locks, behave as if the calls had been made one after the other:
  there is an order in which every call that has returned gave what it gives there, and once no call is
  under way the file system is the one the calls leave in that order.
\<close>

theorem reads_and_writes_serial:
  assumes "fs_inv s" "all_in_file s" "\<And>t. call_ok (calls t)" "(rw_step calls)\<^sup>*\<^sup>* (rw_start s) C"
  shows "\<exists>res a. serial calls (rw_order C) s = Ok (res, a) \<and> distinct (rw_order C) \<and> set (rw_order C) = dom res \<and>
    (\<forall>t r bs. rw_pc C t = Return r bs \<longrightarrow> res t = Some (r, bs)) \<and>
    ((\<forall>t. rw_pc C t = Start \<or> (\<exists>r bs. rw_pc C t = Return r bs)) \<longrightarrow> rw_fs C = a)"
proof -
  have "rw_inv calls s C" using rw.reachable_good [OF assms(4)] assms(1-3) by (simp add: rw_init_def)
  then obtain a where "serial calls (rw_order C) s = Ok (results calls C, a)" "sim calls a C"
    "distinct (rw_order C)" "set (rw_order C) = dom (results calls C)" by (auto simp: rw_inv_def)
  moreover have "results calls C t = Some (r, bs)" if "rw_pc C t = Return r bs" for t r bs using that by (simp add: results_def)
  ultimately show ?thesis using quiet_same by blast
qed

text \<open>
  C11: That order respects real time. If a call has returned before another one starts, and the second one has
  taken effect later on, then the first one stands before it in the order, and what comes before does not
  change any more.
\<close>

theorem serial_order_in_real_time:
  assumes "fs_inv s" "all_in_file s" "\<And>t. call_ok (calls t)"
    and "(rw_step calls)\<^sup>*\<^sup>* (rw_start s) C" "(rw_step calls)\<^sup>*\<^sup>* C C'"
    and "rw_pc C t = Return r bs" "rw_pc C u = Start" "u \<in> set (rw_order C')"
  shows "\<exists>us. rw_order C' = rw_order C @ us \<and> t \<in> set (rw_order C) \<and> u \<in> set us"
proof -
  have "rw_inv calls s C" using rw.reachable_good [OF assms(4)] assms(1-3) by (simp add: rw_init_def)
  then have "set (rw_order C) = dom (results calls C)" by (simp add: rw_inv_def)
  moreover have "results calls C t \<noteq> None" "results calls C u = None" using assms(6,7) by (simp_all add: results_def)
  ultimately have "t \<in> set (rw_order C)" "u \<notin> set (rw_order C)" by auto
  with order_grows [OF assms(5)] assms(8) show ?thesis by auto
qed


section \<open>Witnesses\<close>

text \<open>A write through one handle and a read through another handle of the same file.\<close>

definition demo_calls :: "nat \<Rightarrow> rw_call" where
  "demo_calls t = (if t = 0 then Write_call 0 (cstr '' you'') 4 else if t = 1 then Read_call 1 20 else Read_call (-1) 0)"

fun schedule :: "(nat \<Rightarrow> rw_call) \<Rightarrow> nat list \<Rightarrow> rw_threads \<Rightarrow> rw_threads" where
  "schedule calls [] C = C"
| "schedule calls (t # ts) C = (case rw_next calls t C of Some (Ok C') \<Rightarrow> schedule calls ts C' | _ \<Rightarrow> schedule calls ts C)"

lemma schedule_steps: "(rw_step calls)\<^sup>*\<^sup>* C (schedule calls ts C)"
proof (induction ts arbitrary: C)
  case (Cons t ts)
  then show ?case
    by (auto simp: rw_step.simps intro: converse_rtranclp_into_rtranclp split: option.split result.split)
qed simp

lemma demo_calls_ok: "call_ok (demo_calls t)"
  by (simp add: demo_calls_def call_ok_def) code_simp

lemma demo_in_file: "all_in_file demo_file"
proof -
  have "length (open_file_table demo_file) = 2" "in_file demo_file (int 0)" "in_file demo_file (int 1)" by code_simp+
  then show ?thesis by (auto simp: all_in_file_def less_Suc_eq numeral_2_eq_2)
qed

lemma schedule_others: "t \<notin> set ts \<Longrightarrow> rw_pc (schedule calls ts C) t = rw_pc C t"
  by (induction ts arbitrary: C) (auto split: option.split result.split dest: rw_next_moves(1))

text \<open>Thread 2 has returned, thread 0 is about to copy its bytes, thread 1 has not started; then all return.\<close>

definition demo_mid :: rw_threads where
  "demo_mid = schedule demo_calls [2, 0, 0, 0, 0, 0] (rw_start demo_file)"

definition demo_rest :: "nat list" where
  "demo_rest = [1, 1, 1, 0, 1, 0, 1, 0, 0, 0, 0, 1, 1, 1, 1, 1, 1]"

lemma demo_mid_steps: "(rw_step demo_calls)\<^sup>*\<^sup>* (rw_start demo_file) demo_mid"
  unfolding demo_mid_def by (rule schedule_steps)

lemma reads_and_writes_serial_witness:
  "\<exists>res a. serial demo_calls (rw_order (schedule demo_calls demo_rest demo_mid)) demo_file = Ok (res, a) \<and>
     res 0 = Some (4, []) \<and> res 1 = Some (9, cstr ''hello you'')"
proof -
  have "rw_pc (schedule demo_calls demo_rest demo_mid) 0 = Return 4 []"
    "rw_pc (schedule demo_calls demo_rest demo_mid) 1 = Return 9 (cstr ''hello you'')" by code_simp+
  moreover have "(rw_step demo_calls)\<^sup>*\<^sup>* (rw_start demo_file) (schedule demo_calls demo_rest demo_mid)"
    using demo_mid_steps schedule_steps by (rule rtranclp_trans)
  ultimately show ?thesis
    using reads_and_writes_serial [where calls = demo_calls and C = "schedule demo_calls demo_rest demo_mid", OF demo_file_inv demo_in_file demo_calls_ok] by blast
qed

lemma serial_order_in_real_time_witness:
  "\<exists>us. rw_order (schedule demo_calls demo_rest demo_mid) = rw_order demo_mid @ us \<and> 2 \<in> set (rw_order demo_mid) \<and> 1 \<in> set us"
proof (rule serial_order_in_real_time [OF demo_file_inv demo_in_file demo_calls_ok demo_mid_steps schedule_steps])
  show "rw_pc demo_mid 2 = Return (-1) []" by code_simp
  show "rw_pc demo_mid 1 = Start" by code_simp
  show "1 \<in> set (rw_order (schedule demo_calls demo_rest demo_mid))" by code_simp
qed


end
