(* ===== verification/FS2_State.thy ===== *)
theory FS2_State
  imports FS_Operations
begin

text \<open>
  The state layer of the copy of TecnicoFS that the broker links against (\<open>fs2/state.c\<close>,
  \<open>fs2/state.h\<close>, \<open>fs2/config.h\<close>). It has no links and no locks of its own, and where
  \<open>fs/state.c\<close> reports an error on a bad argument it stops the process. The structures
  \<open>tfs_params\<close>, \<open>dir_entry_t\<close>, \<open>allocation_state_t\<close> and \<open>open_file_entry_t\<close> are
  declared as in \<open>fs/\<close> and shared; the definitions carry the suffix 2.
\<close>

section \<open>Data\<close>

datatype inode_type2 = T_FILE2 | T_DIRECTORY2

record inode2_t =
  i_node_type2 :: inode_type2
  i_size2 :: size_t
  i_data_block2 :: int

text \<open>\<open>g_library_mutex\<close>, of \<open>fs2/operations.c\<close>, says whether the running thread holds it.\<close>

record fs2_state =
  fs_params2 :: tfs_params
  allocated2 :: bool
  inode_table2 :: "inode2_t list"
  freeinode_ts2 :: "allocation_state_t list"
  fs_data2 :: "byte list"
  free_blocks2 :: "allocation_state_t list"
  open_file_table2 :: "open_file_entry_t list"
  free_open_file_entries2 :: "allocation_state_t list"
  g_library_mutex :: bool

abbreviation INODE_TABLE_SIZE2 :: "fs2_state \<Rightarrow> size_t" where
  "INODE_TABLE_SIZE2 s \<equiv> max_inode_count (fs_params2 s)"
abbreviation DATA_BLOCKS2 :: "fs2_state \<Rightarrow> size_t" where
  "DATA_BLOCKS2 s \<equiv> max_block_count (fs_params2 s)"
abbreviation MAX_OPEN_FILES2 :: "fs2_state \<Rightarrow> size_t" where
  "MAX_OPEN_FILES2 s \<equiv> max_open_files_count (fs_params2 s)"
abbreviation BLOCK_SIZE2 :: "fs2_state \<Rightarrow> size_t" where
  "BLOCK_SIZE2 s \<equiv> block_size (fs_params2 s)"

definition MAX_DIR_ENTRIES2 :: "fs2_state \<Rightarrow> nat" where
  "MAX_DIR_ENTRIES2 s = unat (BLOCK_SIZE2 s) div sizeof_dir_entry"

definition valid_inumber2 :: "fs2_state \<Rightarrow> int \<Rightarrow> bool" where
  "valid_inumber2 s inumber \<longleftrightarrow> 0 \<le> inumber \<and> inumber < uint (INODE_TABLE_SIZE2 s)"

definition valid_block_number2 :: "fs2_state \<Rightarrow> int \<Rightarrow> bool" where
  "valid_block_number2 s block_number \<longleftrightarrow> 0 \<le> block_number \<and> block_number < uint (DATA_BLOCKS2 s)"

definition valid_file_handle2 :: "fs2_state \<Rightarrow> int \<Rightarrow> bool" where
  "valid_file_handle2 s file_handle \<longleftrightarrow> 0 \<le> file_handle \<and> file_handle < uint (MAX_OPEN_FILES2 s)"

definition state_block_size2 :: "fs2_state \<Rightarrow> size_t" where
  "state_block_size2 s = BLOCK_SIZE2 s"

section \<open>Initialisation\<close>

text \<open>The results of the six \<open>malloc\<close> calls; \<open>None\<close> is \<open>NULL\<close>.\<close>

record fs2_allocs =
  a_inode_table2 :: "inode2_t list option"
  a_freeinode_ts2 :: "allocation_state_t list option"
  a_fs_data2 :: "byte list option"
  a_free_blocks2 :: "allocation_state_t list option"
  a_open_file_table2 :: "open_file_entry_t list option"
  a_free_open_file_entries2 :: "allocation_state_t list option"

definition state_init2 :: "tfs_params \<Rightarrow> fs2_allocs \<Rightarrow> fs2_state \<Rightarrow> (int \<times> fs2_state) result" where
  "state_init2 params al s0 =
     (let s = s0\<lparr>fs_params2 := params\<rparr> in
      if allocated2 s then Ok (-1, s)
      else
       let s = s\<lparr>allocated2 := (a_inode_table2 al \<noteq> None),
                 inode_table2 := or_null (a_inode_table2 al),
                 freeinode_ts2 := or_null (a_freeinode_ts2 al),
                 fs_data2 := or_null (a_fs_data2 al),
                 free_blocks2 := or_null (a_free_blocks2 al),
                 open_file_table2 := or_null (a_open_file_table2 al),
                 free_open_file_entries2 := or_null (a_free_open_file_entries2 al)\<rparr> in
       if a_inode_table2 al = None \<or> a_freeinode_ts2 al = None \<or> a_fs_data2 al = None \<or>
          a_free_blocks2 al = None \<or> a_open_file_table2 al = None \<or> a_free_open_file_entries2 al = None
       then Ok (-1, s)
       else
        bindR (foldR (\<lambda>i ys. arr_set ys i FREE) [0..<unat (INODE_TABLE_SIZE2 s)] (freeinode_ts2 s)) (\<lambda>fi.
        bindR (foldR (\<lambda>i ys. arr_set ys i FREE) [0..<unat (DATA_BLOCKS2 s)] (free_blocks2 s)) (\<lambda>fb.
        bindR (foldR (\<lambda>i ys. arr_set ys i FREE) [0..<unat (MAX_OPEN_FILES2 s)] (free_open_file_entries2 s)) (\<lambda>fo.
        Ok (0, s\<lparr>freeinode_ts2 := fi, free_blocks2 := fb, free_open_file_entries2 := fo\<rparr>)))))"

definition state_destroy2 :: "fs2_state \<Rightarrow> int \<times> fs2_state" where
  "state_destroy2 s =
     (0, s\<lparr>allocated2 := False, inode_table2 := [], freeinode_ts2 := [], fs_data2 := [],
           free_blocks2 := [], open_file_table2 := [], free_open_file_entries2 := []\<rparr>)"

section \<open>Data blocks\<close>

definition data_block_alloc2 :: "fs2_state \<Rightarrow> (int \<times> fs2_state) result" where
  "data_block_alloc2 s =
     bindR (findR (\<lambda>i. if BLOCK_SIZE2 s = 0 then Undef
                       else bindR (arr_get (free_blocks2 s) i) (\<lambda>a. Ok (a = FREE)))
             [0..<unat (DATA_BLOCKS2 s)]) (\<lambda>r.
     case r of
       Some i \<Rightarrow> Ok (int i, s\<lparr>free_blocks2 := (free_blocks2 s)[i := TAKEN]\<rparr>)
     | None \<Rightarrow> Ok (-1, s))"

definition data_block_free2 :: "int \<Rightarrow> fs2_state \<Rightarrow> fs2_state result" where
  "data_block_free2 block_number s =
     (if \<not> valid_block_number2 s block_number then Abort
      else
       bindR (arr_set (free_blocks2 s) (nat block_number) FREE) (\<lambda>fb.
       Ok (s\<lparr>free_blocks2 := fb\<rparr>)))"

definition data_block_get2 :: "int \<Rightarrow> fs2_state \<Rightarrow> nat result" where
  "data_block_get2 block_number s =
     (if \<not> valid_block_number2 s block_number then Abort
      else Ok (unat ((word_of_int block_number :: size_t) * BLOCK_SIZE2 s)))"

section \<open>Inodes\<close>

text \<open>Reading and writing \<open>*inode\<close>, for the inode pointer \<open>&inode_table[i]\<close>.\<close>

definition inode_at2 :: "fs2_state \<Rightarrow> int \<Rightarrow> inode2_t result" where
  "inode_at2 s i = (if i < 0 then Undef else arr_get (inode_table2 s) (nat i))"

definition inode_put2 :: "int \<Rightarrow> inode2_t \<Rightarrow> fs2_state \<Rightarrow> fs2_state result" where
  "inode_put2 i ino s =
     (if i < 0 then Undef
      else bindR (arr_set (inode_table2 s) (nat i) ino) (\<lambda>t. Ok (s\<lparr>inode_table2 := t\<rparr>)))"

definition inode_alloc2 :: "fs2_state \<Rightarrow> (int \<times> fs2_state) result" where
  "inode_alloc2 s =
     bindR (findR (\<lambda>i. if BLOCK_SIZE2 s = 0 then Undef
                       else bindR (arr_get (freeinode_ts2 s) i) (\<lambda>a. Ok (a = FREE)))
             [0..<unat (INODE_TABLE_SIZE2 s)]) (\<lambda>r.
     case r of
       Some i \<Rightarrow> Ok (int i, s\<lparr>freeinode_ts2 := (freeinode_ts2 s)[i := TAKEN]\<rparr>)
     | None \<Rightarrow> Ok (-1, s))"

definition inode_delete2 :: "int \<Rightarrow> fs2_state \<Rightarrow> fs2_state result" where
  "inode_delete2 inumber s =
     (if \<not> valid_inumber2 s inumber then Abort
      else
       bindR (arr_get (freeinode_ts2 s) (nat inumber)) (\<lambda>a.
       if a \<noteq> TAKEN then Abort
       else
        bindR (inode_at2 s inumber) (\<lambda>ino.
        bindR (if i_size2 ino > 0 then data_block_free2 (i_data_block2 ino) s else Ok s) (\<lambda>s.
        Ok (s\<lparr>freeinode_ts2 := (freeinode_ts2 s)[nat inumber := FREE]\<rparr>)))))"

definition inode_create2 :: "inode_type2 \<Rightarrow> fs2_state \<Rightarrow> (int \<times> fs2_state) result" where
  "inode_create2 i_type s =
     bindR (inode_alloc2 s) (\<lambda>(inumber, s).
     if inumber = -1 then Ok (-1, s)
     else
      bindR (inode_at2 s inumber) (\<lambda>ino.
      bindR (inode_put2 inumber (ino\<lparr>i_node_type2 := i_type\<rparr>) s) (\<lambda>s.
      case i_type of
        T_DIRECTORY2 \<Rightarrow>
          bindR (data_block_alloc2 s) (\<lambda>(b, s).
          bindR (inode_at2 s inumber) (\<lambda>ino.
          if b = -1 then
            bindR (inode_put2 inumber (ino\<lparr>i_size2 := 0, i_data_block2 := -1\<rparr>) s) (\<lambda>s.
            bindR (inode_delete2 inumber s) (\<lambda>s. Ok (-1, s)))
          else
            bindR (inode_put2 inumber (ino\<lparr>i_size2 := BLOCK_SIZE2 s, i_data_block2 := b\<rparr>) s) (\<lambda>s.
            bindR (data_block_get2 b s) (\<lambda>a.
            bindR (foldR (\<lambda>k m. mem_write m (d_inumber_addr a k) (enc32 (-1)))
                     [0..<MAX_DIR_ENTRIES2 s] (fs_data2 s)) (\<lambda>m.
            Ok (inumber, s\<lparr>fs_data2 := m\<rparr>))))))
      | T_FILE2 \<Rightarrow>
          bindR (inode_at2 s inumber) (\<lambda>ino.
          bindR (inode_put2 inumber (ino\<lparr>i_size2 := 0, i_data_block2 := -1\<rparr>) s) (\<lambda>s.
          Ok (inumber, s))))))"

definition inode_get2 :: "int \<Rightarrow> fs2_state \<Rightarrow> int result" where
  "inode_get2 inumber s = (if \<not> valid_inumber2 s inumber then Abort else Ok inumber)"

section \<open>Directory entries\<close>

definition clear_dir_entry2 :: "int \<Rightarrow> cstring \<Rightarrow> fs2_state \<Rightarrow> (int \<times> fs2_state) result" where
  "clear_dir_entry2 inode sub_name s =
     bindR (inode_at2 s inode) (\<lambda>ino.
     if i_node_type2 ino \<noteq> T_DIRECTORY2 then Ok (-1, s)
     else
      bindR (data_block_get2 (i_data_block2 ino) s) (\<lambda>a.
      bindR (findR (\<lambda>k. strcmp_mem (fs_data2 s) (d_name_addr a k) sub_name)
               [0..<MAX_DIR_ENTRIES2 s]) (\<lambda>r.
      case r of
        None \<Rightarrow> Ok (-1, s)
      | Some k \<Rightarrow>
          bindR (mem_write (fs_data2 s) (d_inumber_addr a k) (enc32 (-1))) (\<lambda>m.
          bindR (mem_write m (d_name_addr a k) (replicate MAX_FILE_NAME 0)) (\<lambda>m.
          Ok (0, s\<lparr>fs_data2 := m\<rparr>))))))"

definition add_dir_entry2 :: "int \<Rightarrow> cstring \<Rightarrow> int \<Rightarrow> fs2_state \<Rightarrow> (int \<times> fs2_state) result" where
  "add_dir_entry2 inode sub_name sub_inumber s =
     (if length sub_name = 0 \<or> length sub_name > MAX_FILE_NAME - 1 then Ok (-1, s)
      else
       bindR (inode_at2 s inode) (\<lambda>ino.
       if i_node_type2 ino \<noteq> T_DIRECTORY2 then Ok (-1, s)
       else
        bindR (data_block_get2 (i_data_block2 ino) s) (\<lambda>a.
        bindR (findR (\<lambda>k. bindR (mem_read (fs_data2 s) (d_inumber_addr a k) 4) (\<lambda>b. Ok (dec32 b = -1)))
                 [0..<MAX_DIR_ENTRIES2 s]) (\<lambda>r.
        case r of
          None \<Rightarrow> Ok (-1, s)
        | Some k \<Rightarrow>
            bindR (mem_write (fs_data2 s) (d_inumber_addr a k) (enc32 sub_inumber)) (\<lambda>m.
            bindR (mem_write m (d_name_addr a k) (strncpy_bytes sub_name (MAX_FILE_NAME - 1))) (\<lambda>m.
            bindR (mem_write m (d_name_addr a k + (MAX_FILE_NAME - 1)) [0]) (\<lambda>m.
            Ok (0, s\<lparr>fs_data2 := m\<rparr>))))))))"

definition find_in_dir2 :: "int \<Rightarrow> cstring \<Rightarrow> fs2_state \<Rightarrow> int result" where
  "find_in_dir2 inode sub_name s =
     bindR (inode_at2 s inode) (\<lambda>ino.
     if i_node_type2 ino \<noteq> T_DIRECTORY2 then Ok (-1)
     else
      bindR (data_block_get2 (i_data_block2 ino) s) (\<lambda>a.
      bindR (findR (\<lambda>k. bindR (mem_read (fs_data2 s) (d_inumber_addr a k) 4) (\<lambda>b.
                        if dec32 b \<noteq> -1
                        then strncmp_mem (fs_data2 s) (d_name_addr a k) sub_name MAX_FILE_NAME
                        else Ok False))
               [0..<MAX_DIR_ENTRIES2 s]) (\<lambda>r.
      case r of
        None \<Rightarrow> Ok (-1)
      | Some k \<Rightarrow> bindR (mem_read (fs_data2 s) (d_inumber_addr a k) 4) (\<lambda>b. Ok (dec32 b)))))"

section \<open>Open file table\<close>

definition add_to_open_file_table2 :: "int \<Rightarrow> size_t \<Rightarrow> fs2_state \<Rightarrow> (int \<times> fs2_state) result" where
  "add_to_open_file_table2 inumber offset s =
     bindR (findR (\<lambda>i. bindR (arr_get (free_open_file_entries2 s) i) (\<lambda>a. Ok (a = FREE)))
              [0..<unat (MAX_OPEN_FILES2 s)]) (\<lambda>r.
     case r of
       Some i \<Rightarrow>
         bindR (arr_set (open_file_table2 s) i \<lparr>of_inumber = inumber, of_offset = offset\<rparr>) (\<lambda>t.
         Ok (int i, s\<lparr>free_open_file_entries2 := (free_open_file_entries2 s)[i := TAKEN],
                      open_file_table2 := t\<rparr>))
     | None \<Rightarrow> Ok (-1, s))"

definition remove_from_open_file_table2 :: "int \<Rightarrow> fs2_state \<Rightarrow> fs2_state result" where
  "remove_from_open_file_table2 fhandle s =
     (if \<not> valid_file_handle2 s fhandle then Abort
      else
       bindR (arr_get (free_open_file_entries2 s) (nat fhandle)) (\<lambda>a.
       if a \<noteq> TAKEN then Abort
       else Ok (s\<lparr>free_open_file_entries2 := (free_open_file_entries2 s)[nat fhandle := FREE]\<rparr>)))"

definition get_open_file_entry2 :: "int \<Rightarrow> fs2_state \<Rightarrow> int option result" where
  "get_open_file_entry2 fhandle s =
     (if \<not> valid_file_handle2 s fhandle then Ok None
      else bindR (arr_get (free_open_file_entries2 s) (nat fhandle)) (\<lambda>a.
           Ok (if a \<noteq> TAKEN then None else Some fhandle)))"

end
