(* ===== verification/FS2_Operations.thy ===== *)
theory FS2_Operations
  imports FS2_State
begin

text \<open>
  The client interface of the copy of TecnicoFS in \<open>fs2/operations.c\<close>. One global mutex is held
  for the whole of every call. \<open>pthread_mutex_lock\<close> and \<open>pthread_mutex_unlock\<close> report errors
  as positive numbers, so the branches of the source for the result -1 are never taken.
\<close>

definition library_lock :: "fs2_state \<Rightarrow> fs2_state result" where
  "library_lock s = (if g_library_mutex s then Deadlock else Ok (s\<lparr>g_library_mutex := True\<rparr>))"

definition library_unlock :: "fs2_state \<Rightarrow> fs2_state result" where
  "library_unlock s = (if g_library_mutex s then Ok (s\<lparr>g_library_mutex := False\<rparr>) else Undef)"

section \<open>Parameters and initialisation\<close>

definition tfs_default_params2 :: tfs_params where
  "tfs_default_params2 =
     \<lparr>max_inode_count = 64, max_block_count = 1024, max_open_files_count = 16, block_size = 1024\<rparr>"

definition tfs_init2 ::
  "tfs_params option \<Rightarrow> fs2_allocs \<Rightarrow> fs2_state \<Rightarrow> (int \<times> fs2_state) result" where
  "tfs_init2 params_ptr al s =
     (let params = (case params_ptr of Some p \<Rightarrow> p | None \<Rightarrow> tfs_default_params2) in
      bindR (state_init2 params al s) (\<lambda>(r, s).
      if r \<noteq> 0 then Ok (-1, s)
      else
       bindR (inode_create2 T_DIRECTORY2 s) (\<lambda>(root, s).
       if root \<noteq> ROOT_DIR_INUM then Ok (-1, s) else Ok (0, s))))"

definition tfs_destroy2 :: "fs2_state \<Rightarrow> int \<times> fs2_state" where
  "tfs_destroy2 s = (case state_destroy2 s of (r, s) \<Rightarrow> if r \<noteq> 0 then (-1, s) else (0, s))"

section \<open>Path names\<close>

definition valid_pathname2 :: "cstring option \<Rightarrow> bool" where
  "valid_pathname2 name =
     (case name of None \<Rightarrow> False | Some n \<Rightarrow> length n > 1 \<and> n ! 0 = slash)"

definition tfs_lookup2 :: "cstring option \<Rightarrow> int \<Rightarrow> fs2_state \<Rightarrow> int result" where
  "tfs_lookup2 name root_inode s =
     (if \<not> valid_pathname2 name then Ok (-1)
      else find_in_dir2 root_inode (tl (the name)) s)"

section \<open>Calls\<close>

definition tfs_open2 ::
  "cstring option \<Rightarrow> tfs_file_mode_t \<Rightarrow> fs2_state \<Rightarrow> (int \<times> fs2_state) result" where
  "tfs_open2 name mode s =
     bindR (library_lock s) (\<lambda>s.
     if \<not> valid_pathname2 name then bindR (library_unlock s) (\<lambda>s. Ok (-1, s))
     else
      bindR (inode_get2 ROOT_DIR_INUM s) (\<lambda>root_dir_inode.
      bindR (tfs_lookup2 name root_dir_inode s) (\<lambda>inum.
      bindR
       (if inum \<ge> 0 then
          bindR (inode_get2 inum s) (\<lambda>inode.
          bindR (inode_at2 s inode) (\<lambda>ino.
          bindR (if has_flag mode TFS_O_TRUNC \<and> i_size2 ino > 0
                 then bindR (data_block_free2 (i_data_block2 ino) s) (inode_put2 inode (ino\<lparr>i_size2 := 0\<rparr>))
                 else Ok s) (\<lambda>s.
          bindR (inode_at2 s inode) (\<lambda>ino.
          Ok (Some (inum, if has_flag mode TFS_O_APPEND then i_size2 ino else 0), s)))))
        else if has_flag mode TFS_O_CREAT then
          bindR (inode_create2 T_FILE2 s) (\<lambda>(inum, s).
          if inum = -1 then Ok (None, s)
          else
           bindR (add_dir_entry2 root_dir_inode (tl (the name)) inum s) (\<lambda>(r, s).
           if r = -1 then bindR (inode_delete2 inum s) (\<lambda>s. Ok (None, s))
           else Ok (Some (inum, 0), s)))
        else Ok (None, s))
       (\<lambda>(found, s).
        case found of
          None \<Rightarrow> bindR (library_unlock s) (\<lambda>s. Ok (-1, s))
        | Some (inum, offset) \<Rightarrow>
            bindR (add_to_open_file_table2 inum offset s) (\<lambda>(ret, s).
            bindR (library_unlock s) (\<lambda>s. Ok (ret, s)))))))"

definition tfs_close2 :: "int \<Rightarrow> fs2_state \<Rightarrow> (int \<times> fs2_state) result" where
  "tfs_close2 fhandle s =
     bindR (library_lock s) (\<lambda>s.
     bindR (get_open_file_entry2 fhandle s) (\<lambda>file.
     case file of
       None \<Rightarrow> bindR (library_unlock s) (\<lambda>s. Ok (-1, s))
     | Some _ \<Rightarrow>
         bindR (remove_from_open_file_table2 fhandle s) (\<lambda>s.
         bindR (library_unlock s) (\<lambda>s. Ok (0, s)))))"

definition tfs_write2 :: "int \<Rightarrow> byte list \<Rightarrow> size_t \<Rightarrow> fs2_state \<Rightarrow> (int \<times> fs2_state) result" where
  "tfs_write2 fhandle buffer to_write s =
     bindR (library_lock s) (\<lambda>s.
     bindR (get_open_file_entry2 fhandle s) (\<lambda>file.
     case file of
       None \<Rightarrow> bindR (library_unlock s) (\<lambda>s. Ok (-1, s))
     | Some f \<Rightarrow>
       bindR (arr_get (open_file_table2 s) (nat f)) (\<lambda>entry.
       bindR (inode_get2 (of_inumber entry) s) (\<lambda>inode.
       let to_write = (if to_write + of_offset entry > state_block_size2 s
                       then state_block_size2 s - of_offset entry else to_write) in
       if to_write > 0 then
         bindR (inode_at2 s inode) (\<lambda>ino.
         bindR (if i_size2 ino = 0
                then bindR (data_block_alloc2 s) (\<lambda>(bnum, s).
                     if bnum = -1 then Ok (False, s)
                     else bindR (inode_put2 inode (ino\<lparr>i_data_block2 := bnum\<rparr>) s) (\<lambda>s. Ok (True, s)))
                else Ok (True, s)) (\<lambda>(space, s).
         if \<not> space then bindR (library_unlock s) (\<lambda>s. Ok (-1, s))
         else
          bindR (inode_at2 s inode) (\<lambda>ino.
          bindR (data_block_get2 (i_data_block2 ino) s) (\<lambda>block.
          bindR (mem_read buffer 0 (unat to_write)) (\<lambda>bytes.
          bindR (mem_write (fs_data2 s) (block + unat (of_offset entry)) bytes) (\<lambda>m.
          let offset = of_offset entry + to_write in
          bindR (arr_set (open_file_table2 s) (nat f) (entry\<lparr>of_offset := offset\<rparr>)) (\<lambda>t.
          bindR (inode_put2 inode (if offset > i_size2 ino then ino\<lparr>i_size2 := offset\<rparr> else ino)
                   (s\<lparr>fs_data2 := m, open_file_table2 := t\<rparr>)) (\<lambda>s.
          bindR (library_unlock s) (\<lambda>s. Ok (sint to_write, s))))))))))
       else bindR (library_unlock s) (\<lambda>s. Ok (sint to_write, s))))))"

definition tfs_read2 :: "int \<Rightarrow> size_t \<Rightarrow> fs2_state \<Rightarrow> (int \<times> byte list \<times> fs2_state) result" where
  "tfs_read2 fhandle len s =
     bindR (library_lock s) (\<lambda>s.
     bindR (get_open_file_entry2 fhandle s) (\<lambda>file.
     case file of
       None \<Rightarrow> bindR (library_unlock s) (\<lambda>s. Ok (-1, [], s))
     | Some f \<Rightarrow>
       bindR (arr_get (open_file_table2 s) (nat f)) (\<lambda>entry.
       bindR (inode_get2 (of_inumber entry) s) (\<lambda>inode.
       bindR (inode_at2 s inode) (\<lambda>ino.
       let to_read = i_size2 ino - of_offset entry;
           to_read = (if to_read > len then len else to_read) in
       if to_read > 0 then
         bindR (data_block_get2 (i_data_block2 ino) s) (\<lambda>block.
         bindR (mem_read (fs_data2 s) (block + unat (of_offset entry)) (unat to_read)) (\<lambda>bytes.
         bindR (arr_set (open_file_table2 s) (nat f)
                  (entry\<lparr>of_offset := of_offset entry + to_read\<rparr>)) (\<lambda>t.
         bindR (library_unlock (s\<lparr>open_file_table2 := t\<rparr>)) (\<lambda>s.
         Ok (sint to_read, bytes, s)))))
       else bindR (library_unlock s) (\<lambda>s. Ok (sint to_read, [], s)))))))"

text \<open>\<open>tfs_unlink\<close> deletes the inode first and does not look at the open file table.\<close>

definition tfs_unlink2 :: "cstring option \<Rightarrow> fs2_state \<Rightarrow> (int \<times> fs2_state) result" where
  "tfs_unlink2 target s =
     bindR (library_lock s) (\<lambda>s.
     if \<not> valid_pathname2 target then bindR (library_unlock s) (\<lambda>s. Ok (-1, s))
     else
      bindR (inode_get2 ROOT_DIR_INUM s) (\<lambda>root_dir_inode.
      bindR (tfs_lookup2 target root_dir_inode s) (\<lambda>inum.
      if inum = -1 then bindR (library_unlock s) (\<lambda>s. Ok (-1, s))
      else
       bindR (inode_delete2 inum s) (\<lambda>s.
       bindR (clear_dir_entry2 root_dir_inode (tl (the target)) s) (\<lambda>(r, s).
       if r = -1 then bindR (library_unlock s) (\<lambda>s. Ok (-1, s))
       else bindR (library_unlock s) (\<lambda>s. Ok (0, s)))))))"

end
