(* ===== verification/FS2_Equiv.thy ===== *)
theory FS2_Equiv
  imports FS2_Operations FS_Run
begin

text \<open>
  The two copies of the file system compared. A state of \<open>fs2\<close> is read as a state of \<open>fs\<close> in
  which every inode has one link and no lock is held. On such states each call of \<open>fs2\<close> returns
  the same value as the call of \<open>fs\<close> and has the same effect, so that the invariant and the
  abstract file system of \<open>fs\<close> serve \<open>fs2\<close> too. The exception is \<open>tfs_unlink\<close> on a file
  that is open.
\<close>

section \<open>The embedding\<close>

fun up_type :: "inode_type2 \<Rightarrow> inode_type" where
  "up_type T_FILE2 = T_FILE"
| "up_type T_DIRECTORY2 = T_DIRECTORY"

fun down_type :: "inode_type \<Rightarrow> inode_type2" where
  "down_type T_DIRECTORY = T_DIRECTORY2"
| "down_type _ = T_FILE2"

definition up_inode :: "inode2_t \<Rightarrow> inode_t" where
  "up_inode ino =
     \<lparr>i_node_type = up_type (i_node_type2 ino), i_links_count = 1, i_size = i_size2 ino,
      i_data_block = i_data_block2 ino\<rparr>"

definition down_inode :: "inode_t \<Rightarrow> inode2_t" where
  "down_inode ino =
     \<lparr>i_node_type2 = down_type (i_node_type ino), i_size2 = i_size ino, i_data_block2 = i_data_block ino\<rparr>"

definition fs1_of :: "fs2_state \<Rightarrow> fs_state" where
  "fs1_of s =
     \<lparr>fs_params = fs_params2 s, allocated = allocated2 s, inode_table = map up_inode (inode_table2 s),
      freeinode_ts = freeinode_ts2 s, fs_data = fs_data2 s, free_blocks = free_blocks2 s,
      open_file_table = open_file_table2 s, free_open_file_entries = free_open_file_entries2 s,
      locks_init = True, held = {}\<rparr>"

definition fs2_of :: "fs_state \<Rightarrow> fs2_state" where
  "fs2_of u =
     \<lparr>fs_params2 = fs_params u, allocated2 = allocated u, inode_table2 = map down_inode (inode_table u),
      freeinode_ts2 = freeinode_ts u, fs_data2 = fs_data u, free_blocks2 = free_blocks u,
      open_file_table2 = open_file_table u, free_open_file_entries2 = free_open_file_entries u,
      g_library_mutex = False\<rparr>"

definition plain :: "fs_state \<Rightarrow> bool" where
  "plain u \<longleftrightarrow> locks_init u \<and> held u = {} \<and>
     (\<forall>ino\<in>set (inode_table u). i_links_count ino = 1 \<and> i_node_type ino \<noteq> T_LINK)"

lemma down_up [simp]: "down_inode (up_inode ino) = ino"
  by (cases ino; cases "i_node_type2 ino") (simp_all add: down_inode_def up_inode_def)

lemma up_down: "i_links_count ino = 1 \<Longrightarrow> i_node_type ino \<noteq> T_LINK \<Longrightarrow> up_inode (down_inode ino) = ino"
  by (cases ino; cases "i_node_type ino") (simp_all add: down_inode_def up_inode_def)

lemma fs1_of_sel [simp]:
  "fs_params (fs1_of s) = fs_params2 s" "allocated (fs1_of s) = allocated2 s"
  "inode_table (fs1_of s) = map up_inode (inode_table2 s)" "freeinode_ts (fs1_of s) = freeinode_ts2 s"
  "fs_data (fs1_of s) = fs_data2 s" "free_blocks (fs1_of s) = free_blocks2 s"
  "open_file_table (fs1_of s) = open_file_table2 s"
  "free_open_file_entries (fs1_of s) = free_open_file_entries2 s" "locks_init (fs1_of s)" "held (fs1_of s) = {}"
  by (simp_all add: fs1_of_def)

lemma fs1_of_upd [simp]:
  "fs1_of (s\<lparr>free_blocks2 := f\<rparr>) = (fs1_of s)\<lparr>free_blocks := f\<rparr>"
  "fs1_of (s\<lparr>freeinode_ts2 := f\<rparr>) = (fs1_of s)\<lparr>freeinode_ts := f\<rparr>"
  "fs1_of (s\<lparr>fs_data2 := m\<rparr>) = (fs1_of s)\<lparr>fs_data := m\<rparr>"
  "fs1_of (s\<lparr>inode_table2 := t\<rparr>) = (fs1_of s)\<lparr>inode_table := map up_inode t\<rparr>"
  "fs1_of (s\<lparr>open_file_table2 := ot\<rparr>) = (fs1_of s)\<lparr>open_file_table := ot\<rparr>"
  "fs1_of (s\<lparr>free_open_file_entries2 := f\<rparr>) = (fs1_of s)\<lparr>free_open_file_entries := f\<rparr>"
  "fs1_of (s\<lparr>g_library_mutex := b\<rparr>) = fs1_of s"
  by (simp_all add: fs1_of_def)

lemma fs2_of_upd [simp]:
  "fs2_of (u\<lparr>free_blocks := f\<rparr>) = (fs2_of u)\<lparr>free_blocks2 := f\<rparr>"
  "fs2_of (u\<lparr>freeinode_ts := f\<rparr>) = (fs2_of u)\<lparr>freeinode_ts2 := f\<rparr>"
  "fs2_of (u\<lparr>fs_data := m\<rparr>) = (fs2_of u)\<lparr>fs_data2 := m\<rparr>"
  "fs2_of (u\<lparr>inode_table := t\<rparr>) = (fs2_of u)\<lparr>inode_table2 := map down_inode t\<rparr>"
  "fs2_of (u\<lparr>open_file_table := ot\<rparr>) = (fs2_of u)\<lparr>open_file_table2 := ot\<rparr>"
  "fs2_of (u\<lparr>free_open_file_entries := f\<rparr>) = (fs2_of u)\<lparr>free_open_file_entries2 := f\<rparr>"
  by (simp_all add: fs2_of_def)

lemma fs2_of_fs1_of [simp]: "\<not> g_library_mutex s \<Longrightarrow> fs2_of (fs1_of s) = s"
  by (cases s) (simp add: fs2_of_def fs1_of_def comp_def)

lemma fs1_of_fs2_of: "plain u \<Longrightarrow> fs1_of (fs2_of u) = u"
  by (cases u) (simp add: fs2_of_def fs1_of_def plain_def up_down map_idI)

lemma fs2_of_mutex [simp]: "\<not> g_library_mutex (fs2_of u)"
  by (simp add: fs2_of_def)

lemma plain_fs1_of [simp]: "plain (fs1_of s)"
  by (auto simp: plain_def up_inode_def) (metis up_type.elims inode_type.distinct)+

text \<open>The sizes and bounds of the two states agree.\<close>

lemma fs2_bounds [simp]:
  "valid_inumber2 s = valid_inumber (fs1_of s)" "valid_block_number2 s = valid_block_number (fs1_of s)"
  "valid_file_handle2 s = valid_file_handle (fs1_of s)" "MAX_DIR_ENTRIES2 s = MAX_DIR_ENTRIES (fs1_of s)"
  "state_block_size2 s = BLOCK_SIZE (fs1_of s)"
  by (auto simp: valid_inumber2_def valid_inumber_def valid_block_number2_def valid_block_number_def
      valid_file_handle2_def valid_file_handle_def MAX_DIR_ENTRIES2_def MAX_DIR_ENTRIES_def state_block_size2_def)

lemma up_inode_sel [simp]: "i_size (up_inode ino) = i_size2 ino" "i_data_block (up_inode ino) = i_data_block2 ino"
  "i_links_count (up_inode ino) = 1" "i_node_type (up_inode ino) = up_type (i_node_type2 ino)"
  by (simp_all add: up_inode_def)

lemma up_type_iff [simp]: "up_type ty = T_DIRECTORY \<longleftrightarrow> ty = T_DIRECTORY2" "up_type ty = T_FILE \<longleftrightarrow> ty = T_FILE2"
  "up_type ty \<noteq> T_LINK"
  by (cases ty; simp)+

section \<open>The state layer\<close>

lemma inode_at2_eq: "0 \<le> i \<Longrightarrow> nat i < length (inode_table2 s) \<Longrightarrow> inode_at2 s i = Ok (inode_table2 s ! nat i)"
  by (simp add: inode_at2_def)

lemma inode_put2_eq: "0 \<le> i \<Longrightarrow> nat i < length (inode_table2 s) \<Longrightarrow>
    inode_put2 i ino s = Ok (s\<lparr>inode_table2 := (inode_table2 s)[nat i := ino]\<rparr>)"
  by (simp add: inode_put2_def)

lemma data_block_get2_eq:
  assumes "shape (fs1_of s)"
  shows "data_block_get2 b s = (if valid_block_number (fs1_of s) b then Ok (blk_addr (fs1_of s) b) else Abort)"
  using data_block_get_eq [OF assms, of b] by (auto simp: data_block_get2_def data_block_get_def split: if_splits)

lemma data_block_alloc2_eq:
  assumes "shape (fs1_of s)"
  shows "data_block_alloc2 s =
    (case first_free (free_blocks2 s) of
       None \<Rightarrow> Ok (-1, s)
     | Some i \<Rightarrow> Ok (int i, s\<lparr>free_blocks2 := (free_blocks2 s)[i := TAKEN]\<rparr>))"
  using shape_lengths(3) [OF assms] shape_block_size [OF assms]
  by (simp add: data_block_alloc2_def search_free_entry split: option.split)

lemma data_block_free2_eq:
  assumes "shape (fs1_of s)" "valid_block_number (fs1_of s) b"
  shows "data_block_free2 b s = Ok (s\<lparr>free_blocks2 := (free_blocks2 s)[nat b := FREE]\<rparr>)"
  using assms shape_lengths(3) [OF assms(1)] by (simp add: data_block_free2_def valid_block_number_iff)

lemma inode_alloc2_eq:
  assumes "shape (fs1_of s)"
  shows "inode_alloc2 s =
    (case first_free (freeinode_ts2 s) of
       None \<Rightarrow> Ok (-1, s)
     | Some i \<Rightarrow> Ok (int i, s\<lparr>freeinode_ts2 := (freeinode_ts2 s)[i := TAKEN]\<rparr>))"
  using shape_lengths(2) [OF assms] shape_block_size [OF assms]
  by (simp add: inode_alloc2_def search_free_entry split: option.split)

lemma first_free_table2:
  "shape (fs1_of s) \<Longrightarrow> first_free (freeinode_ts2 s) = Some i \<Longrightarrow> i < length (inode_table2 s) \<and> i < length (freeinode_ts2 s)"
  using shape_lengths(1,2) [of "fs1_of s"] by (simp add: first_free_Some)

lemma down_new_inode: "down_inode (new_inode T_FILE) = \<lparr>i_node_type2 = T_FILE2, i_size2 = 0, i_data_block2 = -1\<rparr>"
  by (simp add: down_inode_def new_inode_def)

lemma inode_create2_eq:
  assumes "shape (fs1_of s)"
  shows "inode_create2 T_FILE2 s =
    (case first_free (freeinode_ts2 s) of
       None \<Rightarrow> Ok (-1, s)
     | Some i \<Rightarrow> Ok (int i, s\<lparr>freeinode_ts2 := (freeinode_ts2 s)[i := TAKEN],
                  inode_table2 := (inode_table2 s)[i := down_inode (new_inode T_FILE)]\<rparr>))"
proof -
  have "ino\<lparr>i_node_type2 := T_FILE2, i_size2 := 0, i_data_block2 := -1\<rparr> = down_inode (new_inode T_FILE)"
    for ino :: inode2_t by (cases ino) (simp add: down_new_inode)
  then show ?thesis
    using first_free_table2 [OF assms]
    by (auto simp: inode_create2_def inode_alloc2_eq [OF assms] inode_at2_eq inode_put2_eq split: option.split)
qed

lemma inode_delete2_eq:
  assumes "shape (fs1_of s)" "valid_inumber (fs1_of s) i" "freeinode_ts2 s ! nat i = TAKEN"
    and "i_size2 (inode_table2 s ! nat i) > 0 \<Longrightarrow>
      valid_block_number (fs1_of s) (i_data_block2 (inode_table2 s ! nat i))"
  shows "inode_delete2 i s =
    Ok (s\<lparr>free_blocks2 :=
             (if i_size2 (inode_table2 s ! nat i) > 0
              then (free_blocks2 s)[nat (i_data_block2 (inode_table2 s ! nat i)) := FREE] else free_blocks2 s),
           freeinode_ts2 := (freeinode_ts2 s)[nat i := FREE]\<rparr>)"
proof -
  have "nat i < length (freeinode_ts2 s)" "nat i < length (inode_table2 s)" "0 \<le> i"
    using assms shape_lengths [OF assms(1)] by (auto simp: valid_inumber_iff)
  with assms show ?thesis by (simp add: inode_delete2_def inode_at2_eq data_block_free2_eq)
qed

lemma root_at2:
  assumes "shape (fs1_of s)" "root_ok (fs1_of s)"
  shows "inode_at2 s ROOT_DIR_INUM = Ok (inode_table2 s ! 0)" "i_node_type2 (inode_table2 s ! 0) = T_DIRECTORY2"
    "data_block_get2 (i_data_block2 (inode_table2 s ! 0)) s = Ok (root_addr (fs1_of s))"
proof -
  have len: "0 < length (inode_table2 s)" using assms shape_lengths(1) [OF assms(1)] by (simp add: root_ok_def)
  have r: "root_inode (fs1_of s) = up_inode (inode_table2 s ! 0)" using len by (simp add: root_inode_def)
  show "inode_at2 s ROOT_DIR_INUM = Ok (inode_table2 s ! 0)" using len by (simp add: inode_at2_eq)
  show "i_node_type2 (inode_table2 s ! 0) = T_DIRECTORY2" using assms(2) r by (simp add: root_ok_def)
  show "data_block_get2 (i_data_block2 (inode_table2 s ! 0)) s = Ok (root_addr (fs1_of s))"
    using assms(2) r data_block_get2_eq [OF assms(1)] by (simp add: root_ok_def root_addr_def)
qed

text \<open>The directory functions touch the data bytes only, and do the same in both copies.\<close>

lemma find_in_dir2_eq:
  assumes "shape (fs1_of s)" "root_ok (fs1_of s)"
  shows "find_in_dir2 ROOT_DIR_INUM nm s = find_in_dir ROOT_DIR_INUM nm (fs1_of s)"
  using root_at2 [OF assms] root_at [OF assms] root_block [OF assms] assms(2)
  by (simp add: find_in_dir2_def find_in_dir_def root_ok_def cong: if_cong)

lemma fs_data2_id [simp]: "s\<lparr>fs_data2 := fs_data2 s\<rparr> = s"
  by (cases s) simp

lemma bindR_case_option: "bindR (case x of None \<Rightarrow> r | Some y \<Rightarrow> g y) f = (case x of None \<Rightarrow> bindR r f | Some y \<Rightarrow> bindR (g y) f)"
  by (cases x) simp_all

lemma add_dir_entry2_eq:
  assumes "shape (fs1_of s)" "root_ok (fs1_of s)"
  shows "add_dir_entry2 ROOT_DIR_INUM nm i s =
    bindR (add_dir_entry ROOT_DIR_INUM nm i (fs1_of s)) (\<lambda>(r, u). Ok (r, s\<lparr>fs_data2 := fs_data u\<rparr>))"
  using root_at2 [OF assms] root_at [OF assms] root_block [OF assms] assms(2)
  by (simp add: add_dir_entry2_def add_dir_entry_def root_ok_def bindR_assoc bindR_case_option
      cong: option.case_cong)

lemma clear_dir_entry2_eq:
  assumes "shape (fs1_of s)" "root_ok (fs1_of s)"
  shows "clear_dir_entry2 ROOT_DIR_INUM nm s =
    bindR (clear_dir_entry ROOT_DIR_INUM nm (fs1_of s)) (\<lambda>(r, u). Ok (r, s\<lparr>fs_data2 := fs_data u\<rparr>))"
  using root_at2 [OF assms] root_at [OF assms] root_block [OF assms] assms(2)
  by (simp add: clear_dir_entry2_def clear_dir_entry_def root_ok_def bindR_assoc bindR_case_option
      cong: option.case_cong)

lemma first_free_less: "first_free xs = Some k \<Longrightarrow> k < length xs"
  by (simp add: first_free_Some)

lemma add_to_open_file_table2_eq:
  assumes "shape (fs1_of s)"
  shows "add_to_open_file_table2 i off s =
    (case first_free (free_open_file_entries2 s) of
       None \<Rightarrow> Ok (-1, s)
     | Some k \<Rightarrow> Ok (int k, s\<lparr>free_open_file_entries2 := (free_open_file_entries2 s)[k := TAKEN],
                  open_file_table2 := (open_file_table2 s)[k := \<lparr>of_inumber = i, of_offset = off\<rparr>]\<rparr>))"
  using shape_lengths(5,6) [OF assms] first_free_less [of "free_open_file_entries2 s"]
  by (cases "first_free (free_open_file_entries2 s)") (simp_all add: add_to_open_file_table2_def search_free_entry)

lemma get_open_file_entry2_eq:
  assumes "fs_inv (fs1_of s)"
  shows "get_open_file_entry2 fd s = Ok (if is_handle (fs1_of s) fd then Some fd else None)"
  using shape_lengths(6) [OF fs_invD(1) [OF assms]]
  by (auto simp: get_open_file_entry2_def is_handle_def handle_def valid_file_handle_iff)

lemma remove_from_open_file_table2_eq:
  assumes "fs_inv (fs1_of s)" "is_handle (fs1_of s) fd"
  shows "remove_from_open_file_table2 fd s =
    Ok (s\<lparr>free_open_file_entries2 := (free_open_file_entries2 s)[nat fd := FREE]\<rparr>)"
  using assms shape_lengths(6) [OF fs_invD(1) [OF assms(1)]]
  by (auto simp: remove_from_open_file_table2_def is_handle_def handle_def valid_file_handle_iff)

section \<open>Calls\<close>

text \<open>A state of the file system between two calls.\<close>

definition fs2_inv :: "fs2_state \<Rightarrow> bool" where
  "fs2_inv s \<longleftrightarrow> fs_inv (fs1_of s) \<and> \<not> g_library_mutex s"

lemma fs2_invD: "fs2_inv s \<Longrightarrow> fs_inv (fs1_of s)" "fs2_inv s \<Longrightarrow> \<not> g_library_mutex s"
  by (simp_all add: fs2_inv_def)

lemma library_lock_Ok: "\<not> g_library_mutex s \<Longrightarrow> library_lock s = Ok (s\<lparr>g_library_mutex := True\<rparr>)"
  by (simp add: library_lock_def)

lemma library_unlock_Ok: "g_library_mutex s \<Longrightarrow> library_unlock s = Ok (s\<lparr>g_library_mutex := False\<rparr>)"
  by (simp add: library_unlock_def)

lemma mutex_id: "\<not> g_library_mutex s \<Longrightarrow> s\<lparr>g_library_mutex := False\<rparr> = s"
  by (cases s) simp

lemmas library_simps = library_lock_Ok library_unlock_Ok

lemma tfs_close2_eq:
  assumes "fs2_inv s"
  shows "tfs_close2 fd s = Ok (map_prod id fs2_of (close_effect fd (fs1_of s)))"
proof -
  note I = fs2_invD [OF assms]
  let ?l = "s\<lparr>g_library_mutex := True\<rparr>"
  have "get_open_file_entry2 fd ?l = Ok (if is_handle (fs1_of s) fd then Some fd else None)"
    using get_open_file_entry2_eq [of ?l fd] I(1) by simp
  moreover have "remove_from_open_file_table2 fd ?l =
      Ok (?l\<lparr>free_open_file_entries2 := (free_open_file_entries2 s)[nat fd := FREE]\<rparr>)" if "is_handle (fs1_of s) fd"
    using remove_from_open_file_table2_eq [of ?l fd] I(1) that by simp
  ultimately show ?thesis using I(2) by (simp add: tfs_close2_def library_simps close_effect_def mutex_id)
qed

lemma inode_of_fs1: "file_inode (fs1_of s) i \<Longrightarrow> shape (fs1_of s) \<Longrightarrow>
    inode_of (fs1_of s) i = up_inode (inode_table2 s ! nat i) \<and> 0 \<le> i \<and> nat i < length (inode_table2 s) \<and>
    valid_inumber (fs1_of s) i \<and> freeinode_ts2 s ! nat i = TAKEN"
  using shape_lengths(1,2) [of "fs1_of s"] by (auto simp: file_inode_def inode_of_def valid_inumber_iff)

lemma tfs_read2_eq:
  assumes inv: "fs2_inv s" and inf: "is_handle (fs1_of s) fd \<Longrightarrow> in_file (fs1_of s) fd"
  shows "tfs_read2 fd len s =
    Ok (case read_effect fd (unat len) (fs1_of s) of (r, bytes, u) \<Rightarrow> (r, bytes, fs2_of u))"
proof (cases "is_handle (fs1_of s) fd")
  case False
  then show ?thesis
    using get_open_file_entry2_eq [of "s\<lparr>g_library_mutex := True\<rparr>" fd] fs2_invD [OF inv]
    by (simp add: tfs_read2_def read_effect_def library_simps mutex_id)
next
  case True
  note J = fs2_invD [OF inv]
  note I = fs_invD [OF J(1)] and hf = handle_facts [OF J(1) True]
  let ?u = "fs1_of s" and ?l = "s\<lparr>g_library_mutex := True\<rparr>"
  define e where "e = open_file_table2 s ! nat fd"
  define ino where "ino = inode_table2 s ! nat (of_inumber e)"
  define c where "c = clamp_read (i_size2 ino - of_offset e) len"
  have fi: "file_inode ?u (of_inumber e)" using hf(3) by (simp add: e_def)
  note ib = inode_of_fs1 [OF fi I(1), folded ino_def]
  have off: "of_offset e \<le> i_size2 ino" using inf True ib by (simp add: in_file_def Let_def e_def ino_def)
  have c: "unat c = read_count ?u fd (unat len)"
    using unat_clamp_read [OF off] ib by (simp add: c_def read_count_def e_def ino_def Let_def)
  have "i_size2 ino \<le> BLOCK_SIZE ?u" using hf(6) ib by (simp add: e_def)
  then have fits: "unat (of_offset e) + unat c \<le> unat (i_size2 ino)" "unat (i_size2 ino) \<le> unat (BLOCK_SIZE ?u)"
    using off unat_clamp_read [OF off, of len] unfolding c_def word_le_nat_alt by linarith+
  have sc: "sint c = int (unat c)" using fits hf(7) by (intro sint_small) simp
  have oc: "of_nat (unat c) = c" by simp
  have same: "(open_file_table2 s)[nat fd := e] = open_file_table2 s" by (simp add: e_def)
  have get: "get_open_file_entry2 fd ?l = Ok (Some fd)" using get_open_file_entry2_eq [of ?l fd] J(1) True by simp
  have blk: "data_block_get2 b ?l = (if valid_block_number ?u b then Ok (blk_addr ?u b) else Abort)" for b
    using data_block_get2_eq [of ?l b] I(1) by simp
  have at: "inode_at2 ?l (of_inumber e) = Ok ino" using ib by (simp add: inode_at2_eq ino_def)
  note simps = tfs_read2_def [folded clamp_read_def] read_effect_def library_simps get blk at inode_get2_def
    e_def [symmetric] c_def [symmetric] Let_def word_gt_0
  note facts = True J(2) hf(1,2) ib c [symmetric] sc
  show ?thesis
  proof (cases "c = 0")
    case True
    with facts show ?thesis by (simp add: simps same mutex_id)
  next
    case False
    then have "i_size2 ino \<noteq> 0" using fits by (auto simp: unat_eq_0 [symmetric])
    then have v: "valid_block_number ?u (i_data_block2 ino)"
      using owns_block(1) [OF J(1) file_inode_owns [OF fi]] ib by simp
    with facts False fits blk_in_data [OF I(1) v] show ?thesis by (simp add: simps oc mutex_id)
  qed
qed

lemma down_up_comp [simp]: "down_inode \<circ> up_inode = id"
  by (auto simp: fun_eq_iff)

lemma down_up_size: "down_inode ((up_inode ino)\<lparr>i_size := x\<rparr>) = ino\<lparr>i_size2 := x\<rparr>"
  "down_inode ((up_inode ino)\<lparr>i_size := x, i_data_block := b\<rparr>) = ino\<lparr>i_size2 := x, i_data_block2 := b\<rparr>"
  by (cases ino; cases "i_node_type2 ino"; simp add: up_inode_def down_inode_def)+

lemma grow_inode2:
  "i_data_block2 ino = b \<Longrightarrow> ino\<lparr>i_size2 := max (i_size2 ino) x, i_data_block2 := b\<rparr> =
     (if x > i_size2 ino then ino\<lparr>i_size2 := x\<rparr> else ino)"
  "ino\<lparr>i_data_block2 := b, i_size2 := x\<rparr> = ino\<lparr>i_size2 := x, i_data_block2 := b\<rparr>"
  by (cases ino, auto simp: max_def)+

lemma tfs_write2_eq:
  assumes inv: "fs2_inv s" and n: "unat n \<le> length buffer" "unat n < 2 ^ 63"
  shows "tfs_write2 fd buffer n s = Ok (map_prod id fs2_of (write_effect fd buffer (unat n) (fs1_of s)))"
proof (cases "is_handle (fs1_of s) fd")
  case False
  then show ?thesis
    using get_open_file_entry2_eq [of "s\<lparr>g_library_mutex := True\<rparr>" fd] fs2_invD [OF inv]
    by (simp add: tfs_write2_def write_effect_def library_simps mutex_id)
next
  case True
  note J = fs2_invD [OF inv]
  note I = fs_invD [OF J(1)] and hf = handle_facts [OF J(1) True]
  let ?u = "fs1_of s" and ?l = "s\<lparr>g_library_mutex := True\<rparr>"
  define e where "e = open_file_table2 s ! nat fd"
  define ino where "ino = inode_table2 s ! nat (of_inumber e)"
  define c where "c = clamp_write n (of_offset e) (BLOCK_SIZE2 s)"
  have fi: "file_inode ?u (of_inumber e)" using hf(3) by (simp add: e_def)
  note ib = inode_of_fs1 [OF fi I(1), folded ino_def]
  have off: "of_offset e \<le> BLOCK_SIZE ?u" using hf(5) by (simp add: e_def)
  have c: "unat c = write_count ?u fd (unat n)"
    using unat_clamp_write [OF n(2) off hf(7)] by (simp add: c_def e_def write_count_def)
  then have cn: "unat c \<le> unat n" by (simp add: write_count_def)
  have sc: "sint c = int (unat c)" using cn n(2) by (intro sint_small) simp
  have fits: "unat (of_offset e) + unat c \<le> unat (BLOCK_SIZE ?u)"
    using off by (simp add: c write_count_def e_def word_le_nat_alt)
  have get: "get_open_file_entry2 fd ?l = Ok (Some fd)" using get_open_file_entry2_eq [of ?l fd] J(1) True by simp
  have at: "inode_at2 ?l (of_inumber e) = Ok ino" using ib by (simp add: inode_at2_eq ino_def)
  have blk: "data_block_get2 b (?l\<lparr>free_blocks2 := f, inode_table2 := t\<rparr>) = Ok (blk_addr ?u b)"
    "data_block_get2 b ?l = Ok (blk_addr ?u b)"
    if "valid_block_number ?u b" "length f = length (free_blocks2 s)" "length t = length (inode_table2 s)" for b f t
    using data_block_get2_eq [of "?l\<lparr>free_blocks2 := f, inode_table2 := t\<rparr>" b] data_block_get2_eq [of ?l b] I(1) that
    by (simp_all add: valid_block_number_def)
  have alloc: "data_block_alloc2 ?l = (case first_free (free_blocks2 s) of
      None \<Rightarrow> Ok (-1, ?l) | Some i \<Rightarrow> Ok (int i, ?l\<lparr>free_blocks2 := (free_blocks2 s)[i := TAKEN]\<rparr>))"
    using data_block_alloc2_eq [of ?l] I(1) by (simp cong: option.case_cong)
  note simps = tfs_write2_def [folded clamp_write_def] write_effect_def library_simps get at inode_get2_def
    inode_at2_eq inode_put2_eq alloc e_def [symmetric] c_def [symmetric] ino_def [symmetric] Let_def word_gt_0 map_update
    down_up_size mutex_id
  show ?thesis
  proof (cases "c = 0")
    case True
    then show ?thesis using \<open>is_handle ?u fd\<close> J(2) hf(1,2) ib c [symmetric] sc by (simp add: simps)
  next
    case c0: False
    then have uc: "unat c \<noteq> 0" by (simp add: unat_eq_0)
    have oc: "of_nat (unat c) = c" by simp
    have pos: "of_offset e + c \<noteq> 0" using fits uc hf(7) by (simp add: unat_eq_0 [symmetric] unat_word_ariths)
    have tk: "read_at 0 (unat c) buffer = take (unat c) buffer" by (simp add: read_at_def)
    show ?thesis
    proof (cases "write_block ?u (of_inumber e)")
      case None
      then have "i_size2 ino = 0" "first_free (free_blocks2 s) = None"
        using ib by (auto simp: write_block_def split: if_splits)
      then show ?thesis
        using \<open>is_handle ?u fd\<close> J(2) hf(1,2) ib c [symmetric] c0 uc None by (simp add: simps)
    next
      case (Some b)
      note wb = write_block_facts [OF J(1) fi Some]
      note facts = \<open>is_handle ?u fd\<close> J(2) hf(1,2) ib c [symmetric] c0 uc Some wb(1)
        blk_in_data [OF I(1) wb(1)] fits cn n sc
      show ?thesis
      proof (cases "i_size2 ino = 0")
        case True
        then obtain k where "first_free (free_blocks2 s) = Some k" "b = int k"
          using Some ib by (auto simp: write_block_def)
        with facts True pos show ?thesis by (simp add: simps oc tk blk grow_inode2(2))
      next
        case False
        with facts wb(3) show ?thesis by (simp add: simps oc tk blk(2) [of _ "free_blocks2 s" "inode_table2 s"] grow_inode2(1))
      qed
    qed
  qed
qed

text \<open>Opening. A plain state has no symbolic link, so the call does not recurse.\<close>

lemma valid_pathname2_eq [simp]: "valid_pathname2 p = valid_pathname p"
  by (simp add: valid_pathname2_def valid_pathname_def)

lemma tfs_lookup2_eq:
  assumes "fs_inv (fs1_of s)" "path_ok p"
  shows "tfs_lookup2 p ROOT_DIR_INUM s = Ok (case lookup (fs1_of s) p of None \<Rightarrow> -1 | Some i \<Rightarrow> i)"
proof -
  note I = fs_invD [OF assms(1)]
  have "tfs_lookup2 p ROOT_DIR_INUM s = tfs_lookup p ROOT_DIR_INUM (fs1_of s)"
    using find_in_dir2_eq [OF I(1,4)] root_at [OF I(1,4)] I(4)
    by (simp add: tfs_lookup2_def tfs_lookup_def root_ok_def)
  then show ?thesis using tfs_lookup_eq [OF I(1,4,6) assms(2)] by simp
qed

lemma fs2_of_fs1_of_upd: "fs2_of (fs1_of s) = s\<lparr>g_library_mutex := False\<rparr>"
  by (cases s) (simp add: fs2_of_def fs1_of_def)

lemma add_handle2:
  assumes "shape (fs1_of s)" "g_library_mutex s"
  shows "bindR (add_to_open_file_table2 i off s) (\<lambda>(ret, s). bindR (library_unlock s) (\<lambda>s. Ok (ret, s))) =
    Ok (map_prod id fs2_of (handle_effect i off (fs1_of s)))"
  using assms
  by (auto simp: add_to_open_file_table2_eq handle_effect_def library_simps fs2_of_fs1_of_upd split: option.split)

lemma up_inode_size [simp]: "up_inode (ino\<lparr>i_size2 := x\<rparr>) = (up_inode ino)\<lparr>i_size := x\<rparr>"
  by (cases ino) (simp add: up_inode_def)

lemma open_returned [simp]:
  "(case map_prod Returned id x of (Returned r, u) \<Rightarrow> (r, fs2_of u)) = map_prod id fs2_of x"
  by (cases x) simp

lemma open_existing2:
  assumes inv: "fs2_inv s" and p: "path_ok name" and i: "lookup (fs1_of s) name = Some i"
  shows "tfs_open2 name mode s = Ok (case open_effect name mode (fs1_of s) of (Returned r, u) \<Rightarrow> (r, fs2_of u))"
proof -
  note J = fs2_invD [OF inv]
  note I = fs_invD [OF J(1)]
  let ?u = "fs1_of s" and ?l = "s\<lparr>g_library_mutex := True\<rparr>" and ?ino = "inode_table2 s ! nat i"
  have fi: "file_inode ?u i" using lookup_file_inode [OF J(1) i] .
  note ib = inode_of_fs1 [OF fi I(1)]
  have v: "valid_pathname name" using i by (simp add: lookup_def split: if_splits)
  have root: "valid_inumber ?u 0" using fs_inv_held(8) [OF J(1)] .
  have look: "tfs_lookup2 name 0 ?l = Ok i" using tfs_lookup2_eq [of ?l name] J(1) p i by simp
  let ?t = "has_flag mode TFS_O_TRUNC \<and> i_size2 ?ino > 0"
  let ?s1 = "if ?t then ?l\<lparr>free_blocks2 := (free_blocks2 s)[nat (i_data_block2 ?ino) := FREE],
      inode_table2 := (inode_table2 s)[nat i := ?ino\<lparr>i_size2 := 0\<rparr>]\<rparr> else ?l"
  have blk: "valid_block_number ?u (i_data_block2 ?ino)" if "i_size2 ?ino \<noteq> 0"
    using that owns_block(1) [OF J(1) file_inode_owns [OF fi]] ib by simp
  have trunc: "(if ?t then bindR (data_block_free2 (i_data_block2 ?ino) ?l)
        (inode_put2 i (?ino\<lparr>i_size2 := 0\<rparr>)) else Ok ?l) = Ok ?s1"
    using blk ib I(1) data_block_free2_eq [of ?l] by (simp add: inode_put2_eq word_gt_0)
  define s1 where "s1 = ?s1"
  have s1: "shape (fs1_of s1)" "g_library_mutex s1" using I(1) by (auto simp: s1_def)
  have u1: "fs1_of s1 = (if has_flag mode TFS_O_TRUNC then truncate_effect i ?u else ?u)"
    using ib by (auto simp: s1_def truncate_effect_def map_update word_gt_0)
  have at1: "inode_at2 s1 i = Ok (inode_table2 s1 ! nat i)" "inode_at2 ?l i = Ok ?ino"
    using ib by (simp_all add: inode_at2_eq s1_def)
  have sz: "i_size2 (inode_table2 s1 ! nat i) = i_size (inode_of (fs1_of s1) i)"
    using ib by (simp add: inode_of_def s1_def)
  show ?thesis
    using v root look at1 trunc [folded s1_def] sz J(2) ib i add_handle2 [OF s1]
    by (simp add: tfs_open2_def library_simps inode_get2_def open_effect_def u1 [symmetric] Let_def)
qed

lemma create_name2:
  fixes s
  defines "l \<equiv> s\<lparr>g_library_mutex := True\<rparr>"
  assumes inv: "fs2_inv s" and nm: "nm \<noteq> []" and i: "first_free (freeinode_ts2 s) = Some i"
  defines "c \<equiv> l\<lparr>freeinode_ts2 := (freeinode_ts2 s)[i := TAKEN],
      inode_table2 := (inode_table2 s)[i := down_inode (new_inode T_FILE)]\<rparr>"
  shows "bindR (add_dir_entry2 ROOT_DIR_INUM nm (int i) c) (\<lambda>(r, s).
      if r = -1 then bindR (inode_delete2 (int i) s) (\<lambda>s. Ok (None, s)) else Ok (Some (int i, 0 :: size_t), s)) =
    (case create_effect (new_inode T_FILE) nm (fs1_of s) of
       (None, u) \<Rightarrow> Ok (None, (fs2_of u)\<lparr>g_library_mutex := True\<rparr>)
     | (Some _, u) \<Rightarrow> Ok (Some (int i, 0), (fs2_of u)\<lparr>g_library_mutex := True\<rparr>))"
proof -
  note J = fs2_invD [OF inv]
  note I = fs_invD [OF J(1)] and ii = first_free_inode [OF J(1)]
  let ?u = "fs1_of s"
  have i': "first_free (freeinode_ts ?u) = Some i" using i by simp
  have new: "up_inode (down_inode (new_inode T_FILE)) = new_inode T_FILE" by (simp add: up_down new_inode_def)
  have il: "i < length (freeinode_ts2 s)" "i < length (inode_table2 s)" "0 < i" "freeinode_ts2 s ! i = FREE"
    using ii [OF i'] by simp_all
  have uc: "fs1_of c = ?u\<lparr>freeinode_ts := (freeinode_ts2 s)[i := TAKEN],
      inode_table := (map up_inode (inode_table2 s))[i := new_inode T_FILE]\<rparr>"
    by (simp add: c_def l_def map_update new)
  have sc: "shape (fs1_of c)" "root_ok (fs1_of c)" "free_slot (fs1_of c) = free_slot ?u"
    unfolding uc using I(1,4) il by (simp_all add: view_simps root_inode_def)
  have add: "add_dir_entry2 ROOT_DIR_INUM nm (int i) c =
    (case free_slot ?u of
       Some k \<Rightarrow> if length nm < MAX_FILE_NAME
                 then Ok (0, c\<lparr>fs_data2 := fs_data (put_dent k (pad MAX_FILE_NAME nm, int i) (fs1_of c))\<rparr>) else Ok (-1, c)
     | None \<Rightarrow> Ok (-1, c))"
    using add_dir_entry2_eq [OF sc(1,2), of nm "int i"] add_name [OF sc(1,2) nm, of "int i"] sc(3)
    by (auto split: option.split)
  have "(freeinode_ts2 s)[i := FREE] = freeinode_ts2 s" using il by (metis list_update_id)
  then have undo: "inode_delete2 (int i) c = Ok (l\<lparr>inode_table2 := (inode_table2 s)[i := down_inode (new_inode T_FILE)]\<rparr>)"
    using sc(1) il shape_lengths [OF I(1)]
    by (subst inode_delete2_eq) (simp_all add: c_def l_def valid_inumber_iff down_new_inode)
  have pd: "(fs2_of (put_dent k e (?u\<lparr>freeinode_ts := (freeinode_ts2 s)[i := TAKEN],
      inode_table := (map up_inode (inode_table2 s))[i := new_inode T_FILE]\<rparr>)))\<lparr>g_library_mutex := True\<rparr> =
    c\<lparr>fs_data2 := fs_data (put_dent k e (fs1_of c))\<rparr>" for k e
    using J(2) unfolding uc by (simp add: c_def l_def put_dent_def map_update)
  have pu: "(fs2_of (?u\<lparr>inode_table := (map up_inode (inode_table2 s))[i := new_inode T_FILE]\<rparr>))\<lparr>g_library_mutex := True\<rparr> =
    l\<lparr>inode_table2 := (inode_table2 s)[i := down_inode (new_inode T_FILE)]\<rparr>"
    using J(2) by (simp add: l_def map_update)
  show ?thesis
    using i undo unfolding add by (simp add: create_effect_def pd pu del: fs2_of_upd split: option.split if_split)
qed

lemma tfs_open2_eq:
  assumes inv: "fs2_inv s" and p: "path_ok name"
  shows "tfs_open2 name mode s = Ok (case open_effect name mode (fs1_of s) of (Returned r, u) \<Rightarrow> (r, fs2_of u))"
proof (cases "lookup (fs1_of s) name")
  case (Some i)
  then show ?thesis by (rule open_existing2 [OF inv p])
next
  case None
  note J = fs2_invD [OF inv]
  note I = fs_invD [OF J(1)]
  let ?u = "fs1_of s" and ?l = "s\<lparr>g_library_mutex := True\<rparr>"
  have root: "valid_inumber ?u 0" using fs_inv_held(8) [OF J(1)] .
  have look: "tfs_lookup2 name 0 ?l = Ok (-1)" using tfs_lookup2_eq [of ?l name] J(1) p None by simp
  show ?thesis
  proof (cases "valid_pathname name \<and> has_flag mode TFS_O_CREAT")
    case False
    then show ?thesis using None root look J(2)
      by (auto simp: tfs_open2_def library_simps inode_get2_def open_effect_def mutex_id)
  next
    case True
    have b: "base name \<noteq> []" using path_ok_base [OF p] True by simp
    have create: "inode_create2 T_FILE2 ?l = (case first_free (freeinode_ts2 s) of None \<Rightarrow> Ok (-1, ?l)
      | Some i \<Rightarrow> Ok (int i, ?l\<lparr>freeinode_ts2 := (freeinode_ts2 s)[i := TAKEN],
          inode_table2 := (inode_table2 s)[i := down_inode (new_inode T_FILE)]\<rparr>))"
      using inode_create2_eq [of ?l] I(1) by (simp cong: option.case_cong)
    show ?thesis
    proof (cases "first_free (freeinode_ts2 s)")
      case None
      with True \<open>lookup ?u name = None\<close> root look J(2) create show ?thesis
        by (simp add: tfs_open2_def library_simps inode_get2_def open_effect_def create_effect_def mutex_id)
    next
      case (Some i)
      obtain r u where ce: "create_effect (new_inode T_FILE) (base name) ?u = (r, u)" by fastforce
      have r: "r = None \<or> r = Some (int i)"
        using ce Some by (auto simp: create_effect_def split: option.splits if_splits)
      note facts = create_effect_facts [OF J(1) ce]
      have "plain u"
        using ce by (auto simp: create_effect_def plain_def put_dent_def new_inode_def in_set_conv_nth nth_upd
            split: option.splits if_splits)
      then have "fs1_of ((fs2_of u)\<lparr>g_library_mutex := True\<rparr>) = u" by (simp add: fs1_of_fs2_of)
      then have "bindR (add_to_open_file_table2 (int i) 0 ((fs2_of u)\<lparr>g_library_mutex := True\<rparr>))
          (\<lambda>(ret, s). bindR (library_unlock s) (\<lambda>s. Ok (ret, s))) = Ok (map_prod id fs2_of (handle_effect (int i) 0 u))"
        using add_handle2 [of "(fs2_of u)\<lparr>g_library_mutex := True\<rparr>"] facts(1) by simp
      with r True \<open>lookup ?u name = None\<close> root look J(2) create Some create_name2 [OF inv b Some] ce show ?thesis
        by (auto simp: tfs_open2_def library_simps inode_get2_def open_effect_def mutex_id base_def)
    qed
  qed
qed

text \<open>Unlinking a file that no handle refers to. The inode goes before the directory entry.\<close>

lemma clear_dir_entry_frame:
  "clear_dir_entry i nm (u\<lparr>free_blocks := f, freeinode_ts := g\<rparr>) =
     bindR (clear_dir_entry i nm u) (\<lambda>(r, v). Ok (r, v\<lparr>free_blocks := f, freeinode_ts := g\<rparr>))"
proof -
  have "inode_at (u\<lparr>free_blocks := f, freeinode_ts := g\<rparr>) i = inode_at u i"
    "data_block_get b (u\<lparr>free_blocks := f, freeinode_ts := g\<rparr>) = data_block_get b u"
    "MAX_DIR_ENTRIES (u\<lparr>free_blocks := f, freeinode_ts := g\<rparr>) = MAX_DIR_ENTRIES u" for b
    by (simp_all add: inode_at_def data_block_get_def valid_block_number_def MAX_DIR_ENTRIES_def)
  then show ?thesis
    unfolding clear_dir_entry_def
    by (cases "inode_at u i")
      (auto simp: bindR_assoc bindR_case_option split: option.split intro!: arg_cong [where f = "bindR _"] ext)
qed

lemma tfs_unlink2_eq:
  assumes inv: "fs2_inv s" and p: "path_ok target"
    and closed: "\<And>i. lookup (fs1_of s) target = Some i \<Longrightarrow> \<not> opened (fs1_of s) i"
  shows "tfs_unlink2 target s = Ok (map_prod id fs2_of (unlink_effect target (fs1_of s)))"
proof (cases "lookup (fs1_of s) target")
  case None
  note J = fs2_invD [OF inv]
  have "tfs_lookup2 target 0 (s\<lparr>g_library_mutex := True\<rparr>) = Ok (-1)"
    using tfs_lookup2_eq [of "s\<lparr>g_library_mutex := True\<rparr>" target] J(1) p None by simp
  with None fs_inv_held(8) [OF J(1)] J(2) show ?thesis
    by (simp add: tfs_unlink2_def library_simps inode_get2_def unlink_effect_def mutex_id)
next
  case (Some i)
  note J = fs2_invD [OF inv]
  note I = fs_invD [OF J(1)]
  let ?u = "fs1_of s" and ?l = "s\<lparr>g_library_mutex := True\<rparr>" and ?ino = "inode_table2 s ! nat i"
  have fi: "file_inode ?u i" using lookup_file_inode [OF J(1) Some] .
  note ib = inode_of_fs1 [OF fi I(1)]
  have v: "valid_pathname target" using Some by (simp add: lookup_def split: if_splits)
  have i1: "i \<noteq> -1" using lookup_not_minus1 [OF J(1) Some] .
  have look: "tfs_lookup2 target 0 ?l = Ok i" using tfs_lookup2_eq [of ?l target] J(1) p Some by simp
  have nm: "dir_map (dents ?u) (base target) = Some i" using Some by (simp add: lookup_def split: if_splits)
  obtain k where k: "find (\<lambda>k. live (dents ?u ! k) \<and> ename (dents ?u ! k) = base target) [0..<MAX_DIR_ENTRIES ?u] = Some k"
    "k < MAX_DIR_ENTRIES ?u" using nm by (rule clear_slot)
  have blk: "valid_block_number ?u (i_data_block2 ?ino)" if "i_size2 ?ino \<noteq> 0"
    using that owns_block(1) [OF J(1) file_inode_owns [OF fi]] ib by simp
  let ?d = "?l\<lparr>free_blocks2 := (if i_size2 ?ino > 0 then (free_blocks2 s)[nat (i_data_block2 ?ino) := FREE] else free_blocks2 s),
      freeinode_ts2 := (freeinode_ts2 s)[nat i := FREE]\<rparr>"
  have del: "inode_delete2 i ?l = Ok ?d"
    using I(1) ib blk by (subst inode_delete2_eq) (auto simp: word_gt_0)
  have clr: "clear_dir_entry ROOT_DIR_INUM (base target) ?u = Ok (0, put_dent k (replicate MAX_FILE_NAME 0, -1) ?u)"
    using clear_locked [OF J(1) nm k(1), of "{}"] by (cases s) (simp add: fs1_of_def put_dent_def)
  have sd: "shape (fs1_of ?d)" "root_ok (fs1_of ?d)" using I(1,4) by (simp_all add: view_simps)
  have "clear_dir_entry2 ROOT_DIR_INUM (base target) ?d =
      Ok (0, ?d\<lparr>fs_data2 := fs_data (put_dent k (replicate MAX_FILE_NAME 0, -1) ?u)\<rparr>)"
    using clear_dir_entry2_eq [OF sd] clr by (simp add: clear_dir_entry_frame)
  then show ?thesis
    using Some v i1 look del closed [OF Some] k(1) fs_inv_held(8) [OF J(1)] J(2) ib
    by (auto simp: tfs_unlink2_def library_simps inode_get2_def unlink_effect_def base_def put_dent_def)
qed

end
