(* ===== verification/FS2_Run.thy ===== *)
theory FS2_Run
  imports FS2_Equiv FS_Demo
begin

text \<open>
  The calls of \<open>fs2\<close> as one system: agreement with \<open>fs\<close> call by call, refinement of the
  abstract file system for whole histories, and the one call where the copies differ,
  \<open>tfs_unlink\<close> on an open file.
\<close>

section \<open>The interface as one system\<close>

datatype fs2_op =
    Open2_op "cstring option" tfs_file_mode_t
  | Close2_op int
  | Write2_op int "byte list" size_t
  | Read2_op int size_t
  | Unlink2_op "cstring option"

definition code2 :: "(int \<times> fs2_state) result \<Rightarrow> (fs_reply \<times> fs2_state) result" where
  "code2 r = bindR r (\<lambda>(n, s). Ok (Code n, s))"

fun fs2_call :: "fs2_op \<Rightarrow> fs2_state \<Rightarrow> (fs_reply \<times> fs2_state) result option" where
  "fs2_call (Open2_op p mode) s = Some (code2 (tfs_open2 p mode s))"
| "fs2_call (Close2_op fd) s = Some (code2 (tfs_close2 fd s))"
| "fs2_call (Write2_op fd buffer n) s = Some (code2 (tfs_write2 fd buffer n s))"
| "fs2_call (Read2_op fd len) s = Some (bindR (tfs_read2 fd len s) (\<lambda>(n, xs, s). Ok (Data n xs, s)))"
| "fs2_call (Unlink2_op p) s = Some (code2 (tfs_unlink2 p s))"

text \<open>The same call of \<open>fs\<close>.\<close>

fun fs_op_of :: "fs2_op \<Rightarrow> fs_op" where
  "fs_op_of (Open2_op p mode) = Open_op p mode"
| "fs_op_of (Close2_op fd) = Close_op fd"
| "fs_op_of (Write2_op fd buffer n) = Write_op fd buffer n"
| "fs_op_of (Read2_op fd len) = Read_op fd len"
| "fs_op_of (Unlink2_op p) = Unlink_op p"

definition a_opened :: "afs \<Rightarrow> cstring option \<Rightarrow> bool" where
  "a_opened a p = (case a_lookup a p of None \<Rightarrow> False | Some i \<Rightarrow> (\<exists>fd off. a_handles a fd = Some (i, off)))"

fun fs2_allowed :: "fs2_op \<Rightarrow> afs \<Rightarrow> bool" where
  "fs2_allowed (Open2_op p mode) a \<longleftrightarrow> path_ok p"
| "fs2_allowed (Close2_op fd) a \<longleftrightarrow> True"
| "fs2_allowed (Write2_op fd buffer n) a \<longleftrightarrow> unat n \<le> length buffer \<and> unat n < 2 ^ 63 \<and> a_in_file a fd"
| "fs2_allowed (Read2_op fd len) a \<longleftrightarrow> a_in_file a fd"
| "fs2_allowed (Unlink2_op p) a \<longleftrightarrow> path_ok p \<and> \<not> a_opened a p"

abbreviation abs_fs2 :: "fs2_state \<Rightarrow> afs" where
  "abs_fs2 s \<equiv> abs_fs (fs1_of s)"

lemma opened_handles: "opened s i \<longleftrightarrow> (\<exists>fd off. a_handles (abs_fs s) fd = Some (i, off))"
proof
  assume "opened s i"
  then obtain k where "handle s k" "of_inumber (open_file_table s ! k) = i"
    by (auto simp: opened_def handle_def)
  then show "\<exists>fd off. a_handles (abs_fs s) fd = Some (i, off)"
    by (auto simp: handle_at_def is_handle_def intro!: exI [of _ "int k"])
qed (auto simp: handle_at_def is_handle_def handle_def opened_def split: if_splits)

section \<open>Agreement\<close>

text \<open>The effects keep a state plain.\<close>

lemma plain_table:
  "plain u \<Longrightarrow> i_links_count ino = 1 \<Longrightarrow> i_node_type ino \<noteq> T_LINK \<Longrightarrow> plain (u\<lparr>inode_table := (inode_table u)[k := ino]\<rparr>)"
  unfolding plain_def by (auto dest!: set_update_subset_insert [THEN subsetD])

lemma plain_upd [simp]:
  "plain (u\<lparr>free_blocks := f\<rparr>) = plain u" "plain (u\<lparr>freeinode_ts := f\<rparr>) = plain u" "plain (u\<lparr>fs_data := m\<rparr>) = plain u"
  "plain (u\<lparr>open_file_table := ot\<rparr>) = plain u" "plain (u\<lparr>free_open_file_entries := f\<rparr>) = plain u"
  "plain (put_dent k e u) = plain u"
  by (simp_all add: plain_def put_dent_def)

lemma plain_inode: "plain u \<Longrightarrow> nat i < length (inode_table u) \<Longrightarrow>
    i_links_count (inode_of u i) = 1 \<and> i_node_type (inode_of u i) \<noteq> T_LINK"
  by (simp add: plain_def inode_of_def)

lemma plain_handle: "plain u \<Longrightarrow> plain (snd (handle_effect i off u))"
  by (simp add: handle_effect_def split: option.split)

lemma plain_create: "plain u \<Longrightarrow> plain (snd (create_effect (new_inode T_FILE) nm u))"
  using plain_table [of "u\<lparr>freeinode_ts := f\<rparr>" "new_inode T_FILE" for f] plain_table [of u "new_inode T_FILE"]
  by (simp add: create_effect_def new_inode_def split: option.split)

lemma plain_truncate: "plain u \<Longrightarrow> nat i < length (inode_table u) \<Longrightarrow> plain (truncate_effect i u)"
  using plain_table [of "u\<lparr>free_blocks := f\<rparr>" "(inode_of u i)\<lparr>i_size := 0\<rparr>" "nat i" for f] plain_inode [of u i]
  by (simp add: truncate_effect_def)

lemma plain_open:
  assumes "plain u" "fs_inv u" "open_effect p mode u = (nx, u')"
  obtains r where "nx = Returned r" "plain u'"
proof (cases "lookup u p")
  case None
  have "plain (snd (create_effect (new_inode T_FILE) (base p) u))" using plain_create [OF assms(1)] .
  with assms None show thesis
    using that plain_handle
    by (auto simp: open_effect_def map_prod_def split: if_splits option.splits prod.splits) (metis snd_conv)+
next
  case (Some i)
  have "nat i < length (inode_table u)"
    using file_inode_bounds [OF lookup_file_inode [OF assms(2) Some] fs_invD(1) [OF assms(2)]] by simp
  then have "i_node_type (inode_of u i) \<noteq> T_LINK" "plain (if has_flag mode TFS_O_TRUNC then truncate_effect i u else u)"
    using plain_inode plain_truncate assms(1) by simp_all
  with assms(3) Some show thesis
    using that plain_handle by (auto simp: open_effect_def map_prod_def Let_def split: if_splits prod.splits) (metis snd_conv)+
qed

lemma plain_close: "plain u \<Longrightarrow> plain (snd (close_effect fd u))"
  by (simp add: close_effect_def)

lemma plain_read: "plain u \<Longrightarrow> plain (snd (snd (read_effect fd n u)))"
  by (simp add: read_effect_def Let_def)

lemma plain_write:
  assumes "plain u" "fs_inv u"
  shows "plain (snd (write_effect fd buffer n u))"
proof (cases "is_handle u fd")
  case True
  define e where "e = open_file_table u ! nat fd"
  have "nat (of_inumber e) < length (inode_table u)"
    using file_inode_bounds [OF handle_facts(3) [OF assms(2) True] fs_invD(1) [OF assms(2)]] by (simp add: e_def)
  with plain_inode [OF assms(1)] have
    "i_links_count (inode_of u (of_inumber e)) = 1 \<and> i_node_type (inode_of u (of_inumber e)) \<noteq> T_LINK" by blast
  then have "plain (u\<lparr>free_blocks := f, fs_data := m, inode_table := (inode_table u)[nat (of_inumber e) :=
      (inode_of u (of_inumber e))\<lparr>i_size := x, i_data_block := b\<rparr>], open_file_table := ot\<rparr>)" for f m x b ot
    using plain_table [of "u\<lparr>free_blocks := f, fs_data := m\<rparr>"] assms(1) by simp
  then show ?thesis
    using assms(1) by (simp add: write_effect_def Let_def e_def [symmetric] split: option.split)
qed (use assms(1) in \<open>simp add: write_effect_def\<close>)

lemma plain_unlink:
  assumes "plain u" "fs_inv u"
  shows "plain (snd (unlink_effect p u))"
proof (cases "lookup u p")
  case (Some i)
  have "nat i < length (inode_table u)"
    using file_inode_bounds [OF lookup_file_inode [OF assms(2) Some] fs_invD(1) [OF assms(2)]] by simp
  with Some assms(1) plain_inode [OF assms(1)] show ?thesis by (simp add: unlink_effect_def split: option.split)
qed (use assms(1) in \<open>simp add: unlink_effect_def\<close>)

text \<open>Every call of \<open>fs2\<close> does what the call of \<open>fs\<close> does on the embedded state.\<close>

lemma fs2_result:
  assumes "plain u" "fs_inv u"
  shows "fs2_inv (fs2_of u)" "fs1_of (fs2_of u) = u"
  using assms by (simp_all add: fs2_inv_def fs1_of_fs2_of)

lemma fs2_call_fs_call:
  assumes inv: "fs2_inv s" and ok: "fs2_allowed x (abs_fs2 s)"
  shows "\<exists>r s'. fs2_call x s = Some (Ok (r, s')) \<and> fs2_inv s' \<and>
    fs_call (fs_op_of x) (fs1_of s) = Some (Ok (r, fs1_of s'))"
proof -
  note J = fs2_invD(1) [OF inv]
  have pl: "plain (fs1_of s)" by simp
  note inside = a_in_file_abs [OF J]
  show ?thesis
  proof (cases x)
    case (Open2_op p mode)
    with ok have p: "path_ok p" by simp
    obtain nx u where op: "open_effect p mode (fs1_of s) = (nx, u)" by fastforce
    from plain_open [OF pl J op] obtain r where r: "nx = Returned r" "plain u" by blast
    have u: "fs_inv u" using open_inv_effect [OF J p, of mode] op by simp
    with Open2_op r op show ?thesis
      using tfs_open2_eq [OF inv p, of mode] tfs_open_stop [OF J p, of mode r u] fs2_result [of u]
      by (simp add: code2_def code_def)
  next
    case (Close2_op fd)
    then show ?thesis
      using tfs_close2_eq [OF inv, of fd] tfs_close_eq [OF J, of fd] close_inv [OF J, of fd] plain_close [OF pl, of fd]
        fs2_result
      by (cases "close_effect fd (fs1_of s)") (simp add: code2_def code_def)
  next
    case (Write2_op fd buffer n)
    then have n: "unat n \<le> length buffer" "unat n < 2 ^ 63" using ok by auto
    with Write2_op show ?thesis
      using tfs_write2_eq [OF inv n, of fd] tfs_write_eq [OF J n, of fd] write_inv_effect [OF J n(1), of fd]
        plain_write [OF pl J, of fd buffer "unat n"] fs2_result
      by (cases "write_effect fd buffer (unat n) (fs1_of s)") (simp add: code2_def code_def)
  next
    case (Read2_op fd len)
    then have inf: "is_handle (fs1_of s) fd \<Longrightarrow> in_file (fs1_of s) fd" using ok inside by auto
    with Read2_op show ?thesis
      using tfs_read2_eq [OF inv inf, of len] tfs_read_eq [OF J inf, of len] read_inv_effect [OF J inf, of "unat len"]
        plain_read [OF pl, of fd "unat len"] fs2_result
      by (cases "read_effect fd (unat len) (fs1_of s)") simp
  next
    case (Unlink2_op p)
    then have p: "path_ok p" and "\<And>i. lookup (fs1_of s) p = Some i \<Longrightarrow> \<not> opened (fs1_of s) i"
      using ok opened_handles by (auto simp: a_opened_def)
    with Unlink2_op show ?thesis
      using tfs_unlink2_eq [OF inv p] tfs_unlink_eq [OF J p] unlink_inv_effect [OF J, of p] plain_unlink [OF pl J, of p]
        fs2_result
      by (cases "unlink_effect p (fs1_of s)") (simp add: code2_def code_def)
  qed
qed

lemma plain_follow:
  assumes "fs2_inv s"
  shows "a_follow (abs_fs2 s) p = Some p"
proof -
  note J = fs2_invD(1) [OF assms]
  have "link_target (fs1_of s) p = None"
    using lookup_file_inode [OF J, of p] inode_of_fs1 fs_invD(1) [OF J]
    by (auto simp: link_target_def split: option.splits)
  then show ?thesis using a_link_target_abs [OF J] by (simp add: a_follow_def)
qed

lemma fs2_allowed_fs: "fs2_inv s \<Longrightarrow> fs2_allowed x (abs_fs2 s) \<Longrightarrow> fs_allowed (fs_op_of x) (abs_fs2 s)"
  by (cases x) (simp_all add: plain_follow)

interpretation tfs2: implements fs2_inv abs_fs2 fs2_call "\<lambda>x. fs_spec (fs_op_of x)" fs2_allowed
proof
  fix s x
  assume s: "fs2_inv s" "fs2_allowed x (abs_fs2 s)"
  obtain r s' where r: "fs2_call x s = Some (Ok (r, s'))" "fs2_inv s'"
    "fs_call (fs_op_of x) (fs1_of s) = Some (Ok (r, fs1_of s'))" using fs2_call_fs_call [OF s] by blast
  from tfs.step_spec [OF fs2_invD(1) [OF s(1)] fs2_allowed_fs [OF s]] r
  show "\<exists>r s'. fs2_call x s = Some (Ok (r, s')) \<and> fs2_inv s' \<and> fs_spec (fs_op_of x) (abs_fs2 s) = (r, abs_fs2 s')"
    by auto
qed

section \<open>Initialisation\<close>

definition up_allocs :: "fs2_allocs \<Rightarrow> fs_allocs" where
  "up_allocs al =
     \<lparr>a_inode_table = map_option (map up_inode) (a_inode_table2 al), a_inode_rwl = True,
      a_freeinode_ts = a_freeinode_ts2 al, a_fs_data = a_fs_data2 al, a_free_blocks = a_free_blocks2 al,
      a_open_file_table = a_open_file_table2 al, a_free_open_file_entries = a_free_open_file_entries2 al\<rparr>"

lemma state_init2_eq:
  assumes al: "allocs_ok p (up_allocs al)" and s0: "\<not> allocated2 s0"
  obtains s where "state_init2 p al s0 = Ok (0, s)" "fs1_of s = fresh p (up_allocs al) (fs1_of s0)"
    "g_library_mutex s = g_library_mutex s0"
proof -
  from al obtain t fi m fb ot fo where
    mem: "a_inode_table2 al = Some t" "a_freeinode_ts2 al = Some fi" "a_fs_data2 al = Some m"
    "a_free_blocks2 al = Some fb" "a_open_file_table2 al = Some ot" "a_free_open_file_entries2 al = Some fo"
    by (auto simp: allocs_ok_def up_allocs_def)
  let ?s = "s0\<lparr>fs_params2 := p, allocated2 := True, inode_table2 := t,
      freeinode_ts2 := replicate (unat (max_inode_count p)) FREE, fs_data2 := m,
      free_blocks2 := replicate (unat (max_block_count p)) FREE, open_file_table2 := ot,
      free_open_file_entries2 := replicate (unat (max_open_files_count p)) FREE\<rparr>"
  have "state_init2 p al s0 = Ok (0, ?s)"
    using al s0 mem by (simp add: state_init2_def allocs_ok_def up_allocs_def or_null_def Let_def foldR_fill)
  moreover have "fs1_of ?s = fresh p (up_allocs al) (fs1_of s0)"
    using mem by (simp add: fs1_of_def fresh_def up_allocs_def)
  ultimately show thesis using that [of ?s] by simp
qed

lemma up_inode_root: "up_inode (ino\<lparr>i_node_type2 := T_DIRECTORY2, i_size2 := x, i_data_block2 := b\<rparr>) =
    \<lparr>i_node_type = T_DIRECTORY, i_links_count = 1, i_size = x, i_data_block = b\<rparr>"
  by (cases ino) (simp add: up_inode_def)

lemma root_create2:
  assumes s: "shape (fs1_of s)" "\<not> g_library_mutex s"
    and free: "first_free (freeinode_ts2 s) = Some i" "first_free (free_blocks2 s) = Some b"
    and r: "inode_create T_DIRECTORY (fs1_of s) = Ok (j, u)"
  obtains s' where "inode_create2 T_DIRECTORY2 s = Ok (j, s')" "fs1_of s' = u" "\<not> g_library_mutex s'"
proof -
  note len = shape_lengths [OF s(1)] first_free_less [OF free(1)] first_free_less [OF free(2)]
  let ?d = "s\<lparr>freeinode_ts2 := (freeinode_ts2 s)[i := TAKEN], inode_table2 := (inode_table2 s)[i :=
      (inode_table2 s ! i)\<lparr>i_node_type2 := T_DIRECTORY2\<rparr>]\<rparr>"
  let ?e = "?d\<lparr>free_blocks2 := (free_blocks2 s)[b := TAKEN], inode_table2 := (inode_table2 s)[i :=
      (inode_table2 s ! i)\<lparr>i_node_type2 := T_DIRECTORY2, i_size2 := BLOCK_SIZE2 s, i_data_block2 := int b\<rparr>]\<rparr>"
  have v: "valid_block_number (fs1_of s) (int b)" using len by (simp add: valid_block_number_iff)
  have "data_block_alloc2 ?d = Ok (int b, ?d\<lparr>free_blocks2 := (free_blocks2 s)[b := TAKEN]\<rparr>)"
    using data_block_alloc2_eq [of ?d] s(1) free(2) len by simp
  moreover have "data_block_get2 (int b) ?e = Ok (blk_addr (fs1_of s) (int b))"
    using data_block_get2_eq [of ?e "int b"] s(1) v len by (simp add: view_simps)
  ultimately have c2: "inode_create2 T_DIRECTORY2 s =
      bindR (foldR (\<lambda>k m. mem_write m (d_inumber_addr (blk_addr (fs1_of s) (int b)) k) (enc32 (-1)))
        [0..<MAX_DIR_ENTRIES (fs1_of s)] (fs_data2 s)) (\<lambda>m. Ok (int i, ?e\<lparr>fs_data2 := m\<rparr>))"
    using s free len
    by (simp add: inode_create2_def inode_alloc2_eq inode_at2_eq inode_put2_eq MAX_DIR_ENTRIES_def)
  have c1: "inode_create T_DIRECTORY (fs1_of s) =
      bindR (foldR (\<lambda>k m. mem_write m (d_inumber_addr (blk_addr (fs1_of s) (int b)) k) (enc32 (-1)))
        [0..<MAX_DIR_ENTRIES (fs1_of s)] (fs_data2 s)) (\<lambda>m. Ok (int i, (fs1_of ?e)\<lparr>fs_data := m\<rparr>))"
    using s(1) free len v
    by (simp add: inode_create_def tfs_simps view_simps map_update up_inode_root whole_inode MAX_DIR_ENTRIES_def)
  from r c1 obtain m where "foldR (\<lambda>k m. mem_write m (d_inumber_addr (blk_addr (fs1_of s) (int b)) k) (enc32 (-1)))
        [0..<MAX_DIR_ENTRIES (fs1_of s)] (fs_data2 s) = Ok m" "j = int i" "u = (fs1_of ?e)\<lparr>fs_data := m\<rparr>"
    by (auto simp: bindR_eq_Ok simp del: fs1_of_upd)
  with c2 s(2) show thesis by (intro that [of "?e\<lparr>fs_data2 := m\<rparr>"]) (simp_all del: fs1_of_upd add: fs1_of_upd(3))
qed

end
