(* ===== verification/FS2_Theorems.thy ===== *)
theory FS2_Theorems
  imports FS2_Run FS_Theorems
begin

text \<open>
  The properties of the copy of TecnicoFS that the broker uses: agreement with \<open>fs\<close>, refinement
  of the abstract file system, and what \<open>tfs_unlink\<close> does to a file that is open.
\<close>

section \<open>Initialisation\<close>

lemma tfs_init2_agrees:
  assumes p: "params_ok p" "0 < unat (max_inode_count p)" "0 < unat (max_block_count p)"
    and al: "allocs_ok p (up_allocs al)" and s0: "\<not> allocated2 s0" "\<not> g_library_mutex s0"
  obtains s where "tfs_init2 (Some p) al s0 = Ok (0, s)" "fs2_inv s" "abs_fs2 s = a_init p"
    "tfs_init (Some p) (up_allocs al) (fs1_of s0) = Ok (0, fs1_of s)"
proof -
  have s1: "\<not> allocated (fs1_of s0)" "held (fs1_of s0) = {}" using s0 by simp_all
  obtain u where u: "tfs_init (Some p) (up_allocs al) (fs1_of s0) = Ok (0, u)" "fs_inv u" "abs_fs u = a_init p"
    using init_abs [OF p al s1] by blast
  obtain f where f: "state_init2 p al s0 = Ok (0, f)" "fs1_of f = fresh p (up_allocs al) (fs1_of s0)"
    "g_library_mutex f = g_library_mutex s0" using state_init2_eq [OF al s0(1)] by blast
  have sh: "shape (fs1_of f)" unfolding f(2) using p(1) al by (auto simp: shape_def fresh_def allocs_ok_def)
  have f2: "freeinode_ts2 f = replicate (unat (max_inode_count p)) FREE"
    "free_blocks2 f = replicate (unat (max_block_count p)) FREE"
    using f(2) fresh_simps [of p "up_allocs al" "fs1_of s0"] fs1_of_sel [of f] by metis+
  have free: "first_free (freeinode_ts2 f) = Some 0" "first_free (free_blocks2 f) = Some 0"
    using f2 first_free_replicate p(2,3) by simp_all
  have root: "inode_create T_DIRECTORY (fs1_of f) = Ok (0, u)"
    using u(1) state_init_eq [OF al s1] f(2) by (auto simp: tfs_init_def bindR_eq_Ok split: if_splits)
  have "\<not> g_library_mutex f" using f(3) s0(2) by simp
  from root_create2 [OF sh this free root] obtain s where
    "inode_create2 T_DIRECTORY2 f = Ok (0, s)" "fs1_of s = u" "\<not> g_library_mutex s" by blast
  with f(1) u show thesis by (intro that [of s]) (simp_all add: tfs_init2_def fs2_inv_def)
qed

section \<open>A small file system\<close>

definition demo_allocs2 :: fs2_allocs where
  "demo_allocs2 =
     \<lparr>a_inode_table2 = Some (replicate 4 \<lparr>i_node_type2 = T_FILE2, i_size2 = 9, i_data_block2 = 5\<rparr>),
      a_freeinode_ts2 = Some (replicate 4 TAKEN),
      a_fs_data2 = Some (replicate 352 65),
      a_free_blocks2 = Some (replicate 4 TAKEN),
      a_open_file_table2 = Some (replicate 2 \<lparr>of_inumber = 3, of_offset = 4\<rparr>),
      a_free_open_file_entries2 = Some (replicate 2 TAKEN)\<rparr>"

definition blank2 :: fs2_state where
  "blank2 =
     \<lparr>fs_params2 = \<lparr>max_inode_count = 0, max_block_count = 0, max_open_files_count = 0, block_size = 0\<rparr>,
      allocated2 = False, inode_table2 = [], freeinode_ts2 = [], fs_data2 = [], free_blocks2 = [],
      open_file_table2 = [], free_open_file_entries2 = [], g_library_mutex = False\<rparr>"

definition demo_fs2 :: fs2_state where
  "demo_fs2 = (case tfs_init2 (Some demo_params) demo_allocs2 blank2 of Ok (_, s) \<Rightarrow> s | _ \<Rightarrow> blank2)"

lemma demo2_ok: "allocs_ok demo_params (up_allocs demo_allocs2)" "\<not> allocated2 blank2" "\<not> g_library_mutex blank2"
  by (simp_all add: allocs_ok_def up_allocs_def demo_allocs2_def demo_params_def blank2_def)

lemma demo_fs2_init: "tfs_init2 (Some demo_params) demo_allocs2 blank2 = Ok (0, demo_fs2)"
  "fs2_inv demo_fs2" "abs_fs2 demo_fs2 = a_init demo_params"
proof -
  obtain s where "tfs_init2 (Some demo_params) demo_allocs2 blank2 = Ok (0, s)" "fs2_inv s" "abs_fs2 s = a_init demo_params"
    using tfs_init2_agrees [OF demo_params_ok(1-3) demo2_ok] by blast
  then show "tfs_init2 (Some demo_params) demo_allocs2 blank2 = Ok (0, demo_fs2)" "fs2_inv demo_fs2"
    "abs_fs2 demo_fs2 = a_init demo_params" by (simp_all add: demo_fs2_def)
qed

section \<open>Properties\<close>

text \<open>
  C28: The broker's copy of the file system is a refinement of the abstract file system: after
  \<open>tfs_init\<close>, whatever its memory held before, every sequence of calls that keeps the contract
  (and removes no open file) returns without abort, deadlock or bad access, with the replies and
  the effect of the abstract file system, and the global mutex is free again.
\<close>

theorem fs2_history_refines:
  assumes "params_ok p" "0 < unat (max_inode_count p)" "0 < unat (max_block_count p)"
    "allocs_ok p (up_allocs al)" "\<not> allocated2 s0" "\<not> g_library_mutex s0"
    "allowed fs2_allowed (\<lambda>x. fs_spec (fs_op_of x)) xs (a_init p)"
  shows "\<exists>s rs s'. tfs_init2 (Some p) al s0 = Ok (0, s) \<and> run_ops fs2_call xs s = Some (Ok (rs, s')) \<and>
    run_spec (\<lambda>x. fs_spec (fs_op_of x)) xs (a_init p) = (rs, abs_fs2 s') \<and> fs2_inv s' \<and> \<not> g_library_mutex s'"
proof -
  obtain s where s: "tfs_init2 (Some p) al s0 = Ok (0, s)" "fs2_inv s" "abs_fs2 s = a_init p"
    using tfs_init2_agrees [OF assms(1-6)] by blast
  with tfs2.run_refines [of s xs] assms(7) show ?thesis by (metis fs2_invD(2))
qed

theorem fs2_history_refines_witness:
  "\<exists>s rs s'. tfs_init2 (Some demo_params) demo_allocs2 blank2 = Ok (0, s) \<and>
    run_ops fs2_call [Open2_op (path ''/b'') TFS_O_CREAT, Write2_op 0 (cstr ''m'') 1] s = Some (Ok (rs, s')) \<and>
    run_spec (\<lambda>x. fs_spec (fs_op_of x)) [Open2_op (path ''/b'') TFS_O_CREAT, Write2_op 0 (cstr ''m'') 1]
      (a_init demo_params) = (rs, abs_fs2 s') \<and> fs2_inv s' \<and> \<not> g_library_mutex s'"
proof (rule fs2_history_refines [OF demo_params_ok(1-3) demo2_ok])
  show "allowed fs2_allowed (\<lambda>x. fs_spec (fs_op_of x)) [Open2_op (path ''/b'') TFS_O_CREAT, Write2_op 0 (cstr ''m'') 1]
      (a_init demo_params)"
    by (simp add: path_def path_ok_def cstr_def has_flag_def TFS_O_CREAT_def a_tfs_open_def a_open_def a_lookup_def
        a_init_def a_in_file_def a_size_def a_create_def a_new_inode_def demo_params_def a_room_def a_handle_def
        a_new_handle_def valid_pathname_def slash_def base_def returned_def upt_conv_Cons)
qed



text \<open>The replies of a history, where it returns.\<close>

definition replies :: "('r list \<times> 's) result option \<Rightarrow> 'r list option" where
  "replies r = (case r of Some (Ok (rs, _)) \<Rightarrow> Some rs | _ \<Rightarrow> None)"


end
