(* ===== verification/PC_Queue.thy ===== *)
theory PC_Queue
  imports Interfaces
begin

text \<open>
  The bounded queue of \<open>producer-consumer/pcqueue.c\<close>: the structure, the statements of the two
  critical sections, and their refinement to a list. The interleaving of threads is in the theory
  \<open>PC_Threads\<close>.
\<close>

section \<open>The structure\<close>

text \<open>The mutexes and condition variables of \<open>pc_queue_t\<close> are part of the threads' model.\<close>

record 'a pc_queue_t =
  pcq_buffer :: "'a list"
  pcq_capacity :: size_t
  pcq_current_size :: size_t
  pcq_head :: size_t
  pcq_tail :: size_t

text \<open>
  \<open>malloc\<close> is asked for \<open>sizeof(void *) * capacity\<close> bytes, a product in \<open>size_t\<close>;
  \<open>None\<close> is a \<open>NULL\<close> result, otherwise the argument is the memory obtained.
\<close>

definition pcq_bytes :: "size_t \<Rightarrow> size_t" where
  "pcq_bytes capacity = 8 * capacity"

definition pcq_create :: "'a list option \<Rightarrow> size_t \<Rightarrow> int \<times> 'a pc_queue_t option" where
  "pcq_create mem capacity =
     (case mem of
        None \<Rightarrow> (-1, None)
      | Some b \<Rightarrow>
          (0, Some \<lparr>pcq_buffer = b, pcq_capacity = capacity, pcq_current_size = 0,
                    pcq_head = 0, pcq_tail = 0\<rparr>))"

text \<open>\<open>free\<close> takes the buffer away: every later access to it is undefined.\<close>

definition pcq_destroy :: "'a pc_queue_t \<Rightarrow> int \<times> 'a pc_queue_t" where
  "pcq_destroy q = (0, q\<lparr>pcq_buffer := []\<rparr>)"

section \<open>Statements\<close>

text \<open>The statements of the critical section of \<open>pcq_enqueue\<close>, in order.\<close>

definition pcq_full :: "'a pc_queue_t \<Rightarrow> bool" where
  "pcq_full q \<longleftrightarrow> pcq_current_size q = pcq_capacity q"

definition pcq_count_up :: "'a pc_queue_t \<Rightarrow> 'a pc_queue_t" where
  "pcq_count_up q = q\<lparr>pcq_current_size := pcq_current_size q + 1\<rparr>"

definition pcq_store :: "'a \<Rightarrow> 'a pc_queue_t \<Rightarrow> 'a pc_queue_t result" where
  "pcq_store e q = bindR (arr_set (pcq_buffer q) (unat (pcq_head q)) e) (\<lambda>b. Ok (q\<lparr>pcq_buffer := b\<rparr>))"

definition pcq_advance_head :: "'a pc_queue_t \<Rightarrow> 'a pc_queue_t result" where
  "pcq_advance_head q =
     (if pcq_capacity q = 0 then Undef
      else Ok (q\<lparr>pcq_head := (pcq_head q + 1) mod pcq_capacity q\<rparr>))"

text \<open>The statements of the critical section of \<open>pcq_dequeue\<close>, in order.\<close>

definition pcq_empty :: "'a pc_queue_t \<Rightarrow> bool" where
  "pcq_empty q \<longleftrightarrow> pcq_current_size q = 0"

definition pcq_count_down :: "'a pc_queue_t \<Rightarrow> 'a pc_queue_t" where
  "pcq_count_down q = q\<lparr>pcq_current_size := pcq_current_size q - 1\<rparr>"

definition pcq_fetch :: "'a pc_queue_t \<Rightarrow> 'a result" where
  "pcq_fetch q = arr_get (pcq_buffer q) (unat (pcq_tail q))"

definition pcq_advance_tail :: "'a pc_queue_t \<Rightarrow> 'a pc_queue_t result" where
  "pcq_advance_tail q =
     (if pcq_capacity q = 0 then Undef
      else Ok (q\<lparr>pcq_tail := (pcq_tail q + 1) mod pcq_capacity q\<rparr>))"

text \<open>
  The calls of a thread on its own: \<open>None\<close> when the thread would sleep on the condition variable.
\<close>

definition pcq_enqueue :: "'a \<Rightarrow> 'a pc_queue_t \<Rightarrow> (int \<times> 'a pc_queue_t) result option" where
  "pcq_enqueue e q =
     (if pcq_full q then None
      else Some (bindR (pcq_store e (pcq_count_up q)) (\<lambda>q.
                 bindR (pcq_advance_head q) (\<lambda>q. Ok (0, q)))))"

definition pcq_dequeue :: "'a pc_queue_t \<Rightarrow> ('a \<times> 'a pc_queue_t) result option" where
  "pcq_dequeue q =
     (if pcq_empty q then None
      else Some (let q = pcq_count_down q in
                 bindR (pcq_fetch q) (\<lambda>e.
                 bindR (pcq_advance_tail q) (\<lambda>q. Ok (e, q)))))"

section \<open>The ring\<close>

text \<open>The elements \<open>xs\<close> lie in the ring \<open>b\<close> of capacity \<open>c\<close> from position \<open>t\<close> on.\<close>

definition ring :: "'a list \<Rightarrow> nat \<Rightarrow> nat \<Rightarrow> 'a list \<Rightarrow> bool" where
  "ring b c t xs \<longleftrightarrow>
     length b = c \<and> t < c \<and> length xs \<le> c \<and> (\<forall>i<length xs. b ! ((t + i) mod c) = xs ! i)"

lemma mod_add_inj:
  assumes "(t + i) mod c = (t + j) mod c" "i < c" "j < (c::nat)"
  shows "i = j"
proof -
  have "a = b" if "(t + a) mod c = (t + b) mod c" "a \<le> b" "b < c" for a b
  proof -
    have "c dvd b - a" using that mod_eq_dvd_iff_nat [of "t + a" "t + b" c] by simp
    with that show ?thesis by (metis diff_is_0_eq dvd_imp_le le_antisym less_imp_diff_less linorder_not_le zero_less_diff)
  qed
  with assms show ?thesis by (metis nat_le_linear)
qed

lemma ring_push:
  assumes "ring b c t xs" "length xs < c"
  shows "ring (b[(t + length xs) mod c := e]) c t (xs @ [e])"
proof -
  have "b[(t + length xs) mod c := e] ! ((t + i) mod c) = (xs @ [e]) ! i" if "i < Suc (length xs)" for i
  proof (cases "i = length xs")
    case True
    with assms show ?thesis by (simp add: ring_def nth_list_update)
  next
    case False
    with that have i: "i < length xs" by simp
    then have "(t + length xs) mod c \<noteq> (t + i) mod c"
      using mod_add_inj [of t "length xs" c i] assms(2) by auto
    with i assms show ?thesis by (simp add: ring_def nth_append)
  qed
  with assms show ?thesis by (simp add: ring_def)
qed

lemma ring_pop:
  assumes "ring b c t (x # xs)"
  shows "b ! t = x" "ring b c ((t + 1) mod c) xs"
proof -
  have r: "length b = c" "t < c" "Suc (length xs) \<le> c"
    "\<And>i. i < Suc (length xs) \<Longrightarrow> b ! ((t + i) mod c) = (x # xs) ! i"
    using assms by (auto simp: ring_def)
  show "b ! t = x" using r(4) [of 0] r(2) by simp
  have "b ! (((t + 1) mod c + i) mod c) = xs ! i" if "i < length xs" for i
    using r(4) [of "Suc i"] that by (simp add: mod_add_left_eq)
  with r show "ring b c ((t + 1) mod c) xs" by (simp add: ring_def)
qed

section \<open>Refinement to a list\<close>

definition pcq_wf :: "'a pc_queue_t \<Rightarrow> 'a list \<Rightarrow> bool" where
  "pcq_wf q xs \<longleftrightarrow>
     unat (pcq_capacity q) < 2 ^ 61 \<and>
     ring (pcq_buffer q) (unat (pcq_capacity q)) (unat (pcq_tail q)) xs \<and>
     unat (pcq_current_size q) = length xs \<and>
     unat (pcq_head q) = (unat (pcq_tail q) + length xs) mod unat (pcq_capacity q)"

text \<open>Stepping a position round the ring does not overflow.\<close>

lemma unat_advance:
  fixes p c :: size_t
  assumes "unat p < unat c" "unat c < 2 ^ 61"
  shows "unat ((p + 1) mod c) = (unat p + 1) mod unat c"
proof -
  have "unat (p + 1) = unat p + 1" using assms by (simp add: unat_word_ariths)
  then show ?thesis by (simp add: unat_mod)
qed

lemma pcq_wf_lengths:
  assumes "pcq_wf q xs"
  shows "length (pcq_buffer q) = unat (pcq_capacity q)" "unat (pcq_tail q) < unat (pcq_capacity q)"
    "unat (pcq_head q) < unat (pcq_capacity q)" "length xs \<le> unat (pcq_capacity q)" "pcq_capacity q \<noteq> 0"
  using assms by (auto simp: pcq_wf_def ring_def)

lemma pcq_full_iff: "pcq_wf q xs \<Longrightarrow> pcq_full q \<longleftrightarrow> length xs = unat (pcq_capacity q)"
  by (auto simp: pcq_wf_def pcq_full_def word_unat_eq_iff)

lemma pcq_empty_iff: "pcq_wf q xs \<Longrightarrow> pcq_empty q \<longleftrightarrow> xs = []"
  by (auto simp: pcq_wf_def pcq_empty_def word_unat_eq_iff)

lemma enqueue_wf:
  assumes wf: "pcq_wf q xs" and room: "length xs < unat (pcq_capacity q)"
  obtains q' where "pcq_enqueue e q = Some (Ok (0, q'))" "pcq_wf q' (xs @ [e])" "pcq_capacity q' = pcq_capacity q"
proof -
  let ?c = "unat (pcq_capacity q)" and ?t = "unat (pcq_tail q)" and ?h = "unat (pcq_head q)"
  note L = pcq_wf_lengths [OF wf]
  have w: "?c < 2 ^ 61" "ring (pcq_buffer q) ?c ?t xs" "unat (pcq_current_size q) = length xs"
    "?h = (?t + length xs) mod ?c"
    using wf by (auto simp: pcq_wf_def)
  let ?q = "q\<lparr>pcq_buffer := (pcq_buffer q)[?h := e], pcq_current_size := pcq_current_size q + 1,
      pcq_head := (pcq_head q + 1) mod pcq_capacity q\<rparr>"
  have "pcq_enqueue e q = Some (Ok (0, ?q))"
    using room L pcq_full_iff [OF wf]
    by (simp add: pcq_enqueue_def pcq_count_up_def pcq_store_def pcq_advance_head_def)
  moreover have "unat (pcq_current_size q + 1) = length xs + 1"
    using w room by (simp add: unat_word_ariths)
  moreover have "unat ((pcq_head q + 1) mod pcq_capacity q) = (?t + length (xs @ [e])) mod ?c"
    using unat_advance [OF L(3) w(1)] w(4) by (simp add: mod_Suc_eq)
  ultimately show thesis
    using that [of ?q] ring_push [OF w(2) room, of e] w by (simp add: pcq_wf_def)
qed

lemma dequeue_wf:
  assumes wf: "pcq_wf q (x # xs)"
  obtains q' where "pcq_dequeue q = Some (Ok (x, q'))" "pcq_wf q' xs" "pcq_capacity q' = pcq_capacity q"
proof -
  let ?c = "unat (pcq_capacity q)" and ?t = "unat (pcq_tail q)"
  note L = pcq_wf_lengths [OF wf]
  have w: "?c < 2 ^ 61" "ring (pcq_buffer q) ?c ?t (x # xs)" "unat (pcq_current_size q) = Suc (length xs)"
    "unat (pcq_head q) = (?t + Suc (length xs)) mod ?c"
    using wf by (auto simp: pcq_wf_def)
  note pop = ring_pop [OF w(2)]
  let ?q = "q\<lparr>pcq_current_size := pcq_current_size q - 1, pcq_tail := (pcq_tail q + 1) mod pcq_capacity q\<rparr>"
  have "pcq_dequeue q = Some (Ok (x, ?q))"
    using L pop pcq_empty_iff [OF wf]
    by (simp add: pcq_dequeue_def pcq_count_down_def pcq_fetch_def pcq_advance_tail_def Let_def)
  moreover have "1 \<le> pcq_current_size q" using w(3) by (simp add: word_le_nat_alt)
  then have "unat (pcq_current_size q - 1) = length xs" using w(3) by (simp add: unat_sub)
  moreover have adv: "unat ((pcq_tail q + 1) mod pcq_capacity q) = (?t + 1) mod ?c"
    using unat_advance [OF L(2) w(1)] .
  moreover have "unat (pcq_head q) = ((?t + 1) mod ?c + length xs) mod ?c"
    using w(4) by (simp add: mod_add_left_eq)
  ultimately show thesis
    using that [of ?q] pop(2) w(1) by (simp add: pcq_wf_def)
qed

text \<open>The elements of a queue, oldest first.\<close>

definition pcq_elems :: "'a pc_queue_t \<Rightarrow> 'a list" where
  "pcq_elems q =
     map (\<lambda>i. pcq_buffer q ! ((unat (pcq_tail q) + i) mod unat (pcq_capacity q))) [0..<unat (pcq_current_size q)]"

lemma pcq_wf_elems: "pcq_wf q xs \<Longrightarrow> xs = pcq_elems q"
  by (auto simp: pcq_wf_def ring_def pcq_elems_def intro!: nth_equalityI)

interpretation pcq: bounded_queue "\<lambda>q. pcq_wf q (pcq_elems q)" pcq_elems "\<lambda>q. unat (pcq_capacity q)"
  pcq_enqueue pcq_dequeue
proof
  fix q :: "'a pc_queue_t" and e x :: 'a and xs
  assume wf: "pcq_wf q (pcq_elems q)"
  show "length (pcq_elems q) \<le> unat (pcq_capacity q)" using pcq_wf_lengths(4) [OF wf] .
  show "pcq_enqueue e q = None" if "length (pcq_elems q) = unat (pcq_capacity q)"
    using that pcq_full_iff [OF wf] by (simp add: pcq_enqueue_def)
  show "pcq_dequeue q = None" if "pcq_elems q = []"
    using that pcq_empty_iff [OF wf] by (simp add: pcq_dequeue_def)
  show "\<exists>q'. pcq_enqueue e q = Some (Ok (0, q')) \<and> pcq_wf q' (pcq_elems q') \<and> pcq_elems q' = pcq_elems q @ [e] \<and>
      unat (pcq_capacity q') = unat (pcq_capacity q)" if "length (pcq_elems q) < unat (pcq_capacity q)"
    using enqueue_wf [OF wf that, of e] pcq_wf_elems by metis
  show "\<exists>q'. pcq_dequeue q = Some (Ok (x, q')) \<and> pcq_wf q' (pcq_elems q') \<and> pcq_elems q' = xs \<and>
      unat (pcq_capacity q') = unat (pcq_capacity q)" if "pcq_elems q = x # xs"
    using dequeue_wf [of q x xs] wf that pcq_wf_elems by metis
qed

text \<open>A fresh queue, for a capacity whose buffer size does not overflow.\<close>

lemma pcq_create_wf:
  assumes "0 < unat capacity" "unat capacity < 2 ^ 61" "length b = unat (pcq_bytes capacity) div 8"
  obtains q where "pcq_create (Some b) capacity = (0, Some q)" "pcq_wf q []" "pcq_elems q = []"
    "pcq_capacity q = capacity"
proof -
  have "unat (pcq_bytes capacity) = 8 * unat capacity"
    using assms(2) by (simp add: pcq_bytes_def unat_word_ariths)
  then have "pcq_wf \<lparr>pcq_buffer = b, pcq_capacity = capacity, pcq_current_size = 0, pcq_head = 0, pcq_tail = 0\<rparr> []"
    using assms by (simp add: pcq_wf_def ring_def)
  then show thesis using that by (simp add: pcq_create_def pcq_elems_def)
qed

text \<open>
  A queue that was created with a capacity that fits in memory delivers the elements put into
  it, at most its capacity, in the order they were put, and is empty afterwards; one element more
  than the capacity makes the producer wait.
\<close>

theorem pcq_first_in_first_out:
  assumes "0 < unat capacity" "unat capacity < 2 ^ 61" "length b = unat (pcq_bytes capacity) div 8"
  shows "\<exists>q. pcq_create (Some b) capacity = (0, Some q) \<and>
    (if length es \<le> unat capacity
     then \<exists>q1 q2. put_all pcq_enqueue es q = Some q1 \<and> take_all pcq_dequeue (length es) q1 = Some (es, q2) \<and>
       pcq_dequeue q2 = None
     else put_all pcq_enqueue es q = None)"
proof -
  obtain q where q: "pcq_create (Some b) capacity = (0, Some q)" "pcq_wf q []" "pcq_elems q = []"
    "pcq_capacity q = capacity"
    using pcq_create_wf [OF assms] .
  obtain q1 q2 where "put_all pcq_enqueue es q = Some q1" "take_all pcq_dequeue (length es) q1 = Some (es, q2)"
    "pcq_elems q2 = []" "pcq_wf q2 (pcq_elems q2)" if "length es \<le> unat capacity"
    using q pcq.put_all_elems [of q es] pcq.take_all_elems [of _ "length es"] by fastforce
  then show ?thesis
    using q pcq.put_all_waits [of q es] pcq.deq_waits by fastforce
qed

theorem pcq_first_in_first_out_witness:
  "\<exists>q q1 q2. pcq_create (Some [9, 9, 9 :: int]) 3 = (0, Some q) \<and> put_all pcq_enqueue [4, 5] q = Some q1 \<and>
     take_all pcq_dequeue (Suc (Suc 0)) q1 = Some ([4, 5], q2) \<and> pcq_dequeue q2 = None"
  using pcq_first_in_first_out [of 3 "[9, 9, 9 :: int]" "[4, 5]"]
  by (simp add: pcq_bytes_def del: put_all.simps take_all.simps)

end
