(* ===== verification/PC_Threads.thy ===== *)
theory PC_Threads
  imports PC_Queue
begin

text \<open>
  The threads that use the queue of \<open>producer-consumer/pcqueue.c\<close>, interleaved at the level of
  single lock operations, waits, broadcasts and assignments. A thread runs \<open>pcq_enqueue\<close> or
  \<open>pcq_dequeue\<close>; its program counter names the next statement. A condition variable is the set of
  threads that wait on it, which are those at the program counter after the release of the mutex.
\<close>

section \<open>Threads\<close>

datatype pcq_mutex = Size_lock | Head_lock | Tail_lock | Pusher_lock | Popper_lock

datatype 'a pc =
    Idle
  | Enq_lock_pusher 'a | Enq_lock_size 'a | Enq_test 'a | Enq_unlock_size_full 'a | Enq_cond_wait 'a
  | Enq_waiting 'a | Enq_woken 'a | Enq_lock_head 'a | Enq_count 'a | Enq_store 'a | Enq_advance
  | Enq_unlock_head | Enq_unlock_size | Enq_unlock_pusher | Enq_broadcast
  | Deq_lock_popper | Deq_lock_size | Deq_test | Deq_unlock_size_empty | Deq_cond_wait
  | Deq_waiting | Deq_woken | Deq_lock_tail | Deq_count | Deq_fetch | Deq_advance 'a
  | Deq_unlock_tail 'a | Deq_unlock_size 'a | Deq_unlock_popper 'a | Deq_broadcast 'a

text \<open>
  \<open>pushed\<close> and \<open>popped\<close> record the values stored in and fetched from the buffer, in that
  order; \<open>crashed\<close> is set by an access outside the buffer or a division by zero.
\<close>

record 'a pcq_sys =
  queue :: "'a pc_queue_t"
  owner :: "pcq_mutex \<Rightarrow> nat option"
  pcs :: "nat \<Rightarrow> 'a pc"
  pushed :: "'a list"
  popped :: "'a list"
  crashed :: bool

definition goto :: "nat \<Rightarrow> 'a pc \<Rightarrow> 'a pcq_sys \<Rightarrow> 'a pcq_sys" where
  "goto t p s = s\<lparr>pcs := (pcs s)(t := p)\<rparr>"

definition acquire :: "pcq_mutex \<Rightarrow> nat \<Rightarrow> 'a pc \<Rightarrow> 'a pcq_sys \<Rightarrow> 'a pcq_sys option" where
  "acquire m t p s =
     (if owner s m = None then Some (goto t p (s\<lparr>owner := (owner s)(m \<mapsto> t)\<rparr>)) else None)"

definition release :: "pcq_mutex \<Rightarrow> nat \<Rightarrow> 'a pc \<Rightarrow> 'a pcq_sys \<Rightarrow> 'a pcq_sys option" where
  "release m t p s = Some (goto t p (s\<lparr>owner := (owner s)(m := None)\<rparr>))"

definition update :: "nat \<Rightarrow> 'a pc \<Rightarrow> 'a pc_queue_t result \<Rightarrow> 'a pcq_sys \<Rightarrow> 'a pcq_sys option" where
  "update t p r s =
     Some (case r of Ok q \<Rightarrow> goto t p (s\<lparr>queue := q\<rparr>) | _ \<Rightarrow> s\<lparr>crashed := True\<rparr>)"

definition wake_poppers :: "'a pcq_sys \<Rightarrow> 'a pcq_sys" where
  "wake_poppers s = s\<lparr>pcs := (\<lambda>u. case pcs s u of Deq_waiting \<Rightarrow> Deq_woken | p \<Rightarrow> p)\<rparr>"

definition wake_pushers :: "'a pcq_sys \<Rightarrow> 'a pcq_sys" where
  "wake_pushers s = s\<lparr>pcs := (\<lambda>u. case pcs s u of Enq_waiting e \<Rightarrow> Enq_woken e | p \<Rightarrow> p)\<rparr>"

text \<open>The next step of thread \<open>t\<close>; \<open>None\<close> when it cannot move.\<close>

definition enqueue_step :: "nat \<Rightarrow> 'a pc \<Rightarrow> 'a pcq_sys \<Rightarrow> 'a pcq_sys option" where
  "enqueue_step t p s =
     (case p of
        Enq_lock_pusher e \<Rightarrow> acquire Pusher_lock t (Enq_lock_size e) s
      | Enq_lock_size e \<Rightarrow> acquire Size_lock t (Enq_test e) s
      | Enq_test e \<Rightarrow>
          Some (goto t (if pcq_full (queue s) then Enq_unlock_size_full e else Enq_lock_head e) s)
      | Enq_unlock_size_full e \<Rightarrow> release Size_lock t (Enq_cond_wait e) s
      | Enq_cond_wait e \<Rightarrow> release Pusher_lock t (Enq_waiting e) s
      | Enq_woken e \<Rightarrow> acquire Pusher_lock t (Enq_lock_size e) s
      | Enq_lock_head e \<Rightarrow> acquire Head_lock t (Enq_count e) s
      | Enq_count e \<Rightarrow> update t (Enq_store e) (Ok (pcq_count_up (queue s))) s
      | Enq_store e \<Rightarrow> update t Enq_advance (pcq_store e (queue s)) (s\<lparr>pushed := pushed s @ [e]\<rparr>)
      | Enq_advance \<Rightarrow> update t Enq_unlock_head (pcq_advance_head (queue s)) s
      | Enq_unlock_head \<Rightarrow> release Head_lock t Enq_unlock_size s
      | Enq_unlock_size \<Rightarrow> release Size_lock t Enq_unlock_pusher s
      | Enq_unlock_pusher \<Rightarrow> release Pusher_lock t Enq_broadcast s
      | Enq_broadcast \<Rightarrow> Some (goto t Idle (wake_poppers s))
      | _ \<Rightarrow> None)"

definition dequeue_step :: "nat \<Rightarrow> 'a pc \<Rightarrow> 'a pcq_sys \<Rightarrow> 'a pcq_sys option" where
  "dequeue_step t p s =
     (case p of
        Deq_lock_popper \<Rightarrow> acquire Popper_lock t Deq_lock_size s
      | Deq_lock_size \<Rightarrow> acquire Size_lock t Deq_test s
      | Deq_test \<Rightarrow> Some (goto t (if pcq_empty (queue s) then Deq_unlock_size_empty else Deq_lock_tail) s)
      | Deq_unlock_size_empty \<Rightarrow> release Size_lock t Deq_cond_wait s
      | Deq_cond_wait \<Rightarrow> release Popper_lock t Deq_waiting s
      | Deq_woken \<Rightarrow> acquire Popper_lock t Deq_lock_size s
      | Deq_lock_tail \<Rightarrow> acquire Tail_lock t Deq_count s
      | Deq_count \<Rightarrow> update t Deq_fetch (Ok (pcq_count_down (queue s))) s
      | Deq_fetch \<Rightarrow>
          (case pcq_fetch (queue s) of
             Ok e \<Rightarrow> Some (goto t (Deq_advance e) (s\<lparr>popped := popped s @ [e]\<rparr>))
           | _ \<Rightarrow> Some (s\<lparr>crashed := True\<rparr>))
      | Deq_advance e \<Rightarrow> update t (Deq_unlock_tail e) (pcq_advance_tail (queue s)) s
      | Deq_unlock_tail e \<Rightarrow> release Tail_lock t (Deq_unlock_size e) s
      | Deq_unlock_size e \<Rightarrow> release Size_lock t (Deq_unlock_popper e) s
      | Deq_unlock_popper e \<Rightarrow> release Popper_lock t (Deq_broadcast e) s
      | Deq_broadcast e \<Rightarrow> Some (goto t Idle (wake_pushers s))
      | _ \<Rightarrow> None)"

definition pcq_next :: "nat \<Rightarrow> 'a pcq_sys \<Rightarrow> 'a pcq_sys option" where
  "pcq_next t s =
     (case enqueue_step t (pcs s t) s of Some s' \<Rightarrow> Some s' | None \<Rightarrow> dequeue_step t (pcs s t) s)"

text \<open>
  A system step: a thread moves, an idle thread calls one of the two functions, or a waiting thread
  wakes up without a broadcast, which POSIX allows.
\<close>

inductive pcq_step :: "'a pcq_sys \<Rightarrow> 'a pcq_sys \<Rightarrow> bool" where
  move: "pcq_next t s = Some s' \<Longrightarrow> pcq_step s s'"
| call_enqueue: "pcs s t = Idle \<Longrightarrow> pcq_step s (goto t (Enq_lock_pusher e) s)"
| call_dequeue: "pcs s t = Idle \<Longrightarrow> pcq_step s (goto t Deq_lock_popper s)"
| spurious_pusher: "pcs s t = Enq_waiting e \<Longrightarrow> pcq_step s (goto t (Enq_woken e) s)"
| spurious_popper: "pcs s t = Deq_waiting \<Longrightarrow> pcq_step s (goto t Deq_woken s)"

inductive_cases pcq_stepE: "pcq_step s s'"

definition pcq_init :: "'a pcq_sys \<Rightarrow> bool" where
  "pcq_init s \<longleftrightarrow>
     pcq_wf (queue s) [] \<and> owner s = Map.empty \<and> pcs s = (\<lambda>_. Idle) \<and> pushed s = [] \<and> popped s = [] \<and>
     \<not> crashed s"

section \<open>Invariant\<close>

fun holds :: "'a pc \<Rightarrow> pcq_mutex set" where
  "holds (Enq_lock_size e) = {Pusher_lock}"
| "holds (Enq_test e) = {Pusher_lock, Size_lock}"
| "holds (Enq_unlock_size_full e) = {Pusher_lock, Size_lock}"
| "holds (Enq_cond_wait e) = {Pusher_lock}"
| "holds (Enq_lock_head e) = {Pusher_lock, Size_lock}"
| "holds (Enq_count e) = {Pusher_lock, Size_lock, Head_lock}"
| "holds (Enq_store e) = {Pusher_lock, Size_lock, Head_lock}"
| "holds Enq_advance = {Pusher_lock, Size_lock, Head_lock}"
| "holds Enq_unlock_head = {Pusher_lock, Size_lock, Head_lock}"
| "holds Enq_unlock_size = {Pusher_lock, Size_lock}"
| "holds Enq_unlock_pusher = {Pusher_lock}"
| "holds Deq_lock_size = {Popper_lock}"
| "holds Deq_test = {Popper_lock, Size_lock}"
| "holds Deq_unlock_size_empty = {Popper_lock, Size_lock}"
| "holds Deq_cond_wait = {Popper_lock}"
| "holds Deq_lock_tail = {Popper_lock, Size_lock}"
| "holds Deq_count = {Popper_lock, Size_lock, Tail_lock}"
| "holds Deq_fetch = {Popper_lock, Size_lock, Tail_lock}"
| "holds (Deq_advance e) = {Popper_lock, Size_lock, Tail_lock}"
| "holds (Deq_unlock_tail e) = {Popper_lock, Size_lock, Tail_lock}"
| "holds (Deq_unlock_size e) = {Popper_lock, Size_lock}"
| "holds (Deq_unlock_popper e) = {Popper_lock}"
| "holds _ = {}"

definition lock_inv :: "'a pcq_sys \<Rightarrow> bool" where
  "lock_inv s \<longleftrightarrow> (\<forall>m t. owner s m = Some t \<longleftrightarrow> m \<in> holds (pcs s t))"


text \<open>The program counter of the thread that holds the size lock; no thread holds it when idle.\<close>

definition cur :: "'a pcq_sys \<Rightarrow> 'a pc" where
  "cur s = (case owner s Size_lock of None \<Rightarrow> Idle | Some t \<Rightarrow> pcs s t)"

text \<open>The state of the queue at each point of the critical sections, for the elements \<open>xs\<close>.\<close>

fun queue_phase :: "'a pc \<Rightarrow> 'a pc_queue_t \<Rightarrow> 'a list \<Rightarrow> bool" where
  "queue_phase (Enq_lock_head e) q xs \<longleftrightarrow> pcq_wf q xs \<and> length xs < unat (pcq_capacity q)"
| "queue_phase (Enq_count e) q xs \<longleftrightarrow> pcq_wf q xs \<and> length xs < unat (pcq_capacity q)"
| "queue_phase (Enq_store e) q xs \<longleftrightarrow>
     (\<exists>q0. pcq_wf q0 xs \<and> length xs < unat (pcq_capacity q0) \<and> q = pcq_count_up q0)"
| "queue_phase Enq_advance q xs \<longleftrightarrow>
     (\<exists>q0 e ys. pcq_wf q0 ys \<and> length ys < unat (pcq_capacity q0) \<and> xs = ys @ [e] \<and>
        pcq_store e (pcq_count_up q0) = Ok q)"
| "queue_phase Deq_lock_tail q xs \<longleftrightarrow> pcq_wf q xs \<and> xs \<noteq> []"
| "queue_phase Deq_count q xs \<longleftrightarrow> pcq_wf q xs \<and> xs \<noteq> []"
| "queue_phase Deq_fetch q xs \<longleftrightarrow> (\<exists>q0. pcq_wf q0 xs \<and> xs \<noteq> [] \<and> q = pcq_count_down q0)"
| "queue_phase (Deq_advance e) q xs \<longleftrightarrow> (\<exists>q0. pcq_wf q0 (e # xs) \<and> q = pcq_count_down q0)"
| "queue_phase _ q xs \<longleftrightarrow> pcq_wf q xs"

definition data_inv :: "'a pcq_sys \<Rightarrow> bool" where
  "data_inv s \<longleftrightarrow> \<not> crashed s \<and> (\<exists>xs. pushed s = popped s @ xs \<and> queue_phase (cur s) (queue s) xs)"

lemmas step_defs = goto_def acquire_def release_def update_def wake_poppers_def wake_pushers_def

lemma holds_wake:
  "holds (case p of Deq_waiting \<Rightarrow> Deq_woken | p \<Rightarrow> p) = holds p"
  "holds (case p of Enq_waiting e \<Rightarrow> Enq_woken e | p \<Rightarrow> p) = holds p"
  by (cases p; simp)+

lemma lock_owner: "lock_inv s \<Longrightarrow> owner s m = Some t \<longleftrightarrow> m \<in> holds (pcs s t)"
  by (simp add: lock_inv_def)

lemma lock_unique: "lock_inv s \<Longrightarrow> m \<in> holds (pcs s t) \<Longrightarrow> m \<in> holds (pcs s u) \<Longrightarrow> t = u"
  by (metis lock_owner option.inject)

lemma lock_inv_goto: "lock_inv s \<Longrightarrow> holds p = holds (pcs s t) \<Longrightarrow> lock_inv (goto t p s)"
  by (auto simp: lock_inv_def goto_def)

lemma lock_inv_acquire:
  assumes "lock_inv s" "acquire m t p s = Some s'" "holds p = insert m (holds (pcs s t))"
  shows "lock_inv s'"
proof -
  have "m \<notin> holds (pcs s u)" for u using assms(1,2) lock_owner [of s m u] by (auto simp: acquire_def split: if_splits)
  then show ?thesis using assms by (auto simp: lock_inv_def goto_def acquire_def split: if_splits)
qed

lemma lock_inv_release:
  assumes "lock_inv s" "release m t p s = Some s'" "m \<in> holds (pcs s t)" "holds p = holds (pcs s t) - {m}"
  shows "lock_inv s'"
proof -
  have "m \<notin> holds (pcs s u)" if "u \<noteq> t" for u using assms(1,3) that lock_unique [of s m t u] by auto
  then show ?thesis using assms by (auto simp: lock_inv_def goto_def release_def split: if_splits)
qed

lemma lock_inv_frame [simp]: "lock_inv (pushed_update f s) = lock_inv s" "lock_inv (popped_update f s) = lock_inv s"
  "lock_inv (crashed_update g s) = lock_inv s" "lock_inv (queue_update h s) = lock_inv s"
  by (simp_all add: lock_inv_def)

lemma lock_inv_update:
  assumes "lock_inv s" "update t p r s = Some s'" "holds p = holds (pcs s t)"
  shows "lock_inv s'"
  using assms lock_inv_goto [of "s\<lparr>queue := q\<rparr>" p t for q] by (auto simp: update_def split: result.splits)

lemma lock_inv_wake: "lock_inv s \<Longrightarrow> lock_inv (wake_poppers s)" "lock_inv s \<Longrightarrow> lock_inv (wake_pushers s)"
  by (simp_all add: lock_inv_def wake_poppers_def wake_pushers_def holds_wake)

lemma pcs_wake: "pcs (wake_poppers s) t = (case pcs s t of Deq_waiting \<Rightarrow> Deq_woken | p \<Rightarrow> p)"
  "pcs (wake_pushers s) t = (case pcs s t of Enq_waiting e \<Rightarrow> Enq_woken e | p \<Rightarrow> p)"
  by (simp_all add: wake_poppers_def wake_pushers_def)

lemma lock_inv_enqueue: "lock_inv s \<Longrightarrow> enqueue_step t (pcs s t) s = Some s' \<Longrightarrow> lock_inv s'"
  by (cases "pcs s t")
    (auto simp: enqueue_step_def pcs_wake lock_inv_wake
      elim: lock_inv_acquire lock_inv_release lock_inv_update [rotated] split: if_splits intro!: lock_inv_goto)

lemma lock_inv_dequeue: "lock_inv s \<Longrightarrow> dequeue_step t (pcs s t) s = Some s' \<Longrightarrow> lock_inv s'"
  by (cases "pcs s t")
    (auto simp: dequeue_step_def pcs_wake lock_inv_wake split: result.splits if_splits
      elim: lock_inv_acquire lock_inv_release lock_inv_update [rotated] intro!: lock_inv_goto)

text \<open>How the steps change the thread inside the critical section.\<close>

lemma cur_holder: "lock_inv s \<Longrightarrow> Size_lock \<in> holds (pcs s t) \<Longrightarrow> cur s = pcs s t"
  using lock_owner [of s Size_lock t] by (simp add: cur_def)

lemma cur_goto: "cur (goto t p s) = (if owner s Size_lock = Some t then p else cur s)"
  by (auto simp: cur_def goto_def split: option.splits)

lemma cur_frame [simp]: "cur (pushed_update f s) = cur s" "cur (popped_update f s) = cur s"
  "cur (crashed_update g s) = cur s" "cur (queue_update h s) = cur s"
  by (simp_all add: cur_def split: option.splits)

lemma cur_wake:
  assumes "lock_inv s"
  shows "cur (wake_poppers s) = cur s" "cur (wake_pushers s) = cur s"
proof -
  have "Size_lock \<in> holds (pcs s t)" if "owner s Size_lock = Some t" for t
    using that assms lock_owner by metis
  then show "cur (wake_poppers s) = cur s" "cur (wake_pushers s) = cur s"
    by (auto simp: cur_def wake_poppers_def wake_pushers_def  split: option.splits pc.splits)
qed

lemma goto_sel [simp]: "queue (goto t p s) = queue s" "pushed (goto t p s) = pushed s" "popped (goto t p s) = popped s"
  "crashed (goto t p s) = crashed s" "owner (goto t p s) = owner s"
  by (simp_all add: goto_def)

text \<open>The statements of the critical sections, from phase to phase.\<close>

lemma phase_test:
  "pcq_wf q xs \<Longrightarrow> \<not> pcq_full q \<Longrightarrow> length xs < unat (pcq_capacity q)"
  "pcq_wf q xs \<Longrightarrow> \<not> pcq_empty q \<Longrightarrow> xs \<noteq> []"
  using pcq_full_iff [of q xs] pcq_wf_lengths(4) [of q xs] pcq_empty_iff [of q xs] by auto

lemmas enqueue_dequeue_Ok = pcq_enqueue_def pcq_dequeue_def bindR_eq_Ok Let_def

lemma phase_store:
  assumes "queue_phase (Enq_store e) q xs"
  obtains q' where "pcq_store e q = Ok q'" "queue_phase Enq_advance q' (xs @ [e])"
proof -
  obtain q0 where q0: "pcq_wf q0 xs" "length xs < unat (pcq_capacity q0)" "q = pcq_count_up q0" using assms by auto
  obtain q2 where "pcq_enqueue e q0 = Some (Ok (0, q2))" by (rule enqueue_wf [OF q0(1,2), of e])
  then obtain q' where "pcq_store e q = Ok q'"
    using q0(3) by (auto simp: enqueue_dequeue_Ok split: if_splits)
  with q0 show thesis by (intro that [of q']) auto
qed

lemma phase_advance_head:
  assumes "queue_phase Enq_advance q xs"
  obtains q' where "pcq_advance_head q = Ok q'" "pcq_wf q' xs"
proof -
  obtain q0 e ys where q0: "pcq_wf q0 ys" "length ys < unat (pcq_capacity q0)" "xs = ys @ [e]"
    "pcq_store e (pcq_count_up q0) = Ok q" using assms by auto
  obtain q2 where q2: "pcq_enqueue e q0 = Some (Ok (0, q2))" "pcq_wf q2 (ys @ [e])"
    by (rule enqueue_wf [OF q0(1,2), of e])
  with q0(4) have "pcq_advance_head q = Ok q2" by (auto simp: enqueue_dequeue_Ok split: if_splits)
  with q2 q0(3) show thesis by (intro that [of q2]) simp_all
qed

lemma phase_fetch:
  assumes "queue_phase Deq_fetch q xs"
  obtains e ys where "pcq_fetch q = Ok e" "xs = e # ys" "queue_phase (Deq_advance e) q ys"
proof -
  obtain q0 where q0: "pcq_wf q0 xs" "xs \<noteq> []" "q = pcq_count_down q0" using assms by auto
  then obtain e ys where xs: "xs = e # ys" by (cases xs) auto
  then have "pcq_wf q0 (e # ys)" using q0(1) by simp
  then obtain q2 where "pcq_dequeue q0 = Some (Ok (e, q2))" by (rule dequeue_wf)
  with q0(3) have "pcq_fetch q = Ok e" by (auto simp: enqueue_dequeue_Ok split: if_splits)
  with q0 xs show thesis by (intro that [of e ys]) auto
qed

lemma phase_advance_tail:
  assumes "queue_phase (Deq_advance e) q xs"
  obtains q' where "pcq_advance_tail q = Ok q'" "pcq_wf q' xs"
proof -
  obtain q0 where q0: "pcq_wf q0 (e # xs)" "q = pcq_count_down q0" using assms by auto
  obtain q2 where q2: "pcq_dequeue q0 = Some (Ok (e, q2))" "pcq_wf q2 xs" by (rule dequeue_wf [OF q0(1)])
  with q0(2) have "pcq_advance_tail q = Ok q2" by (auto simp: enqueue_dequeue_Ok split: if_splits)
  with q2 show thesis by (intro that [of q2]) simp_all
qed

text \<open>A step that leaves the data alone and keeps the phase.\<close>

lemma data_inv_frame:
  assumes "data_inv s" "queue s' = queue s" "pushed s' = pushed s" "popped s' = popped s" "crashed s' = crashed s"
    "\<And>xs. queue_phase (cur s) (queue s) xs \<Longrightarrow> queue_phase (cur s') (queue s) xs"
  shows "data_inv s'"
  using assms by (auto simp: data_inv_def)

lemma data_inv_goto:
  assumes "data_inv s" "lock_inv s"
    "Size_lock \<in> holds (pcs s t) \<Longrightarrow> queue_phase (pcs s t) (queue s) \<le> queue_phase p (queue s)"
  shows "data_inv (goto t p s)"
  by (rule data_inv_frame [OF assms(1)])
    (use assms(2,3) cur_holder [of s t] in \<open>auto simp: cur_goto lock_owner\<close>)

lemma data_inv_acquire:
  assumes "data_inv s" "lock_inv s" "acquire m t p s = Some s'" "Size_lock \<notin> holds (pcs s t) \<Longrightarrow> queue_phase p = pcq_wf"
    "Size_lock \<in> holds (pcs s t) \<Longrightarrow> queue_phase p (queue s) = queue_phase (pcs s t) (queue s)"
  shows "data_inv s'"
proof (rule data_inv_frame [OF assms(1)])
  show "queue_phase (cur s') (queue s) xs" if "queue_phase (cur s) (queue s) xs" for xs
  proof (cases "Size_lock \<in> holds (pcs s t)")
    case True
    with assms that cur_holder [of s t] lock_owner [of s Size_lock t] show ?thesis
      by (auto simp: acquire_def goto_def cur_def split: if_splits)
  next
    case False
    with assms that lock_owner [of s Size_lock t] show ?thesis
      by (auto simp: acquire_def goto_def cur_def split: if_splits option.splits)
  qed
qed (use assms(3) in \<open>auto simp: acquire_def split: if_splits\<close>)

lemma data_inv_release:
  assumes "data_inv s" "lock_inv s" "release m t p s = Some s'" "m \<in> holds (pcs s t)"
    "Size_lock \<in> holds (pcs s t) \<Longrightarrow> queue_phase (pcs s t) = pcq_wf \<and> queue_phase p = pcq_wf"
  shows "data_inv s'"
proof (rule data_inv_frame [OF assms(1)])
  show "queue_phase (cur s') (queue s) xs" if "queue_phase (cur s) (queue s) xs" for xs
  proof (cases "Size_lock \<in> holds (pcs s t)")
    case True
    with assms that cur_holder [of s t] lock_owner [of s Size_lock t] show ?thesis
      by (auto simp: release_def goto_def cur_def split: if_splits)
  next
    case False
    with assms that lock_owner [of s Size_lock t] show ?thesis
      by (auto simp: release_def goto_def cur_def split: if_splits option.splits)
  qed
qed (use assms(3) in \<open>auto simp: release_def\<close>)

lemma data_inv_wake: "data_inv s \<Longrightarrow> lock_inv s \<Longrightarrow> data_inv (wake_poppers s)"
  "data_inv s \<Longrightarrow> lock_inv s \<Longrightarrow> data_inv (wake_pushers s)"
  by (auto elim!: data_inv_frame simp: cur_wake) (auto simp: wake_poppers_def wake_pushers_def)

lemma data_inv_enqueue:
  assumes "data_inv s" "lock_inv s" "enqueue_step t (pcs s t) s = Some s'"
  shows "data_inv s'"
proof -
  note cur = cur_holder [OF assms(2), of t] lock_owner [OF assms(2), of Size_lock t]
  obtain xs where xs: "pushed s = popped s @ xs" "queue_phase (cur s) (queue s) xs" and ok: "\<not> crashed s"
    using assms(1) by (auto simp: data_inv_def)
  show ?thesis
  proof (cases "pcs s t")
    case (Enq_count e)
    with xs ok cur assms show ?thesis by (auto simp: enqueue_step_def update_def data_inv_def cur_goto)
  next
    case (Enq_store e)
    with cur xs phase_store [of e "queue s" xs] obtain q' where
      "pcq_store e (queue s) = Ok q'" "queue_phase Enq_advance q' (xs @ [e])" by auto
    with Enq_store xs ok cur assms(3) show ?thesis
      by (auto simp: enqueue_step_def update_def data_inv_def cur_goto simp del: queue_phase.simps)
  next
    case Enq_advance
    with cur xs phase_advance_head [of "queue s" xs] obtain q' where
      "pcq_advance_head (queue s) = Ok q'" "pcq_wf q' xs" by auto
    with Enq_advance xs ok cur assms(3) show ?thesis
      by (auto simp: enqueue_step_def update_def data_inv_def cur_goto)
  next
    case Enq_broadcast
    with assms show ?thesis
      by (auto simp: enqueue_step_def pcs_wake intro!: data_inv_goto data_inv_wake lock_inv_wake)
  qed (use assms in \<open>auto simp: enqueue_step_def phase_test intro!: data_inv_goto le_boolI le_funI ext
      elim!: data_inv_acquire [rotated 2] data_inv_release [rotated 2] split: if_splits\<close>)
qed

lemma data_inv_dequeue:
  assumes "data_inv s" "lock_inv s" "dequeue_step t (pcs s t) s = Some s'"
  shows "data_inv s'"
proof -
  note cur = cur_holder [OF assms(2), of t] lock_owner [OF assms(2), of Size_lock t]
  obtain xs where xs: "pushed s = popped s @ xs" "queue_phase (cur s) (queue s) xs" and ok: "\<not> crashed s"
    using assms(1) by (auto simp: data_inv_def)
  show ?thesis
  proof (cases "pcs s t")
    case Deq_count
    with xs ok cur assms show ?thesis by (auto simp: dequeue_step_def update_def data_inv_def cur_goto)
  next
    case Deq_fetch
    with cur xs phase_fetch [of "queue s" xs] obtain e ys where
      "pcq_fetch (queue s) = Ok e" "xs = e # ys" "queue_phase (Deq_advance e) (queue s) ys" by auto
    with Deq_fetch xs ok cur assms(3) show ?thesis
      by (auto simp: dequeue_step_def data_inv_def cur_goto simp del: queue_phase.simps)
  next
    case (Deq_advance e)
    with cur xs phase_advance_tail [of e "queue s" xs] obtain q' where
      "pcq_advance_tail (queue s) = Ok q'" "pcq_wf q' xs" by auto
    with Deq_advance xs ok cur assms(3) show ?thesis
      by (auto simp: dequeue_step_def update_def data_inv_def cur_goto)
  next
    case Deq_broadcast
    with assms show ?thesis
      by (auto simp: dequeue_step_def pcs_wake intro!: data_inv_goto data_inv_wake lock_inv_wake)
  qed (use assms in \<open>auto simp: dequeue_step_def phase_test intro!: data_inv_goto le_boolI le_funI ext
      elim!: data_inv_acquire [rotated 2] data_inv_release [rotated 2] split: if_splits\<close>)
qed

definition pcq_inv :: "'a pcq_sys \<Rightarrow> bool" where
  "pcq_inv s \<longleftrightarrow> lock_inv s \<and> data_inv s"

lemma pcq_inv_call: "pcq_inv s \<Longrightarrow> holds (pcs s t) = {} \<Longrightarrow> holds p = {} \<Longrightarrow> pcq_inv (goto t p s)"
  by (auto simp: pcq_inv_def intro!: lock_inv_goto data_inv_goto)

lemma pcq_inv_next: "pcq_inv s \<Longrightarrow> pcq_next t s = Some s' \<Longrightarrow> pcq_inv s'"
  unfolding pcq_next_def pcq_inv_def
  by (cases "enqueue_step t (pcs s t) s")
    (auto intro: lock_inv_enqueue lock_inv_dequeue data_inv_enqueue data_inv_dequeue)

lemma pcq_inv_step: "pcq_inv s \<Longrightarrow> pcq_step s s' \<Longrightarrow> pcq_inv s'"
  by (erule pcq_stepE) (auto intro: pcq_inv_next intro!: pcq_inv_call)

interpretation pcq_threads: stepping pcq_init pcq_step pcq_inv
proof
  show "pcq_inv s" if "pcq_init s" for s :: "'a pcq_sys"
    using that by (auto simp: pcq_init_def pcq_inv_def lock_inv_def data_inv_def cur_def)
qed (rule pcq_inv_step)

section \<open>Runs of the threads\<close>

text \<open>A schedule names the thread that moves next.\<close>

fun run_schedule :: "nat list \<Rightarrow> 'a pcq_sys \<Rightarrow> 'a pcq_sys option" where
  "run_schedule [] s = Some s"
| "run_schedule (t # ts) s = (case pcq_next t s of None \<Rightarrow> None | Some s' \<Rightarrow> run_schedule ts s')"

lemma run_schedule_steps: "run_schedule ts s = Some s' \<Longrightarrow> pcq_step\<^sup>*\<^sup>* s s'"
proof (induction ts arbitrary: s)
  case (Cons t ts)
  then obtain s1 where "pcq_next t s = Some s1" "run_schedule ts s1 = Some s'" by (auto split: option.splits)
  with Cons.IH [of s1] pcq_step.move [of t s s1] show ?case by (meson converse_rtranclp_into_rtranclp)
qed simp

lemmas next_defs = pcq_next_def enqueue_step_def dequeue_step_def acquire_def release_def goto_def update_def

lemma phase_bound: "queue_phase p q xs \<Longrightarrow> length xs \<le> unat (pcq_capacity q)"
  by (cases p) (auto dest: pcq_wf_lengths(4) simp: pcq_count_up_def pcq_count_down_def pcq_store_def bindR_eq_Ok)

text \<open>The thread that holds the size lock is never blocked.\<close>

lemma size_holder_moves:
  assumes "lock_inv s" "Size_lock \<in> holds (pcs s t)"
  shows "pcq_next t s \<noteq> None"
proof -
  have inner: "owner s m = None" if "m \<notin> holds (pcs s t)" "m \<in> {Head_lock, Tail_lock}" for m
  proof (rule ccontr)
    assume "owner s m \<noteq> None"
    then obtain u where u: "m \<in> holds (pcs s u)" using assms(1) lock_owner by fastforce
    then have "Size_lock \<in> holds (pcs s u)" using that(2) by (cases "pcs s u") auto
    with assms have "u = t" using lock_unique by blast
    with u that(1) show False by simp
  qed
  show ?thesis
    using assms(2) inner [of Head_lock] inner [of Tail_lock]
    by (cases "pcs s t") (auto simp: next_defs split: result.splits)
qed

text \<open>The thread that holds an outer lock is blocked by nobody but the holder of the size lock.\<close>

lemma outer_holder_moves:
  assumes "lock_inv s" "holds (pcs s t) \<noteq> {}"
  obtains u where "pcq_next u s \<noteq> None"
proof (cases "owner s Size_lock")
  case None
  then have "Size_lock \<notin> holds (pcs s t)" using lock_owner [OF assms(1), of Size_lock t] by auto
  with assms(2) None have "pcq_next t s \<noteq> None" by (cases "pcs s t") (auto simp: next_defs)
  then show thesis by (rule that)
next
  case (Some u)
  then show thesis using size_holder_moves [OF assms(1), of u] that assms(1) lock_owner by metis
qed

fun busy :: "'a pc \<Rightarrow> bool" where
  "busy Idle = False"
| "busy (Enq_waiting e) = False"
| "busy Deq_waiting = False"
| "busy p = True"

lemma busy_moves:
  assumes "lock_inv s" "busy (pcs s t)"
  obtains u where "pcq_next u s \<noteq> None"
proof (cases "pcq_next t s = None")
  case True
  then obtain m u where "owner s m = Some u"
    using assms(2) by (cases "pcs s t") (auto simp: next_defs split: if_splits result.splits)
  then have "holds (pcs s u) \<noteq> {}" using assms(1) lock_owner by fastforce
  then show thesis using outer_holder_moves [OF assms(1)] that by blast
qed (rule that)

text \<open>A thread that is not disturbed runs its call to the end, with the effect of the whole call.\<close>

lemma run_schedule_Cons: "pcq_next t s = Some s1 \<Longrightarrow> run_schedule (t # ts) s = run_schedule ts s1"
  by simp

lemma enqueue_alone:
  assumes "owner s = Map.empty" "pcs s t = Enq_lock_pusher e" "pcq_enqueue e (queue s) = Some (Ok (0, q))"
  shows "run_schedule (replicate 11 t) s =
    Some (goto t Idle (wake_poppers (goto t Enq_broadcast (s\<lparr>queue := q, pushed := pushed s @ [e]\<rparr>))))"
proof -
  from assms(3) obtain q1 where q: "\<not> pcq_full (queue s)" "pcq_store e (pcq_count_up (queue s)) = Ok q1"
    "pcq_advance_head q1 = Ok q" by (auto simp: enqueue_dequeue_Ok split: if_splits)
  have "replicate 11 t = [t, t, t, t, t, t, t, t, t, t, t]" by (simp add: eval_nat_numeral)
  with assms(1,2) q show ?thesis by (cases s) (simp add: next_defs)
qed

lemma dequeue_alone:
  assumes "owner s = Map.empty" "pcs s t = Deq_lock_popper" "pcq_dequeue (queue s) = Some (Ok (e, q))"
  shows "run_schedule (replicate 11 t) s =
    Some (goto t Idle (wake_pushers (goto t (Deq_broadcast e) (s\<lparr>queue := q, popped := popped s @ [e]\<rparr>))))"
proof -
  from assms(3) have q: "\<not> pcq_empty (queue s)" "pcq_fetch (pcq_count_down (queue s)) = Ok e"
    "pcq_advance_tail (pcq_count_down (queue s)) = Ok q" by (auto simp: enqueue_dequeue_Ok split: if_splits)
  have "replicate 11 t = [t, t, t, t, t, t, t, t, t, t, t]" by (simp add: eval_nat_numeral)
  with assms(1,2) q show ?thesis by (cases s) (simp add: next_defs)
qed

text \<open>A small system: one slot, or two, and no thread inside a call.\<close>

definition demo_sys :: "'a list \<Rightarrow> 'a pcq_sys" where
  "demo_sys b =
     \<lparr>queue = \<lparr>pcq_buffer = b, pcq_capacity = of_nat (length b), pcq_current_size = 0, pcq_head = 0, pcq_tail = 0\<rparr>,
      owner = Map.empty, pcs = (\<lambda>_. Idle), pushed = [], popped = [], crashed = False\<rparr>"

lemma demo_sys_init: "b \<noteq> [] \<Longrightarrow> length b < 2 ^ 61 \<Longrightarrow> pcq_init (demo_sys b)"
  by (auto simp: demo_sys_def pcq_init_def pcq_wf_def ring_def unat_of_nat)

lemma demo_call: "pcq_step (demo_sys b) (goto t (Enq_lock_pusher e) (demo_sys b))"
  by (rule pcq_step.call_enqueue) (simp add: demo_sys_def)

lemma demo_enqueue:
  "\<exists>q. pcq_enqueue 7 (queue (goto 0 p (demo_sys [0, 0 :: int]))) = Some (Ok (0, q)) \<and> pcq_elems q = [7]"
  by (simp add: demo_sys_def pcq_enqueue_def pcq_full_def pcq_store_def pcq_count_up_def pcq_advance_head_def
      pcq_elems_def)

lemma demo_alone:
  "\<exists>s. run_schedule (replicate 11 0) (goto 0 (Enq_lock_pusher 7) (demo_sys [0, 0 :: int])) = Some s \<and>
     owner s = Map.empty"
proof -
  obtain q where "pcq_enqueue 7 (queue (goto 0 (Enq_lock_pusher 7) (demo_sys [0, 0 :: int]))) = Some (Ok (0, q))"
    using demo_enqueue by blast
  from enqueue_alone [OF _ _ this] show ?thesis by (simp add: demo_sys_def goto_def wake_poppers_def)
qed

section \<open>Properties\<close>

text \<open>
  C31: Whatever the threads do, in every reachable state no access left the buffer, two threads never
  hold the same lock, and the values taken out are exactly a prefix of the values put in, in the
  same order, with at most the capacity still inside; outside the critical section what is still
  inside is what the ring holds.
\<close>

theorem pcq_threads_fifo:
  assumes "pcq_init s0" "pcq_step\<^sup>*\<^sup>* s0 s"
  shows "\<not> crashed s \<and> (\<forall>m t u. m \<in> holds (pcs s t) \<and> m \<in> holds (pcs s u) \<longrightarrow> t = u) \<and>
    (\<exists>xs. pushed s = popped s @ xs \<and> length xs \<le> unat (pcq_capacity (queue s)) \<and>
       (owner s Size_lock = None \<longrightarrow> xs = pcq_elems (queue s)))"
proof -
  have inv: "lock_inv s" "data_inv s" using pcq_threads.reachable_good [OF assms(2,1)] by (auto simp: pcq_inv_def)
  from inv(2) obtain xs where xs: "\<not> crashed s" "pushed s = popped s @ xs" "queue_phase (cur s) (queue s) xs"
    by (auto simp: data_inv_def)
  have "xs = pcq_elems (queue s)" if "owner s Size_lock = None"
    using xs(3) that by (intro pcq_wf_elems) (simp add: cur_def)
  with xs inv(1) phase_bound lock_unique show ?thesis by metis
qed

theorem pcq_threads_fifo_witness:
  "\<exists>s. run_schedule (replicate 11 0) (goto 0 (Enq_lock_pusher 7) (demo_sys [0, 0 :: int])) = Some s \<and>
     pushed s = popped s @ pcq_elems (queue s)"
proof -
  let ?s0 = "demo_sys [0, 0 :: int]" and ?c = "goto 0 (Enq_lock_pusher 7) (demo_sys [0, 0 :: int])"
  obtain s where s: "run_schedule (replicate 11 0) ?c = Some s" "owner s = Map.empty" using demo_alone by blast
  have "pcq_step\<^sup>*\<^sup>* ?s0 s"
    using run_schedule_steps [OF s(1)] demo_call by (meson converse_rtranclp_into_rtranclp)
  from pcq_threads_fifo [OF demo_sys_init this] s show ?thesis by auto
qed

text \<open>
  C32: The locks never block the threads against each other: in every reachable state in which some
  thread is inside one of the two calls and not asleep on a condition variable, some thread can move.
\<close>

theorem pcq_threads_progress:
  assumes "pcq_init s0" "pcq_step\<^sup>*\<^sup>* s0 s" "busy (pcs s t)"
  shows "\<exists>u s'. pcq_next u s = Some s'"
  using pcq_threads.reachable_good [OF assms(2,1)] busy_moves [of s t] assms(3)
  by (metis not_Some_eq pcq_inv_def)

theorem pcq_threads_progress_witness:
  "\<exists>u s'. pcq_next u (goto 0 (Enq_lock_pusher 7) (demo_sys [0, 0 :: int])) = Some s'"
proof -
  have "pcq_step\<^sup>*\<^sup>* (demo_sys [0, 0 :: int]) (goto 0 (Enq_lock_pusher 7) (demo_sys [0, 0]))"
    using demo_call by (rule r_into_rtranclp)
  from pcq_threads_progress [OF demo_sys_init this, of 0] show ?thesis by (simp add: goto_def)
qed

text \<open>
  C33: A waiting consumer can miss the broadcast that announces an element: the consumer found the
  queue empty and released the size lock, the producer stored its element and broadcast before the
  consumer slept. In the state reached the queue holds the element, the only consumer sleeps, and
  no thread can move.
\<close>

theorem pcq_lost_wakeup:
  "\<exists>s0 s. pcq_init s0 \<and> pcq_step\<^sup>*\<^sup>* s0 s \<and> pcq_elems (queue s) = [7 :: int] \<and> popped s = [] \<and>
     pcs s = (\<lambda>_. Idle)(1 := Deq_waiting) \<and> (\<forall>t. pcq_next t s = None)"
proof -
  let ?s0 = "demo_sys [0 :: int]" and ?c = "goto 2 (Enq_lock_pusher 7)" and ?d = "goto 1 Deq_lock_popper"
  let ?ts = "[1, 1, 1, 1, 2, 2, 2, 2, 2, 2, 2, 2, 2, 2, 2, 1]"
  have "pcq_step ?s0 (?d ?s0)" by (rule pcq_step.call_dequeue) (simp add: demo_sys_def)
  moreover have "pcq_step (?d ?s0) (?c (?d ?s0))" by (rule pcq_step.call_enqueue) (simp add: demo_sys_def goto_def)
  moreover obtain s where s: "run_schedule ?ts (?c (?d ?s0)) = Some s" "pcq_elems (queue s) = [7]" "popped s = []"
     "pcs s = (\<lambda>_. Idle)(1 := Deq_waiting)"
    by (simp add: next_defs demo_sys_def pcq_empty_def pcq_full_def pcq_count_up_def pcq_store_def pcq_advance_head_def
        wake_poppers_def pcq_elems_def fun_eq_iff)
  ultimately have "pcq_step\<^sup>*\<^sup>* ?s0 s"
    using run_schedule_steps [OF s(1)] by (meson converse_rtranclp_into_rtranclp)
  moreover have "pcq_next t s = None" for t using s(4) by (simp add: pcq_next_def enqueue_step_def dequeue_step_def)
  ultimately show ?thesis using s demo_sys_init [of "[0]"] by auto
qed

text \<open>
  An undisturbed thread finishes: with the locks free and an element or a slot there, eleven
  steps of the thread complete its call, with exactly the effect of \<open>pcq_enqueue\<close> or
  \<open>pcq_dequeue\<close> on the queue, all locks released and every waiting partner woken.
\<close>

theorem pcq_alone_finishes:
  assumes "owner s = Map.empty"
  shows "(pcs s t = Enq_lock_pusher e \<and> pcq_enqueue e (queue s) = Some (Ok (0, q)) \<longrightarrow>
      (\<exists>s'. run_schedule (replicate 11 t) s = Some s' \<and> queue s' = q \<and> pcs s' t = Idle \<and>
         owner s' = Map.empty \<and> (\<forall>u. pcs s' u \<noteq> Deq_waiting))) \<and>
    (pcs s t = Deq_lock_popper \<and> pcq_dequeue (queue s) = Some (Ok (e, q)) \<longrightarrow>
      (\<exists>s'. run_schedule (replicate 11 t) s = Some s' \<and> queue s' = q \<and> pcs s' t = Idle \<and>
         owner s' = Map.empty \<and> popped s' = popped s @ [e] \<and> (\<forall>u e. pcs s' u \<noteq> Enq_waiting e)))"
proof -
  have "pcs (goto t Idle (wake_poppers (goto t Enq_broadcast r))) u \<noteq> Deq_waiting" for u and r :: "'a pcq_sys"
    by (auto simp: goto_def wake_poppers_def split: pc.splits)
  moreover have "pcs (goto t Idle (wake_pushers (goto t (Deq_broadcast e) r))) u \<noteq> Enq_waiting e'"
    for u e' and r :: "'a pcq_sys"
    by (auto simp: goto_def wake_pushers_def split: pc.splits)
  ultimately show ?thesis
    using assms enqueue_alone [of s t e q] dequeue_alone [of s t e q]
    by (auto simp: wake_poppers_def wake_pushers_def) (auto simp: goto_def)
qed

theorem pcq_alone_finishes_witness:
  "\<exists>s. run_schedule (replicate 11 0) (goto 0 (Enq_lock_pusher 7) (demo_sys [0, 0 :: int])) = Some s \<and>
     pcq_elems (queue s) = [7] \<and> pcs s 0 = Idle"
proof -
  let ?s = "goto 0 (Enq_lock_pusher 7) (demo_sys [0, 0 :: int])"
  obtain q where q: "pcq_enqueue 7 (queue ?s) = Some (Ok (0, q))" "pcq_elems q = [7]" using demo_enqueue by blast
  have "owner ?s = Map.empty" "pcs ?s 0 = Enq_lock_pusher 7" by (simp_all add: demo_sys_def goto_def)
  with q show ?thesis using pcq_alone_finishes [of ?s 0 7 q] by auto
qed

end
