(* ===== verification/Protocol.thy ===== *)
theory Protocol
  imports Interfaces
begin

text \<open>
  The requests and responses that clients and broker exchange over named pipes
  (\<open>protocol/requests.c\<close>, \<open>protocol/response.c\<close> and their headers): packed structures as
  records, the bytes they have on the wire, and the functions that fill and send them. The pipes
  belong to the operating system: what \<open>write\<close> and \<open>mkfifo\<close> do is a parameter.
\<close>

section \<open>Constants\<close>

abbreviation PIPE_PATHNAME_LENGTH :: nat where "PIPE_PATHNAME_LENGTH \<equiv> 256"
abbreviation BOX_NAME_LENGTH :: nat where "BOX_NAME_LENGTH \<equiv> 32"
abbreviation MESSAGE_LENGTH :: nat where "MESSAGE_LENGTH \<equiv> 1024"
abbreviation ERR_MESSAGE_LENGTH :: nat where "ERR_MESSAGE_LENGTH \<equiv> 1024"

definition PUB_REGISTER_OP :: byte where "PUB_REGISTER_OP = 1"
definition SUB_REGISTER_OP :: byte where "SUB_REGISTER_OP = 2"
definition CREATE_BOX_OP :: byte where "CREATE_BOX_OP = 3"
definition DELETE_BOX_OP :: byte where "DELETE_BOX_OP = 5"
definition LIST_BOX_OP :: byte where "LIST_BOX_OP = 7"
definition LIST_MANAGER_OP :: byte where "LIST_MANAGER_OP = 8"
definition PUBLISH_OP_CODE :: byte where "PUBLISH_OP_CODE = 9"
definition SUBSCRIBER_OP_CODE :: byte where "SUBSCRIBER_OP_CODE = 10"

lemmas op_codes = PUB_REGISTER_OP_def SUB_REGISTER_OP_def CREATE_BOX_OP_def DELETE_BOX_OP_def LIST_BOX_OP_def
  LIST_MANAGER_OP_def PUBLISH_OP_CODE_def SUBSCRIBER_OP_CODE_def

section \<open>System calls\<close>

text \<open>What a system call returns: a count, or -1 with \<open>errno\<close> set.\<close>

datatype syscall = Count nat | Failed int

definition EPIPE :: int where "EPIPE = 32"
definition EEXIST :: int where "EEXIST = 17"

text \<open>\<open>strcpy\<close> into an array: more bytes than the array has are undefined behaviour.\<close>

definition strcpy :: "byte list \<Rightarrow> cstring \<Rightarrow> byte list result" where
  "strcpy dst src = mem_write dst 0 (src @ [0])"

section \<open>Requests\<close>

record registration_request_t =
  reg_op_code :: byte
  reg_pipe_name :: "byte list"
  reg_box_name :: "byte list"

record publisher_request_t =
  pub_op_code :: byte
  pub_message :: "byte list"

definition registration_request_init ::
  "byte \<Rightarrow> cstring \<Rightarrow> cstring option \<Rightarrow> (int \<times> registration_request_t) result" where
  "registration_request_init op_code pipe_name box_name =
     bindR (strcpy (replicate PIPE_PATHNAME_LENGTH 0) pipe_name) (\<lambda>p.
     bindR (case box_name of
              None \<Rightarrow> Ok (replicate BOX_NAME_LENGTH 0)
            | Some b \<Rightarrow> bindR (strcpy (replicate BOX_NAME_LENGTH 0) b) (\<lambda>x. arr_set x (BOX_NAME_LENGTH - 1) 0)) (\<lambda>b.
     bindR (arr_set p (PIPE_PATHNAME_LENGTH - 1) 0) (\<lambda>p.
     Ok (0, \<lparr>reg_op_code = op_code, reg_pipe_name = p, reg_box_name = b\<rparr>))))"

text \<open>The bytes of the packed structure and back; \<open>sizeof\<close> is their number.\<close>

abbreviation sizeof_registration :: nat where "sizeof_registration \<equiv> 289"

definition registration_bytes :: "registration_request_t \<Rightarrow> byte list" where
  "registration_bytes req = reg_op_code req # reg_pipe_name req @ reg_box_name req"

definition registration_of :: "byte list \<Rightarrow> registration_request_t" where
  "registration_of bs =
     \<lparr>reg_op_code = hd bs, reg_pipe_name = read_at 1 PIPE_PATHNAME_LENGTH bs,
      reg_box_name = read_at (1 + PIPE_PATHNAME_LENGTH) BOX_NAME_LENGTH bs\<rparr>"

definition registration_wf :: "registration_request_t \<Rightarrow> bool" where
  "registration_wf req \<longleftrightarrow>
     length (reg_pipe_name req) = PIPE_PATHNAME_LENGTH \<and> length (reg_box_name req) = BOX_NAME_LENGTH"

definition registration_request_send :: "(byte list \<Rightarrow> syscall) \<Rightarrow> registration_request_t \<Rightarrow> int" where
  "registration_request_send write req =
     (case write (registration_bytes req) of
        Failed _ \<Rightarrow> -1
      | Count n \<Rightarrow> if n \<noteq> sizeof_registration then -2 else 0)"

definition registration_request_mkfifo :: "(cstring \<Rightarrow> syscall) \<Rightarrow> registration_request_t \<Rightarrow> int result" where
  "registration_request_mkfifo mkfifo req =
     bindR (string_at (reg_pipe_name req) 0) (\<lambda>p.
     Ok (case mkfifo p of Failed errno \<Rightarrow> if errno \<noteq> EEXIST then -1 else 0 | Count _ \<Rightarrow> 0))"

text \<open>\<open>publisher_request_init\<close> does not clear the structure: old bytes stay behind the message.\<close>

definition publisher_request_init :: "publisher_request_t \<Rightarrow> cstring \<Rightarrow> (int \<times> publisher_request_t) result" where
  "publisher_request_init req message =
     bindR (strcpy (pub_message req) message) (\<lambda>m.
     Ok (0, \<lparr>pub_op_code = PUBLISH_OP_CODE, pub_message = m\<rparr>))"

abbreviation sizeof_publisher :: nat where "sizeof_publisher \<equiv> 1025"

definition publisher_bytes :: "publisher_request_t \<Rightarrow> byte list" where
  "publisher_bytes req = pub_op_code req # pub_message req"

definition publisher_of :: "byte list \<Rightarrow> publisher_request_t" where
  "publisher_of bs = \<lparr>pub_op_code = hd bs, pub_message = read_at 1 MESSAGE_LENGTH bs\<rparr>"

definition publisher_wf :: "publisher_request_t \<Rightarrow> bool" where
  "publisher_wf req \<longleftrightarrow> length (pub_message req) = MESSAGE_LENGTH"

definition publisher_request_send :: "(byte list \<Rightarrow> syscall) \<Rightarrow> publisher_request_t \<Rightarrow> int" where
  "publisher_request_send write req =
     (case write (publisher_bytes req) of
        Failed errno \<Rightarrow> if errno = EPIPE then -1 else -2
      | Count n \<Rightarrow> if n \<noteq> sizeof_publisher then -3 else 0)"

section \<open>Responses\<close>

record manager_response_t =
  man_op_code :: byte
  man_ret_code :: int
  man_error_message :: "byte list"

record list_manager_response_t =
  list_op_code :: byte
  list_last_flag :: byte
  list_box_name :: "byte list"
  list_box_size :: "64 word"
  list_n_publishers :: "64 word"
  list_n_subscribers :: "64 word"

definition subscriber_response_init :: "cstring \<Rightarrow> (int \<times> publisher_request_t) result" where
  "subscriber_response_init message =
     bindR (strcpy (replicate MESSAGE_LENGTH 0) message) (\<lambda>m.
     Ok (0, \<lparr>pub_op_code = SUBSCRIBER_OP_CODE, pub_message = m\<rparr>))"

definition subscriber_response_send :: "(byte list \<Rightarrow> syscall) \<Rightarrow> publisher_request_t \<Rightarrow> int" where
  "subscriber_response_send write resp = publisher_request_send write resp"

definition manager_response_init ::
  "byte \<Rightarrow> int \<Rightarrow> cstring option \<Rightarrow> (int \<times> manager_response_t) result" where
  "manager_response_init op_code ret_code message =
     bindR (case message of
              None \<Rightarrow> Ok (replicate ERR_MESSAGE_LENGTH 0)
            | Some msg \<Rightarrow> strcpy (replicate ERR_MESSAGE_LENGTH 0) msg) (\<lambda>m.
     Ok (0, \<lparr>man_op_code = op_code, man_ret_code = ret_code, man_error_message = m\<rparr>))"

definition manager_response_set_error_msg :: "manager_response_t \<Rightarrow> cstring \<Rightarrow> (int \<times> manager_response_t) result" where
  "manager_response_set_error_msg resp msg =
     bindR (strcpy (man_error_message resp) msg) (\<lambda>m. Ok (0, resp\<lparr>man_error_message := m\<rparr>))"

abbreviation sizeof_manager :: nat where "sizeof_manager \<equiv> 1029"

definition manager_bytes :: "manager_response_t \<Rightarrow> byte list" where
  "manager_bytes r = man_op_code r # enc32 (man_ret_code r) @ man_error_message r"

definition manager_of :: "byte list \<Rightarrow> manager_response_t" where
  "manager_of bs =
     \<lparr>man_op_code = hd bs, man_ret_code = dec32 (read_at 1 4 bs), man_error_message = read_at 5 ERR_MESSAGE_LENGTH bs\<rparr>"

definition manager_wf :: "manager_response_t \<Rightarrow> bool" where
  "manager_wf r \<longleftrightarrow> int32_range (man_ret_code r) \<and> length (man_error_message r) = ERR_MESSAGE_LENGTH"

text \<open>A failing \<open>write\<close> is reported only if the pipe was closed.\<close>

definition manager_response_send :: "(byte list \<Rightarrow> syscall) \<Rightarrow> manager_response_t \<Rightarrow> int" where
  "manager_response_send write resp =
     (case write (manager_bytes resp) of
        Failed errno \<Rightarrow> if errno = EPIPE then -1 else 0
      | Count n \<Rightarrow> if n \<noteq> sizeof_manager then -2 else 0)"

definition list_manager_response_init ::
  "byte \<Rightarrow> cstring option \<Rightarrow> 64 word \<Rightarrow> 64 word \<Rightarrow> 64 word \<Rightarrow> (int \<times> list_manager_response_t) result" where
  "list_manager_response_init last_flag box_name box_size n_publishers n_subscribers =
     bindR (case box_name of
              None \<Rightarrow> Ok (replicate BOX_NAME_LENGTH 0)
            | Some b \<Rightarrow> strcpy (replicate BOX_NAME_LENGTH 0) b) (\<lambda>nm.
     Ok (0, \<lparr>list_op_code = LIST_MANAGER_OP, list_last_flag = last_flag, list_box_name = nm,
             list_box_size = box_size, list_n_publishers = n_publishers, list_n_subscribers = n_subscribers\<rparr>))"

text \<open>A \<open>uint64_t\<close> on the wire, least byte first.\<close>

definition enc64 :: "64 word \<Rightarrow> byte list" where
  "enc64 w = map (\<lambda>k. ucast (drop_bit (8 * k) w)) [0..<8]"

definition dec64 :: "byte list \<Rightarrow> 64 word" where
  "dec64 bs = foldr (\<lambda>b w. push_bit 8 w OR ucast b) bs 0"

abbreviation sizeof_list :: nat where "sizeof_list \<equiv> 58"

definition list_bytes :: "list_manager_response_t \<Rightarrow> byte list" where
  "list_bytes r =
     list_op_code r # list_last_flag r # list_box_name r @
     enc64 (list_box_size r) @ enc64 (list_n_publishers r) @ enc64 (list_n_subscribers r)"

definition list_of :: "byte list \<Rightarrow> list_manager_response_t" where
  "list_of bs =
     \<lparr>list_op_code = bs ! 0, list_last_flag = bs ! 1, list_box_name = read_at 2 BOX_NAME_LENGTH bs,
      list_box_size = dec64 (read_at 34 8 bs), list_n_publishers = dec64 (read_at 42 8 bs),
      list_n_subscribers = dec64 (read_at 50 8 bs)\<rparr>"

definition list_wf :: "list_manager_response_t \<Rightarrow> bool" where
  "list_wf r \<longleftrightarrow> length (list_box_name r) = BOX_NAME_LENGTH"

definition list_manager_response_send :: "(byte list \<Rightarrow> syscall) \<Rightarrow> list_manager_response_t \<Rightarrow> int" where
  "list_manager_response_send write resp =
     (case write (list_bytes resp) of
        Failed errno \<Rightarrow> if errno = EPIPE then -1 else 0
      | Count n \<Rightarrow> if n \<noteq> sizeof_list then -2 else 0)"

section \<open>Wire formats\<close>

text \<open>The reader takes one structure after the other from the bytes in the pipe.\<close>

function receive :: "nat \<Rightarrow> (byte list \<Rightarrow> 'm) \<Rightarrow> byte list \<Rightarrow> 'm list" where
  "receive n dec bs = (if n = 0 \<or> length bs < n then [] else dec (take n bs) # receive n dec (drop n bs))"
  by pat_completeness auto
termination by (relation "measure (\<lambda>(n, _, bs). length bs)") auto

declare receive.simps [simp del]

locale wire_format =
  fixes wf :: "'m \<Rightarrow> bool" and size_of :: nat and enc :: "'m \<Rightarrow> byte list" and dec :: "byte list \<Rightarrow> 'm"
  assumes size_pos: "0 < size_of"
    and enc_size: "wf m \<Longrightarrow> length (enc m) = size_of"
    and dec_enc: "wf m \<Longrightarrow> dec (enc m) = m"
begin

lemma enc_inj: "wf m \<Longrightarrow> wf m' \<Longrightarrow> enc m = enc m' \<Longrightarrow> m = m'"
  using dec_enc by metis

text \<open>Structures written one after the other are read back one after the other.\<close>

lemma receive_sent: "\<forall>m\<in>set ms. wf m \<Longrightarrow> length rest < size_of \<Longrightarrow>
    receive size_of dec (concat (map enc ms) @ rest) = ms"
proof (induction ms)
  case Nil
  then show ?case by (simp add: receive.simps)
next
  case (Cons m ms)
  then show ?case by (subst receive.simps) (simp add: enc_size dec_enc size_pos)
qed

end

interpretation registration_wire: wire_format registration_wf sizeof_registration registration_bytes registration_of
  by unfold_locales (auto simp: registration_wf_def registration_bytes_def registration_of_def read_at_def)

interpretation publisher_wire: wire_format publisher_wf sizeof_publisher publisher_bytes publisher_of
  by unfold_locales (auto simp: publisher_wf_def publisher_bytes_def publisher_of_def read_at_def)

interpretation manager_wire: wire_format manager_wf sizeof_manager manager_bytes manager_of
  by unfold_locales (auto simp: manager_wf_def manager_bytes_def manager_of_def read_at_def dec32_enc32)

lemma length_enc64 [simp]: "length (enc64 w) = 8"
  by (simp add: enc64_def)

lemma dec64_enc64: "dec64 (enc64 w) = w"
proof (rule bit_word_eqI)
  fix n
  assume "n < LENGTH(64)"
  then have "n < 8 \<or> (8 \<le> n \<and> n < 16) \<or> (16 \<le> n \<and> n < 24) \<or> (24 \<le> n \<and> n < 32) \<or>
      (32 \<le> n \<and> n < 40) \<or> (40 \<le> n \<and> n < 48) \<or> (48 \<le> n \<and> n < 56) \<or> (56 \<le> n \<and> n < 64)" by auto
  then show "bit (dec64 (enc64 w)) n = bit w n"
    by (elim disjE) (auto simp: enc64_def dec64_def upt_conv_Cons bit_or_iff bit_push_bit_iff bit_ucast_iff bit_drop_bit_eq)
qed

interpretation list_wire: wire_format list_wf sizeof_list list_bytes list_of
  by unfold_locales (auto simp: list_wf_def list_bytes_def list_of_def read_at_def dec64_enc64 nth_Cons')

end
