(* ===== verification/Box.thy ===== *)
theory Box
  imports FS2_Operations Protocol
begin

text \<open>
  The boxes of the broker (\<open>mbroker/box.c\<close>, \<open>mbroker/box.h\<close>): the table of boxes, their
  creation and removal with the files that hold their messages, and the storage of messages in
  those files. \<open>get_box\<close> of \<open>mbroker/mbroker.c\<close> is here because the box functions call it.
\<close>

section \<open>Data\<close>

datatype box_allocation_state_t = USED | NOT_USED

text \<open>
  A condition variable has no state of its own; the threads that wait on it are part of the
  sessions. \<open>box_mutex\<close> says that the mutex of the box is held.
\<close>

record box_t =
  box_name :: "byte list"
  box_n_publishers :: "64 word"
  box_n_subscribers :: "64 word"
  box_size :: size_t
  box_mutex :: bool
  box_alloc_state :: box_allocation_state_t

text \<open>
  The global variables of \<open>mbroker.c\<close> and the file system. \<open>BOX_COUNT_MAX\<close> is 1024 in
  \<open>mbroker.h\<close>; it is a field so that small brokers can be looked at.
\<close>

record broker =
  broker_fs :: fs2_state
  mbroker_boxes :: "box_t list"
  mbroker_boxes_lock :: bool
  box_count :: int
  box_count_max :: nat

definition put_box :: "nat \<Rightarrow> box_t \<Rightarrow> broker \<Rightarrow> broker result" where
  "put_box i b br = bindR (arr_set (mbroker_boxes br) i b) (\<lambda>bs. Ok (br\<lparr>mbroker_boxes := bs\<rparr>))"

text \<open>\<open>mutex_lock(&box->mutex)\<close> and \<open>mutex_unlock\<close>; \<open>Deadlock\<close> when nobody will release it.\<close>

definition box_lock :: "nat \<Rightarrow> broker \<Rightarrow> broker result" where
  "box_lock i br =
     bindR (arr_get (mbroker_boxes br) i) (\<lambda>b.
     if box_mutex b then Deadlock else put_box i (b\<lparr>box_mutex := True\<rparr>) br)"

definition box_unlock :: "nat \<Rightarrow> broker \<Rightarrow> broker result" where
  "box_unlock i br =
     bindR (arr_get (mbroker_boxes br) i) (\<lambda>b.
     if box_mutex b then put_box i (b\<lparr>box_mutex := False\<rparr>) br else Undef)"

section \<open>Finding a box\<close>

definition get_box :: "cstring \<Rightarrow> broker \<Rightarrow> nat option result" where
  "get_box name br =
     findR (\<lambda>i. bindR (arr_get (mbroker_boxes br) i) (\<lambda>b.
                if box_alloc_state b = USED then strcmp_mem (box_name b) 1 name else Ok False))
       [0..<box_count_max br]"

section \<open>Creating and deleting a box\<close>

text \<open>
  \<open>box_initialize\<close>. The array \<open>tmp\<close> is declared with \<open>strlen(name) + 1\<close> bytes, one too
  few for the slash, the name and the terminator; \<open>slack\<close> is the number of unused bytes that
  happen to follow it on the stack.
\<close>

definition box_initialize :: "nat \<Rightarrow> cstring \<Rightarrow> (int \<times> box_t) result" where
  "box_initialize slack name =
     (let tmp = replicate (length name + 1 + slack) 0 in
      bindR (mem_write tmp 0 [slash, 0]) (\<lambda>tmp.
      bindR (mem_write tmp 1 (name @ [0])) (\<lambda>tmp.
      bindR (string_at tmp 0) (\<lambda>s.
      bindR (strcpy (replicate BOX_NAME_LENGTH 0) s) (\<lambda>nm.
      Ok (0, \<lparr>box_name = nm, box_n_publishers = 0, box_n_subscribers = 0, box_size = 0,
              box_mutex = False, box_alloc_state = USED\<rparr>))))))"

definition newline :: byte where "newline = 10"

definition RESP_ERR_DUPLICATE_BOX :: cstring where
  "RESP_ERR_DUPLICATE_BOX = cstr ''Box already exists'' @ [newline]"
definition RESP_ERR_INIT_BOX :: cstring where
  "RESP_ERR_INIT_BOX = cstr ''Couldn't initialize box %s'' @ [newline]"
definition RESP_ERR_CREATE_BOX :: cstring where
  "RESP_ERR_CREATE_BOX = cstr ''Couldn't create box'' @ [newline]"
definition RESP_ERR_UNKNOWN_BOX :: cstring where
  "RESP_ERR_UNKNOWN_BOX = cstr ''Box doesn't exist'' @ [newline]"
definition RESP_ERR_DELETE_BOX :: cstring where
  "RESP_ERR_DELETE_BOX = cstr ''Couldn't delete box'' @ [newline]"

definition create_box ::
  "nat \<Rightarrow> manager_response_t \<Rightarrow> cstring \<Rightarrow> broker \<Rightarrow> (int \<times> manager_response_t \<times> broker) result" where
  "create_box slack resp name br =
     bindR (get_box name br) (\<lambda>found.
     if found \<noteq> None then
       bindR (manager_response_set_error_msg resp RESP_ERR_DUPLICATE_BOX) (\<lambda>(_, resp). Ok (-1, resp, br))
     else
      bindR (box_initialize slack name) (\<lambda>(r, new_box).
      if r \<noteq> 0 then
        bindR (manager_response_set_error_msg resp RESP_ERR_INIT_BOX) (\<lambda>(_, resp). Ok (-1, resp, br))
      else
       bindR (string_at (box_name new_box) 0) (\<lambda>path.
       bindR (tfs_open2 (Some path) TFS_O_CREAT (broker_fs br)) (\<lambda>(fd, fs).
       if fd = -1 then
         bindR (manager_response_set_error_msg resp RESP_ERR_CREATE_BOX) (\<lambda>(_, resp).
         bindR (tfs_close2 fd fs) (\<lambda>(_, fs). Ok (-1, resp, br\<lparr>broker_fs := fs\<rparr>)))
       else
        bindR (tfs_close2 fd fs) (\<lambda>(_, fs).
        let br = br\<lparr>broker_fs := fs\<rparr> in
        if mbroker_boxes_lock br then Deadlock
        else
         bindR (findR (\<lambda>i. bindR (arr_get (mbroker_boxes br) i) (\<lambda>b. Ok (box_alloc_state b = NOT_USED)))
                  [0..<box_count_max br]) (\<lambda>slot.
         case slot of
           None \<Rightarrow> Ok (0, resp, br)
         | Some i \<Rightarrow> bindR (put_box i new_box br) (\<lambda>br. Ok (0, resp, br))))))))"

text \<open>\<open>delete_box\<close>. The branch where \<open>tfs_unlink\<close> fails leaves the mutex of the box locked.\<close>

definition delete_box ::
  "manager_response_t \<Rightarrow> cstring \<Rightarrow> broker \<Rightarrow> (int \<times> manager_response_t \<times> broker) result" where
  "delete_box resp name br =
     bindR (get_box name br) (\<lambda>found.
     case found of
       None \<Rightarrow>
         bindR (manager_response_set_error_msg resp RESP_ERR_UNKNOWN_BOX) (\<lambda>(_, resp). Ok (-1, resp, br))
     | Some i \<Rightarrow>
         bindR (box_lock i br) (\<lambda>br.
         bindR (arr_get (mbroker_boxes br) i) (\<lambda>b.
         bindR (string_at (box_name b) 0) (\<lambda>path.
         bindR (tfs_unlink2 (Some path) (broker_fs br)) (\<lambda>(r, fs).
         let br = br\<lparr>broker_fs := fs\<rparr> in
         if r \<noteq> 0 then
           bindR (manager_response_set_error_msg resp RESP_ERR_DELETE_BOX) (\<lambda>(_, resp). Ok (-1, resp, br))
         else
          bindR (put_box i (b\<lparr>box_alloc_state := NOT_USED\<rparr>) br) (\<lambda>br.
          bindR (box_unlock i br) (\<lambda>br. Ok (0, resp, br))))))))"

section \<open>Messages\<close>

text \<open>
  \<open>write_message\<close>. The comparison of \<open>ret\<close> with \<open>len\<close> is made in \<open>size_t\<close>, where -1 is not a
  length. A second write that stores nothing is not noticed.
\<close>

definition write_message :: "int \<Rightarrow> cstring \<Rightarrow> fs2_state \<Rightarrow> (int \<times> fs2_state) result" where
  "write_message fd message s =
     bindR (tfs_write2 fd message (of_nat (length message)) s) (\<lambda>(ret, s).
     if ret \<noteq> int (length message) then Ok (-1, s)
     else
      bindR (tfs_write2 fd [0] 1 s) (\<lambda>(r, s).
      if r = -1 then Ok (-1, s) else Ok (ret, s)))"

text \<open>
  \<open>read_message\<close> reads byte by byte up to a NUL. \<open>room\<close> is what is left of the caller's buffer:
  storing one byte more is undefined.
\<close>

fun read_message_loop ::
  "nat \<Rightarrow> int \<Rightarrow> byte list \<Rightarrow> fs2_state \<Rightarrow> (int \<times> byte list \<times> fs2_state) result" where
  "read_message_loop 0 fd buffer s =
     bindR (tfs_read2 fd 1 s) (\<lambda>(ret, bytes, s). if ret \<noteq> 1 then Ok (-1, buffer, s) else Undef)"
| "read_message_loop (Suc room) fd buffer s =
     bindR (tfs_read2 fd 1 s) (\<lambda>(ret, bytes, s).
     if ret \<noteq> 1 then Ok (-1, buffer, s)
     else
      let buffer = buffer @ bytes in
      if last buffer \<noteq> 0 then read_message_loop room fd buffer s
      else Ok (int (length buffer), buffer, s))"

definition read_message :: "nat \<Rightarrow> int \<Rightarrow> fs2_state \<Rightarrow> (int \<times> byte list \<times> fs2_state) result" where
  "read_message room fd s = read_message_loop room fd [] s"

end
