(* ===== verification/Broker.thy ===== *)
theory Broker
  imports Box PC_Queue
begin

text \<open>
  The broker (\<open>mbroker/mbroker.c\<close>): start and end of the process, the loop that reads
  registration requests, the dispatch, and the handlers. A handler that talks to its client in a
  loop is cut at the points where it waits for the client or on the condition variable of its box;
  between two such points the functions below follow the source. The pipes belong to the operating
  system and the clients: whether \<open>open\<close> succeeds, what \<open>read\<close> delivers and what \<open>write\<close>
  returns are parameters. Messages to \<open>stderr\<close> are left out.
\<close>

section \<open>Starting and stopping\<close>

text \<open>\<open>mem\<close> is what \<open>malloc\<close> returned for the table of boxes; a null table would be dereferenced.\<close>

definition init_mbroker :: "fs2_allocs \<Rightarrow> box_t list option \<Rightarrow> broker \<Rightarrow> (int \<times> broker) result" where
  "init_mbroker al mem br =
     (let params = tfs_default_params2\<lparr>max_inode_count := of_nat (box_count_max br)\<rparr> in
      bindR (tfs_init2 (Some params) al (broker_fs br)) (\<lambda>(r, fs).
      if r \<noteq> 0 then Abort
      else
       bindR (foldR (\<lambda>i bs. bindR (arr_get bs i) (\<lambda>b.
                       arr_set bs i (b\<lparr>box_alloc_state := NOT_USED, box_mutex := False\<rparr>)))
                [0..<box_count_max br] (or_null mem)) (\<lambda>bs.
       Ok (0, br\<lparr>broker_fs := fs, mbroker_boxes := bs\<rparr>))))"

definition mbroker_destroy :: "broker \<Rightarrow> (int \<times> broker) result" where
  "mbroker_destroy br =
     bindR (foldR (\<lambda>i u. bindR (arr_get (mbroker_boxes br) i) (\<lambda>b. if box_mutex b then Abort else Ok u))
              [0..<box_count_max br] ()) (\<lambda>_.
     case tfs_destroy2 (broker_fs br) of
       (r, fs) \<Rightarrow>
         if r \<noteq> 0 then Abort
         else if mbroker_boxes_lock br then Abort
         else Ok (0, br\<lparr>broker_fs := fs, mbroker_boxes := []\<rparr>))"

section \<open>Pipes\<close>

text \<open>What \<open>read(fd, &x, sizeof(x))\<close> delivers: end of file, a whole structure, or anything else.\<close>

datatype received = End_of_file | Whole "byte list" | Partial

text \<open>
  The loop of \<open>main\<close>: each element is what one \<open>read\<close> on the registration pipe delivers and
  whether \<open>SIGINT\<close> had arrived by then. The value is the list of requests put into the queue, and
  whether the process ended.
\<close>

fun main_loop :: "(received \<times> bool) list \<Rightarrow> registration_request_t list \<times> bool" where
  "main_loop [] = ([], False)"
| "main_loop ((r, interrupt_var) # rs) =
     (case r of
        End_of_file \<Rightarrow> main_loop rs
      | Whole bs \<Rightarrow>
          if interrupt_var then ([], True)
          else (case main_loop rs of (reqs, ended) \<Rightarrow> (registration_of bs # reqs, ended))
      | Partial \<Rightarrow> if interrupt_var then ([], True) else main_loop rs)"

section \<open>Managers\<close>

text \<open>
  \<open>handle_manager\<close>. \<open>opened\<close> says whether the client's pipe could be opened and \<open>write\<close> what
  writing to it does; the response that was sent is part of the result.
\<close>

definition handle_manager ::
  "nat \<Rightarrow> bool \<Rightarrow> (byte list \<Rightarrow> syscall) \<Rightarrow> registration_request_t \<Rightarrow> broker \<Rightarrow>
     (int \<times> manager_response_t option \<times> broker) result" where
  "handle_manager slack opened write req br =
     (if \<not> opened then Ok (-1, None, br)
      else
       bindR (manager_response_init (reg_op_code req + 1) 0 None) (\<lambda>(r, resp).
       if r \<noteq> 0 then Ok (-1, None, br)
       else
        bindR
         (if reg_op_code req = CREATE_BOX_OP then
            bindR (string_at (reg_box_name req) 0) (\<lambda>name.
            bindR (create_box slack resp name br) (\<lambda>(ret, resp, br).
            Ok (resp\<lparr>man_ret_code := ret\<rparr>, if ret = 0 then br\<lparr>box_count := box_count br + 1\<rparr> else br)))
          else if reg_op_code req = DELETE_BOX_OP then
            bindR (string_at (reg_box_name req) 0) (\<lambda>name.
            bindR (delete_box resp name br) (\<lambda>(ret, resp, br).
            Ok (resp\<lparr>man_ret_code := ret\<rparr>, if ret = 0 then br\<lparr>box_count := box_count br - 1\<rparr> else br)))
          else Ok (resp, br)) (\<lambda>(resp, br).
        if manager_response_send write resp \<noteq> 0 then Ok (-1, Some resp, br)
        else Ok (0, Some resp, br))))"

text \<open>
  \<open>handle_list\<close>: the loop over the table of boxes, with the responses written so far; \<open>write\<close>
  gets the number of the response.
\<close>

fun list_loop ::
  "(nat \<Rightarrow> byte list \<Rightarrow> syscall) \<Rightarrow> broker \<Rightarrow> nat list \<Rightarrow> nat \<Rightarrow> list_manager_response_t list result" where
  "list_loop write br [] j = Ok []"
| "list_loop write br (i # is) j =
     (if int j = box_count br then Ok []
      else
       bindR (arr_get (mbroker_boxes br) i) (\<lambda>b.
       if box_alloc_state b = USED then
         bindR (string_at (box_name b) 0) (\<lambda>name.
         bindR (list_manager_response_init (if int (Suc j) = box_count br then 1 else 0) (Some name) (box_size b)
                  (box_n_publishers b) (box_n_subscribers b)) (\<lambda>(r, resp).
         if r \<noteq> 0 then Ok []
         else if list_manager_response_send (write j) resp \<noteq> 0 then Ok [resp]
         else bindR (list_loop write br is (Suc j)) (\<lambda>resps. Ok (resp # resps))))
       else list_loop write br is j))"

definition handle_list ::
  "bool \<Rightarrow> (nat \<Rightarrow> byte list \<Rightarrow> syscall) \<Rightarrow> broker \<Rightarrow> (int \<times> list_manager_response_t list) result" where
  "handle_list opened write br =
     (if \<not> opened then Ok (-1, [])
      else bindR (list_loop write br [0..<box_count_max br] 0) (\<lambda>resps. Ok (0, resps)))"

section \<open>Publishers\<close>

text \<open>A publisher session: the box, as an index of the table, and the handle of its file.\<close>

record pub_session =
  pub_box :: nat
  pub_box_fd :: int

text \<open>\<open>handle_publisher\<close> up to the loop: the session is refused with a value, or it begins.\<close>

definition publisher_begin ::
  "bool \<Rightarrow> registration_request_t \<Rightarrow> broker \<Rightarrow> ((int + pub_session) \<times> broker) result" where
  "publisher_begin opened req br =
     (if \<not> opened then Ok (Inl (-1), br)
      else
       bindR (string_at (reg_box_name req) 0) (\<lambda>name.
       bindR (get_box name br) (\<lambda>found.
       case found of
         None \<Rightarrow> Ok (Inl (-1), br)
       | Some i \<Rightarrow>
           bindR (box_lock i br) (\<lambda>br.
           bindR (arr_get (mbroker_boxes br) i) (\<lambda>b.
           if box_n_publishers b = 1 then bindR (box_unlock i br) (\<lambda>br. Ok (Inl (-1), br))
           else
            bindR (string_at (box_name b) 0) (\<lambda>path.
            bindR (tfs_open2 (Some path) TFS_O_APPEND (broker_fs br)) (\<lambda>(box_fd, fs).
            let br = br\<lparr>broker_fs := fs\<rparr> in
            if box_fd = -1 then bindR (box_unlock i br) (\<lambda>br. Ok (Inl (-1), br))
            else
             bindR (put_box i (b\<lparr>box_n_publishers := box_n_publishers b + 1\<rparr>) br) (\<lambda>br.
             bindR (box_unlock i br) (\<lambda>br.
             Ok (Inr \<lparr>pub_box = i, pub_box_fd = box_fd\<rparr>, br))))))))))"

text \<open>One round of the loop, after \<open>read\<close> has returned: whether the session goes on.\<close>

definition publisher_round :: "pub_session \<Rightarrow> received \<Rightarrow> broker \<Rightarrow> (bool \<times> broker) result" where
  "publisher_round p r br =
     (case r of
        End_of_file \<Rightarrow> Ok (False, br)
      | Partial \<Rightarrow> Ok (False, br)
      | Whole bs \<Rightarrow>
          bindR (arr_get (mbroker_boxes br) (pub_box p)) (\<lambda>b.
          if box_alloc_state b = NOT_USED then Ok (False, br)
          else
           bindR (box_lock (pub_box p) br) (\<lambda>br.
           bindR (string_at (pub_message (publisher_of bs)) 0) (\<lambda>message.
           bindR (write_message (pub_box_fd p) message (broker_fs br)) (\<lambda>(ret, fs).
           let br = br\<lparr>broker_fs := fs\<rparr> in
           if ret = -1 then bindR (box_unlock (pub_box p) br) (\<lambda>br. Ok (False, br))
           else
            bindR (arr_get (mbroker_boxes br) (pub_box p)) (\<lambda>b.
            bindR (put_box (pub_box p) (b\<lparr>box_size := box_size b + word_of_int ret + 1\<rparr>) br) (\<lambda>br.
            bindR (box_unlock (pub_box p) br) (\<lambda>br. Ok (True, br)))))))))"

text \<open>What follows the loop.\<close>

definition publisher_end :: "pub_session \<Rightarrow> broker \<Rightarrow> (int \<times> broker) result" where
  "publisher_end p br =
     bindR (box_lock (pub_box p) br) (\<lambda>br.
     bindR (arr_get (mbroker_boxes br) (pub_box p)) (\<lambda>b.
     bindR (put_box (pub_box p) (b\<lparr>box_n_publishers := box_n_publishers b - 1\<rparr>) br) (\<lambda>br.
     bindR (box_unlock (pub_box p) br) (\<lambda>br.
     bindR (tfs_close2 (pub_box_fd p) (broker_fs br)) (\<lambda>(_, fs).
     Ok (0, br\<lparr>broker_fs := fs\<rparr>))))))"

fun publisher_loop :: "pub_session \<Rightarrow> received list \<Rightarrow> broker \<Rightarrow> broker result" where
  "publisher_loop p [] br = Ok br"
| "publisher_loop p (r # rs) br =
     bindR (publisher_round p r br) (\<lambda>(go_on, br). if go_on then publisher_loop p rs br else Ok br)"

text \<open>The handler as a whole, for a client that sends \<open>rs\<close> and closes its pipe.\<close>

definition handle_publisher ::
  "bool \<Rightarrow> registration_request_t \<Rightarrow> received list \<Rightarrow> broker \<Rightarrow> (int \<times> broker) result" where
  "handle_publisher opened req rs br =
     bindR (publisher_begin opened req br) (\<lambda>(next, br).
     case next of
       Inl r \<Rightarrow> Ok (r, br)
     | Inr p \<Rightarrow> bindR (publisher_loop p rs br) (publisher_end p))"

section \<open>Subscribers\<close>

record sub_session =
  sub_box :: nat
  sub_box_fd :: int
  sub_total_read :: size_t

text \<open>\<open>handle_subscriber\<close> up to the loop.\<close>

definition subscriber_begin ::
  "bool \<Rightarrow> registration_request_t \<Rightarrow> broker \<Rightarrow> ((int + sub_session) \<times> broker) result" where
  "subscriber_begin opened req br =
     (if \<not> opened then Ok (Inl (-1), br)
      else
       bindR (string_at (reg_box_name req) 0) (\<lambda>name.
       bindR (get_box name br) (\<lambda>found.
       case found of
         None \<Rightarrow> Ok (Inl (-1), br)
       | Some i \<Rightarrow>
           bindR (box_lock i br) (\<lambda>br.
           bindR (arr_get (mbroker_boxes br) i) (\<lambda>b.
           bindR (string_at (box_name b) 0) (\<lambda>path.
           bindR (tfs_open2 (Some path) 0 (broker_fs br)) (\<lambda>(box_fd, fs).
           let br = br\<lparr>broker_fs := fs\<rparr> in
           if box_fd = -1 then bindR (box_unlock i br) (\<lambda>br. Ok (Inl (-1), br))
           else
            bindR (put_box i (b\<lparr>box_n_subscribers := box_n_subscribers b + 1\<rparr>) br) (\<lambda>br.
            bindR (box_unlock i br) (\<lambda>br.
            Ok (Inr \<lparr>sub_box = i, sub_box_fd = box_fd, sub_total_read = 0\<rparr>, br))))))))))"

text \<open>How a round of the loop ends: asleep, with a response sent, or out of the loop.\<close>

datatype sub_next =
    Asleep
  | Sent publisher_request_t sub_session
  | Left "publisher_request_t option"

text \<open>
  The rest of a round once the mutex of the box is held: it is held at the end only when the loop
  is left.
\<close>

definition subscriber_deliver ::
  "(byte list \<Rightarrow> syscall) \<Rightarrow> sub_session \<Rightarrow> broker \<Rightarrow> (sub_next \<times> broker) result" where
  "subscriber_deliver write u br =
     bindR (read_message MESSAGE_LENGTH (sub_box_fd u) (broker_fs br)) (\<lambda>(ret, BUFF, fs).
     let br = br\<lparr>broker_fs := fs\<rparr> in
     if ret = -1 then Ok (Left None, br)
     else
      bindR (arr_get (mbroker_boxes br) (sub_box u)) (\<lambda>b.
      if box_alloc_state b = NOT_USED then Ok (Left None, br)
      else
       let u = u\<lparr>sub_total_read := sub_total_read u + word_of_int ret\<rparr> in
       bindR (string_at BUFF 0) (\<lambda>message.
       bindR (subscriber_response_init message) (\<lambda>(r, sub_resp).
       if r \<noteq> 0 then Ok (Left None, br)
       else if subscriber_response_send write sub_resp \<noteq> 0 then Ok (Left (Some sub_resp), br)
       else bindR (box_unlock (sub_box u) br) (\<lambda>br. Ok (Sent sub_resp u, br))))))"

text \<open>A round from the start, and a round after the thread was woken, where the size is not looked at again.\<close>

definition subscriber_round ::
  "(byte list \<Rightarrow> syscall) \<Rightarrow> sub_session \<Rightarrow> broker \<Rightarrow> (sub_next \<times> broker) result" where
  "subscriber_round write u br =
     bindR (box_lock (sub_box u) br) (\<lambda>br.
     bindR (arr_get (mbroker_boxes br) (sub_box u)) (\<lambda>b.
     if sub_total_read u \<ge> box_size b then bindR (box_unlock (sub_box u) br) (\<lambda>br. Ok (Asleep, br))
     else subscriber_deliver write u br))"

definition subscriber_woken ::
  "(byte list \<Rightarrow> syscall) \<Rightarrow> sub_session \<Rightarrow> broker \<Rightarrow> (sub_next \<times> broker) result" where
  "subscriber_woken write u br = bindR (box_lock (sub_box u) br) (subscriber_deliver write u)"

text \<open>What follows the loop, with the mutex held.\<close>

definition subscriber_end :: "sub_session \<Rightarrow> broker \<Rightarrow> (int \<times> broker) result" where
  "subscriber_end u br =
     bindR (arr_get (mbroker_boxes br) (sub_box u)) (\<lambda>b.
     bindR (put_box (sub_box u) (b\<lparr>box_n_subscribers := box_n_subscribers b - 1\<rparr>) br) (\<lambda>br.
     bindR (tfs_close2 (sub_box_fd u) (broker_fs br)) (\<lambda>(_, fs).
     bindR (box_unlock (sub_box u) (br\<lparr>broker_fs := fs\<rparr>)) (\<lambda>br.
     Ok (0, br)))))"

section \<open>Dispatch\<close>

datatype handler = Handle_publisher | Handle_subscriber | Handle_manager | Handle_list

definition requests_handler :: "registration_request_t \<Rightarrow> handler option" where
  "requests_handler req =
     (if reg_op_code req = 1 then Some Handle_publisher
      else if reg_op_code req = 2 then Some Handle_subscriber
      else if reg_op_code req = 3 then Some Handle_manager
      else if reg_op_code req = 5 then Some Handle_manager
      else if reg_op_code req = 7 then Some Handle_list
      else None)"

text \<open>A round of \<open>worker_thread_fn\<close>: the next request, and the handler it is given to.\<close>

definition worker_round ::
  "registration_request_t pc_queue_t \<Rightarrow>
     ((registration_request_t \<times> handler option) \<times> registration_request_t pc_queue_t) result option" where
  "worker_round q =
     map_option (\<lambda>r. bindR r (\<lambda>(req, q). Ok ((req, requests_handler req), q))) (pcq_dequeue q)"

end
