(* ===== verification/Clients.thy ===== *)
theory Clients
  imports Broker
begin

text \<open>
  The programs that talk to the broker: \<open>utils/client.c\<close>, \<open>publisher/pub.c\<close>,
  \<open>subscriber/sub.c\<close> and \<open>manager/manager.c\<close>. The operating system is a parameter: which
  pipes can be created, opened and removed, what a \<open>write\<close> returns and what the \<open>read\<close>s
  deliver. A program is a function to what it does to the outside, in order, and its exit status.
  Messages to \<open>stderr\<close> are left out, except those that answer the user, and installing a signal
  handler succeeds.
\<close>

section \<open>The surroundings of a client\<close>

record client_os =
  os_mkfifo :: "cstring \<Rightarrow> syscall"
  os_open :: "cstring \<Rightarrow> bool"
  os_write :: "byte list \<Rightarrow> syscall"
  os_unlink :: "cstring \<Rightarrow> bool"

datatype effect = Mkfifo cstring | Opened cstring | Wrote cstring "byte list" | Closed cstring | Unlinked cstring

datatype status = EXIT_SUCCESS | EXIT_FAILURE

section \<open>Connecting (\<open>utils/client.c\<close>)\<close>

text \<open>\<open>fd\<close> is the name of the pipe that is open, or \<open>None\<close> for -1.\<close>

definition exit_failure :: "cstring option \<Rightarrow> cstring \<Rightarrow> effect list" where
  "exit_failure fd pipe_name = (case fd of None \<Rightarrow> [] | Some p \<Rightarrow> [Closed p]) @ [Unlinked pipe_name]"

text \<open>The result says whether the client is connected; otherwise the process has ended with a failure.\<close>

definition connect_to_mbroker ::
  "client_os \<Rightarrow> cstring \<Rightarrow> cstring \<Rightarrow> cstring option \<Rightarrow> byte \<Rightarrow> (bool \<times> effect list) result" where
  "connect_to_mbroker env broker_pipe pipe_name box op_code =
     bindR (registration_request_init op_code pipe_name box) (\<lambda>(r, req).
     if r \<noteq> 0 then Ok (False, [])
     else
      bindR (string_at (reg_pipe_name req) 0) (\<lambda>name.
      bindR (registration_request_mkfifo (os_mkfifo env) req) (\<lambda>r.
      if r \<noteq> 0 then Ok (False, [Mkfifo name])
      else if \<not> os_open env broker_pipe then Ok (False, Mkfifo name # exit_failure None name)
      else
       let sent = [Mkfifo name, Opened broker_pipe, Wrote broker_pipe (registration_bytes req)] in
       if registration_request_send (os_write env) req \<noteq> 0 then Ok (False, sent @ exit_failure (Some broker_pipe) name)
       else if \<not> os_open env name then Ok (False, sent @ Closed broker_pipe # exit_failure None name)
       else Ok (True, sent @ [Closed broker_pipe, Opened name]))))"

text \<open>What all three programs do at their end.\<close>

definition finish :: "client_os \<Rightarrow> cstring \<Rightarrow> status \<times> effect list" where
  "finish env pipe_name =
     (if os_unlink env pipe_name then EXIT_SUCCESS else EXIT_FAILURE, [Closed pipe_name, Unlinked pipe_name])"

section \<open>The publisher (\<open>publisher/pub.c\<close>)\<close>

text \<open>\<open>fgets(buffer, n, stdin)\<close>: up to \<open>n - 1\<close> bytes, to the end of the line at most.\<close>

definition fgets :: "nat \<Rightarrow> byte list \<Rightarrow> (byte list \<times> byte list) option" where
  "fgets n input =
     (let k = min (n - 1) (Suc (length (takeWhile (\<lambda>c. c \<noteq> newline) input))) in
      if input = [] then None else Some (take k input, drop k input))"

text \<open>\<open>strcspn(buffer, "\n")\<close> and the \<open>memset\<close> leave the line as a string.\<close>

definition line_of :: "byte list \<Rightarrow> cstring" where
  "line_of buf = takeWhile (\<lambda>c. c \<noteq> newline \<and> c \<noteq> 0) buf"

text \<open>
  The loop of \<open>main\<close>: the requests written, and whether it ended by the end of the input. \<open>wr\<close>
  gets the number of the request. \<open>req\<close> is the structure on the stack, not initialised at first.
\<close>

function pub_loop ::
  "(nat \<Rightarrow> byte list \<Rightarrow> syscall) \<Rightarrow> nat \<Rightarrow> publisher_request_t \<Rightarrow> byte list \<Rightarrow> (bool \<times> byte list list) result" where
  "pub_loop wr n req input =
     (case fgets MESSAGE_LENGTH input of
        None \<Rightarrow> Ok (True, [])
      | Some (buf, rest) \<Rightarrow>
          bindR (publisher_request_init req (line_of buf)) (\<lambda>(r, req).
          if r \<noteq> 0 then Ok (False, [])
          else if publisher_request_send (wr n) req \<noteq> 0 then Ok (False, [publisher_bytes req])
          else bindR (pub_loop wr (Suc n) req rest) (\<lambda>(ended, sent). Ok (ended, publisher_bytes req # sent))))"
  by pat_completeness auto
termination
  by (relation "measure (\<lambda>(_, _, _, input). length input)") (auto simp: fgets_def Let_def split: if_splits)

declare pub_loop.simps [simp del]

definition pub_main ::
  "client_os \<Rightarrow> (nat \<Rightarrow> byte list \<Rightarrow> syscall) \<Rightarrow> cstring list \<Rightarrow> publisher_request_t \<Rightarrow> byte list \<Rightarrow>
     (status \<times> effect list) result" where
  "pub_main env wr argv req input =
     (if length argv < 4 \<or> argv ! 1 = cstr ''--help'' then Ok (EXIT_FAILURE, [])
      else
       let pipe_name = argv ! 2 in
       bindR (connect_to_mbroker env (argv ! 1) pipe_name (Some (argv ! 3)) PUB_REGISTER_OP) (\<lambda>(connected, es).
       if \<not> connected then Ok (EXIT_FAILURE, es)
       else
        bindR (pub_loop wr 0 req input) (\<lambda>(ended, sent).
        let es = es @ map (Wrote pipe_name) sent in
        if \<not> ended then Ok (EXIT_FAILURE, es @ exit_failure (Some pipe_name) pipe_name)
        else (case finish env pipe_name of (st, end_es) \<Rightarrow> Ok (st, es @ end_es)))))"

section \<open>The subscriber (\<open>subscriber/sub.c\<close>)\<close>

text \<open>How the loop ends: the pipe was closed, \<open>SIGINT\<close> arrived, a read failed, or it still runs.\<close>

datatype sub_end = Pipe_closed | Interrupted | Read_failed | Reading

text \<open>
  Each element is what one \<open>read\<close> delivers and whether \<open>SIGINT\<close> had arrived by then. The value
  has the lines printed and the number of messages, an \<open>unsigned int\<close>.
\<close>

fun sub_loop :: "uint32 \<Rightarrow> (received \<times> bool) list \<Rightarrow> (sub_end \<times> cstring list \<times> uint32) result" where
  "sub_loop nr_messages [] = Ok (Reading, [], nr_messages)"
| "sub_loop nr_messages ((r, interrupt_var) # rs) =
     (case r of
        End_of_file \<Rightarrow> Ok (Pipe_closed, [], nr_messages)
      | Partial \<Rightarrow> Ok (if interrupt_var then Interrupted else Read_failed, [], nr_messages)
      | Whole bs \<Rightarrow>
          if interrupt_var then Ok (Interrupted, [], nr_messages)
          else
           bindR (string_at (pub_message (publisher_of bs)) 0) (\<lambda>message.
           bindR (sub_loop (nr_messages + 1) rs) (\<lambda>(e, out, n). Ok (e, message # out, n))))"

definition sub_main ::
  "client_os \<Rightarrow> cstring list \<Rightarrow> (received \<times> bool) list \<Rightarrow>
     (status option \<times> cstring list \<times> uint32 option \<times> effect list) result" where
  "sub_main env argv reads =
     (if length argv < 4 \<or> argv ! 1 = cstr ''--help'' then Ok (Some EXIT_FAILURE, [], None, [])
      else
       let pipe_name = argv ! 2 in
       bindR (connect_to_mbroker env (argv ! 1) pipe_name (Some (argv ! 3)) SUB_REGISTER_OP) (\<lambda>(connected, es).
       if \<not> connected then Ok (Some EXIT_FAILURE, [], None, es)
       else
        bindR (sub_loop 0 reads) (\<lambda>(e, out, n).
        case e of
          Reading \<Rightarrow> Ok (None, out, None, es)
        | Read_failed \<Rightarrow> Ok (Some EXIT_FAILURE, out, None, es @ exit_failure (Some pipe_name) pipe_name)
        | _ \<Rightarrow> (case finish env pipe_name of (st, end_es) \<Rightarrow> Ok (Some st, out, Some n, es @ end_es)))))"

section \<open>The manager (\<open>manager/manager.c\<close>)\<close>

datatype command = Usage | Create_delete byte | List_boxes

text \<open>
  The choice \<open>main\<close> makes. \<open>argv\<close> has the name of the program first; to compare an argument
  that is not there is undefined.
\<close>

definition manager_command :: "cstring list \<Rightarrow> command result" where
  "manager_command argv =
     bindR (if length argv < 5 then bindR (arr_get argv 3) (\<lambda>a. Ok (a \<noteq> cstr ''list'')) else Ok False) (\<lambda>short.
     bindR (if short then Ok True else bindR (arr_get argv 1) (\<lambda>a. Ok (a = cstr ''--help''))) (\<lambda>usage.
     if usage then Ok Usage
     else
      bindR (arr_get argv 3) (\<lambda>a.
      Ok (if a = cstr ''create'' then Create_delete CREATE_BOX_OP
          else if a = cstr ''delete'' then Create_delete DELETE_BOX_OP
          else if a = cstr ''list'' then List_boxes
          else Usage))))"

text \<open>What the user is told.\<close>

datatype answer = OK_answer | ERR_answer cstring | NO_BOXES_FOUND | Box_line cstring size_t "64 word" "64 word"

definition create_delete_box ::
  "client_os \<Rightarrow> byte \<Rightarrow> cstring list \<Rightarrow> received \<Rightarrow> (status \<times> answer list \<times> effect list) result" where
  "create_delete_box env op_code args r =
     bindR (arr_get args 4) (\<lambda>box.
     bindR (connect_to_mbroker env (args ! 1) (args ! 2) (Some box) op_code) (\<lambda>(connected, es).
     if \<not> connected then Ok (EXIT_FAILURE, [], es)
     else
      (case r of
         Whole bs \<Rightarrow>
           let resp = manager_of bs in
           bindR (if man_ret_code resp = -1
                  then bindR (string_at (man_error_message resp) 0) (\<lambda>msg. Ok (ERR_answer msg)) else Ok OK_answer) (\<lambda>a.
           case finish env (args ! 2) of (st, end_es) \<Rightarrow> Ok (st, [a], es @ end_es))
       | _ \<Rightarrow> Ok (EXIT_FAILURE, [], es @ [Closed (args ! 2)]))))"

text \<open>\<open>strcmp\<close> as \<open>cmpstr\<close> uses it: the first difference, bytes taken as unsigned.\<close>

fun strcmp :: "cstring \<Rightarrow> cstring \<Rightarrow> int" where
  "strcmp [] [] = 0"
| "strcmp [] (y # ys) = -1"
| "strcmp (x # xs) [] = 1"
| "strcmp (x # xs) (y # ys) = (if x = y then strcmp xs ys else if x < y then -1 else 1)"

definition c_string :: "byte list \<Rightarrow> cstring" where
  "c_string bs = takeWhile (\<lambda>c. c \<noteq> 0) bs"

definition cmpstr :: "list_manager_response_t \<Rightarrow> list_manager_response_t \<Rightarrow> int" where
  "cmpstr a b = strcmp (c_string (list_box_name a)) (c_string (list_box_name b))"

text \<open>
  \<open>qsort\<close> sorts by the comparison function it is given; here by insertion. The order of elements that
  compare equal is not specified by C and does not matter for boxes, whose names differ.
\<close>

fun qsort_insert :: "('a \<Rightarrow> 'a \<Rightarrow> int) \<Rightarrow> 'a \<Rightarrow> 'a list \<Rightarrow> 'a list" where
  "qsort_insert cmp x [] = [x]"
| "qsort_insert cmp x (y # ys) = (if cmp x y \<le> 0 then x # y # ys else y # qsort_insert cmp x ys)"

fun qsort :: "('a \<Rightarrow> 'a \<Rightarrow> int) \<Rightarrow> 'a list \<Rightarrow> 'a list" where
  "qsort cmp [] = []"
| "qsort cmp (x # xs) = qsort_insert cmp x (qsort cmp xs)"

text \<open>
  The loop of \<open>list_boxes\<close>: \<open>boxes\<close> are those received so far; the array has room for \<open>BOX_COUNT_MAX\<close>.
  The first part of the value says whether \<open>NO BOXES FOUND\<close> was printed. After the reads that are
  given the pipe is closed.
\<close>

fun list_read :: "nat \<Rightarrow> list_manager_response_t list \<Rightarrow> received list \<Rightarrow> (bool \<times> list_manager_response_t list) result" where
  "list_read box_max boxes [] = Ok (True, boxes)"
| "list_read box_max boxes (r # rs) =
     (case r of
        End_of_file \<Rightarrow> Ok (True, boxes)
      | Partial \<Rightarrow> Ok (False, boxes)
      | Whole bs \<Rightarrow>
          let list_resp = list_of bs in
          if length boxes < box_max then
            if list_last_flag list_resp = 1 then Ok (False, boxes @ [list_resp])
            else list_read box_max (boxes @ [list_resp]) rs
          else Undef)"

definition box_line :: "list_manager_response_t \<Rightarrow> answer result" where
  "box_line r =
     bindR (string_at (list_box_name r) 1) (\<lambda>name.
     Ok (Box_line name (list_box_size r) (list_n_publishers r) (list_n_subscribers r)))"

fun box_lines :: "list_manager_response_t list \<Rightarrow> answer list result" where
  "box_lines [] = Ok []"
| "box_lines (r # rs) = bindR (box_line r) (\<lambda>l. bindR (box_lines rs) (\<lambda>ls. Ok (l # ls)))"

definition list_boxes ::
  "client_os \<Rightarrow> nat \<Rightarrow> cstring list \<Rightarrow> received list \<Rightarrow> (status \<times> answer list \<times> effect list) result" where
  "list_boxes env box_max args reads =
     bindR (connect_to_mbroker env (args ! 1) (args ! 2) None LIST_BOX_OP) (\<lambda>(connected, es).
     if \<not> connected then Ok (EXIT_FAILURE, [], es)
     else
      bindR (list_read box_max [] reads) (\<lambda>(none, boxes).
      bindR (box_lines (qsort cmpstr boxes)) (\<lambda>ls.
      case finish env (args ! 2) of
        (st, end_es) \<Rightarrow> Ok (st, (if none then [NO_BOXES_FOUND] else []) @ ls, es @ end_es))))"

end
