(* ===== verification/Box_Store.thy ===== *)
theory Box_Store
  imports Box FS2_Run
begin

text \<open>
  How a box keeps its messages: each call of the file system seen on the abstract file system, and
  from these what \<open>write_message\<close> and \<open>read_message\<close> do to the contents of a file.
\<close>

section \<open>The calls on the abstract file system\<close>

lemma abs_open2:
  assumes "fs2_inv s" "path_ok p"
  obtains fd s' where "tfs_open2 p mode s = Ok (fd, s')" "fs2_inv s'"
    "a_open p mode (abs_fs2 s) = (Returned fd, abs_fs2 s')"
proof -
  obtain r s' where r: "fs2_call (Open2_op p mode) s = Some (Ok (r, s'))" "fs2_inv s'"
    "fs_spec (Open_op p mode) (abs_fs2 s) = (r, abs_fs2 s')"
    using tfs2.step_spec [of s "Open2_op p mode"] assms by auto
  obtain nx u where op: "open_effect p mode (fs1_of s) = (nx, u)" by fastforce
  obtain fd where fd: "nx = Returned fd" using plain_open [OF plain_fs1_of fs2_invD(1) [OF assms(1)] op] by blast
  have ao: "a_open p mode (abs_fs2 s) = (Returned fd, abs_fs u)"
    using open_refines [OF fs2_invD(1) [OF assms(1)] assms(2), of mode] op fd by simp
  then have "a_tfs_open p mode (abs_fs2 s) = (fd, abs_fs u)"
    using plain_follow [OF assms(1), of p] by (simp add: a_tfs_open_def returned_def)
  with r(3) have "r = Code fd" "abs_fs u = abs_fs2 s'" by auto
  with r(1) ao show thesis
    by (intro that [of fd s']) (use r(2) in \<open>auto simp: code2_def bindR_eq_Ok split: prod.splits\<close>)
qed

lemma abs_close2:
  assumes "fs2_inv s"
  obtains r s' where "tfs_close2 fd s = Ok (r, s')" "fs2_inv s'" "a_close fd (abs_fs2 s) = (r, abs_fs2 s')"
  using tfs2.step_spec [of s "Close2_op fd"] assms that
  by (auto simp: code2_def bindR_eq_Ok map_prod_def split: prod.splits)

lemma abs_write2:
  assumes "fs2_inv s" "unat n \<le> length buffer" "unat n < 2 ^ 63" "a_in_file (abs_fs2 s) fd"
  obtains r s' where "tfs_write2 fd buffer n s = Ok (r, s')" "fs2_inv s'"
    "a_write fd (take (unat n) buffer) (abs_fs2 s) = (r, abs_fs2 s')"
  using tfs2.step_spec [of s "Write2_op fd buffer n"] assms that
  by (auto simp: code2_def bindR_eq_Ok map_prod_def split: prod.splits)

lemma abs_read2:
  assumes "fs2_inv s" "a_in_file (abs_fs2 s) fd"
  obtains r bytes s' where "tfs_read2 fd len s = Ok (r, bytes, s')" "fs2_inv s'"
    "a_read fd (unat len) (abs_fs2 s) = (r, bytes, abs_fs2 s')"
  using tfs2.step_spec [of s "Read2_op fd len"] assms that
  by (auto simp: bindR_eq_Ok split: prod.splits)

lemma abs_unlink2:
  assumes "fs2_inv s" "path_ok p" "\<not> a_opened (abs_fs2 s) p"
  obtains r s' where "tfs_unlink2 p s = Ok (r, s')" "fs2_inv s'" "a_unlink p (abs_fs2 s) = (r, abs_fs2 s')"
  using tfs2.step_spec [of s "Unlink2_op p"] assms that
  by (auto simp: code2_def bindR_eq_Ok map_prod_def split: prod.splits)

section \<open>Messages in a file\<close>

lemma unat_length: "length xs < 2 ^ 63 \<Longrightarrow> unat (of_nat (length xs) :: size_t) = length xs"
  by (simp add: unat_of_nat take_bit_nat_eq_self)

text \<open>The handle \<open>fd\<close> stands at offset \<open>off\<close> of the file \<open>i\<close> with contents \<open>c\<close>.\<close>

definition stands :: "afs \<Rightarrow> int \<Rightarrow> int \<Rightarrow> nat \<Rightarrow> byte list \<Rightarrow> bool" where
  "stands a fd i off c \<longleftrightarrow> a_handles a fd = Some (i, off) \<and> a_nodes a i = Some (File c) \<and> off \<le> length c"

lemma stands_in_file: "stands a fd i off c \<Longrightarrow> a_in_file a fd"
  by (simp add: stands_def a_in_file_def a_size_def)

text \<open>The effect of appending \<open>xs\<close> through \<open>fd\<close> to the file \<open>i\<close> with contents \<open>c\<close>.\<close>

definition appended :: "int \<Rightarrow> int \<Rightarrow> byte list \<Rightarrow> byte list \<Rightarrow> afs \<Rightarrow> afs" where
  "appended fd i c xs a =
     a\<lparr>a_nodes := (a_nodes a)(i \<mapsto> File (c @ xs)), a_handles := (a_handles a)(fd \<mapsto> (i, length c + length xs)),
       a_free := (if c = [] \<and> xs \<noteq> [] then a_free a - 1 else a_free a)\<rparr>"

lemma a_write_append:
  assumes "stands a fd i (length c) c" "xs \<noteq> []" "length c + length xs \<le> a_block a" "c \<noteq> [] \<or> 0 < a_free a"
  shows "a_write fd xs a = (int (length xs), appended fd i c xs a)"
proof -
  have "min (length xs) (a_block a - length c) = length xs" using assms(3) by simp
  moreover have "splice (length c) xs c = c @ xs" by (simp add: splice_def)
  ultimately show ?thesis
    using assms by (auto simp: a_write_def stands_def Let_def appended_def blocks_of_def)
qed

lemma a_write_nothing: "stands a fd i off c \<Longrightarrow> a_write fd [] a = (0, a)"
  by (simp add: a_write_def stands_def Let_def)

lemma append_twice:
  "xs \<noteq> [] \<Longrightarrow> appended fd i (c @ xs) ys (appended fd i c xs a) = appended fd i c (xs @ ys) a"
  by (simp add: appended_def add.assoc)

lemma stands_appended: "stands a fd i (length c) c \<Longrightarrow> stands (appended fd i c xs a) fd i (length (c @ xs)) (c @ xs)"
  by (simp add: stands_def appended_def)

lemma appended_nothing: "stands a fd i (length c) c \<Longrightarrow> appended fd i c [] a = a"
  by (cases a) (auto simp: stands_def appended_def fun_upd_idem)

lemma stands_write:
  assumes "stands a fd i (length c) c" "length c \<le> a_block a" "c \<noteq> [] \<or> 0 < a_free a"
  shows "a_write fd xs a =
    (int (length (take (a_block a - length c) xs)), appended fd i c (take (a_block a - length c) xs) a)"
proof (cases "take (a_block a - length c) xs = []")
  case True
  with assms(1) appended_nothing [OF assms(1)] show ?thesis by (auto simp: a_write_def stands_def)
next
  case False
  let ?k = "a_block a - length c"
  have "a_write fd xs a = a_write fd (take ?k xs) a"
    using assms by (auto simp: a_write_def stands_def Let_def min_def)
  with a_write_append [OF assms(1) False _ assms(3)] assms(2) show ?thesis by simp
qed

lemma appended_simps [simp]:
  "a_block (appended fd i c xs a) = a_block a"
  by (simp add: appended_def)

text \<open>
  \<open>write_message\<close> on every branch: the message and its terminator are cut at the end of the block, and
  the call succeeds when the message without the terminator fits.
\<close>

lemma write_message_appends:
  assumes "fs2_inv s" "stands (abs_fs2 s) fd i (length c) c" "length m < 2 ^ 63"
    "length c \<le> a_block (abs_fs2 s)" "c \<noteq> [] \<or> 0 < a_free (abs_fs2 s)"
  obtains s' where
    "write_message fd m s = Ok (if length c + length m \<le> a_block (abs_fs2 s) then int (length m) else -1, s')"
    "fs2_inv s'" "abs_fs2 s' = appended fd i c (take (a_block (abs_fs2 s) - length c) (m @ [0])) (abs_fs2 s)"
proof -
  let ?a = "abs_fs2 s" and ?n = "of_nat (length m) :: size_t"
  let ?k = "a_block ?a - length c"
  have n: "unat ?n = length m" using unat_length [OF assms(3)] .
  obtain r s1 where s1: "tfs_write2 fd m ?n s = Ok (r, s1)" "fs2_inv s1" "a_write fd m ?a = (r, abs_fs2 s1)"
    using abs_write2 [OF assms(1), of ?n m fd] n assms(3) stands_in_file [OF assms(2)] by auto
  then have r: "r = int (length (take ?k m))" "abs_fs2 s1 = appended fd i c (take ?k m) ?a"
    using stands_write [OF assms(2,4,5), of m] by auto
  show thesis
  proof (cases "length c + length m \<le> a_block ?a")
    case False
    then have "?k < length m" using assms(4) by simp
    with that [of s1] s1 r False show thesis by (simp add: write_message_def)
  next
    case True
    then have all: "take ?k m = m" using assms(4) by simp
    have st: "stands (abs_fs2 s1) fd i (length (c @ m)) (c @ m)"
      using stands_appended [OF assms(2), of m] r(2) all by simp
    obtain r2 s2 where s2: "tfs_write2 fd [0] 1 s1 = Ok (r2, s2)" "fs2_inv s2" "a_write fd [0] (abs_fs2 s1) = (r2, abs_fs2 s2)"
      using abs_write2 [OF s1(2), of 1 "[0]" fd] stands_in_file [OF st] by auto
    have fr: "c @ m \<noteq> [] \<or> 0 < a_free (abs_fs2 s1)"
      using assms(5) r(2) all by (auto simp: appended_def)
    have bl: "a_block (abs_fs2 s1) = a_block ?a" using r(2) by simp
    have w2: "r2 = int (length (take (?k - length m) [0 :: byte]))"
      "abs_fs2 s2 = appended fd i (c @ m) (take (?k - length m) [0]) (abs_fs2 s1)"
      using stands_write [OF st _ fr, of "[0]"] s2(3) bl True by (auto simp: diff_diff_eq)
    have "abs_fs2 s2 = appended fd i c (take ?k (m @ [0])) ?a"
    proof (cases "m = []")
      case True
      with w2(2) r(2) all appended_nothing [OF assms(2)] show ?thesis by simp
    next
      case False
      with w2(2) r(2) all append_twice [OF False, of fd i c "take (?k - length m) [0]" ?a] show ?thesis by simp
    qed
    with s1(1) s2 r(1) all True w2(1) that [of s2] show thesis by (simp add: write_message_def)
  qed
qed

text \<open>Without a block nothing is stored.\<close>

lemma write_message_no_block:
  assumes "fs2_inv s" "stands (abs_fs2 s) fd i 0 []" "length m < 2 ^ 63" "a_free (abs_fs2 s) = 0" "0 < a_block (abs_fs2 s)"
  obtains s' where "write_message fd m s = Ok (-1, s')" "fs2_inv s'" "abs_fs2 s' = abs_fs2 s"
proof -
  let ?a = "abs_fs2 s" and ?n = "of_nat (length m) :: size_t"
  have n: "unat ?n = length m" using unat_length [OF assms(3)] .
  have full: "a_write fd xs ?a = (if xs = [] then 0 else -1, ?a)" for xs
    using assms(2,4,5) by (simp add: a_write_def stands_def Let_def)
  obtain r s1 where s1: "tfs_write2 fd m ?n s = Ok (r, s1)" "fs2_inv s1" "a_write fd m ?a = (r, abs_fs2 s1)"
    using abs_write2 [OF assms(1), of ?n m fd] n assms(3) stands_in_file [OF assms(2)] by auto
  with full [of m] have r: "r = (if m = [] then 0 else -1)" "abs_fs2 s1 = ?a" by auto
  obtain r2 s2 where s2: "tfs_write2 fd [0] 1 s1 = Ok (r2, s2)" "fs2_inv s2" "a_write fd [0] ?a = (r2, abs_fs2 s2)"
    using abs_write2 [OF s1(2), of 1 "[0]" fd] stands_in_file [OF assms(2)] r(2) by auto
  show thesis
  proof (cases "m = []")
    case True
    with s1 s2 r full [of "[0]"] that [of s2] show thesis by (simp add: write_message_def)
  next
    case False
    with s1 r that [of s1] show thesis by (simp add: write_message_def)
  qed
qed

text \<open>The effect of moving the handle \<open>fd\<close> of the file \<open>i\<close>.\<close>

definition moved :: "int \<Rightarrow> int \<Rightarrow> nat \<Rightarrow> afs \<Rightarrow> afs" where
  "moved fd i off a = a\<lparr>a_handles := (a_handles a)(fd \<mapsto> (i, off))\<rparr>"

lemma moved_simps [simp]:
  "moved fd i off' (moved fd i off a) = moved fd i off' a"
  by (simp add: moved_def)

lemma stands_moved: "stands a fd i off c \<Longrightarrow> off' \<le> length c \<Longrightarrow> stands (moved fd i off' a) fd i off' c"
  by (simp add: stands_def moved_def)

lemma moved_same: "stands a fd i off c \<Longrightarrow> moved fd i off a = a"
  by (cases a) (auto simp: stands_def moved_def fun_upd_idem)

text \<open>One byte: the next one, or none at the end of the file.\<close>

lemma read_one:
  assumes "fs2_inv s" "stands (abs_fs2 s) fd i off c"
  obtains s' where "tfs_read2 fd 1 s = Ok (if off < length c then 1 else 0, take 1 (drop off c), s')"
    "fs2_inv s'" "abs_fs2 s' = moved fd i (min (Suc off) (length c)) (abs_fs2 s)"
proof -
  obtain r bytes s' where s': "tfs_read2 fd 1 s = Ok (r, bytes, s')" "fs2_inv s'"
    "a_read fd (unat (1 :: size_t)) (abs_fs2 s) = (r, bytes, abs_fs2 s')"
    using abs_read2 [OF assms(1) stands_in_file [OF assms(2)], of 1] by blast
  have "off + length (take 1 (drop off c)) = min (Suc off) (length c)"
    using assms(2) by (auto simp: stands_def min_def)
  then have "r = (if off < length c then 1 else 0)" "bytes = take 1 (drop off c)"
    "abs_fs2 s' = moved fd i (min (Suc off) (length c)) (abs_fs2 s)"
    using s'(3) assms(2) by (auto simp: a_read_def stands_def Let_def moved_def min_def split: if_splits)
  with s' that show thesis by blast
qed

lemma read_loop_message:
  "fs2_inv s \<Longrightarrow> stands (abs_fs2 s) fd i off c \<Longrightarrow> drop off c = m @ 0 # rest \<Longrightarrow> 0 \<notin> set m \<Longrightarrow> length m < room \<Longrightarrow>
   \<exists>s'. read_message_loop room fd buf s = Ok (int (length buf + length m + 1), buf @ m @ [0], s') \<and> fs2_inv s' \<and>
     abs_fs2 s' = moved fd i (off + length m + 1) (abs_fs2 s)"
proof (induction m arbitrary: room buf s off)
  case Nil
  then obtain n where n: "room = Suc n" by (cases room) auto
  have lt: "off < length c" using Nil(3) by (metis drop_all list.distinct(1) not_le append_Nil)
  obtain s' where "tfs_read2 fd 1 s = Ok (1, [0], s')" "fs2_inv s'" "abs_fs2 s' = moved fd i (Suc off) (abs_fs2 s)"
    using read_one [OF Nil(1,2)] Nil(3) lt by (auto simp: min_def)
  with n show ?case by simp
next
  case (Cons b m)
  then obtain n where n: "room = Suc n" by (cases room) auto
  have lt: "off < length c" using Cons.prems(3) by (metis drop_all append_Cons list.distinct(1) not_le)
  obtain s1 where s1: "tfs_read2 fd 1 s = Ok (1, [b], s1)" "fs2_inv s1" "abs_fs2 s1 = moved fd i (Suc off) (abs_fs2 s)"
    using read_one [OF Cons.prems(1,2)] Cons.prems(3) lt by (auto simp: min_def)
  have d: "drop (Suc off) c = m @ 0 # rest" using Cons.prems(3) by (metis append_Cons drop_Suc list.sel(3) tl_drop)
  have st: "stands (abs_fs2 s1) fd i (Suc off) c" using stands_moved [OF Cons.prems(2), of "Suc off"] s1(3) lt by simp
  have "0 \<notin> set m" "length m < n" "b \<noteq> 0" using Cons.prems(4,5) n by auto
  with Cons.IH [OF s1(2) st d, of n "buf @ [b]"] s1 n show ?case by auto
qed

lemma read_loop_end:
  "fs2_inv s \<Longrightarrow> stands (abs_fs2 s) fd i off c \<Longrightarrow> drop off c = m \<Longrightarrow> 0 \<notin> set m \<Longrightarrow> length m \<le> room \<Longrightarrow>
   \<exists>s'. read_message_loop room fd buf s = Ok (-1, buf @ m, s') \<and> fs2_inv s' \<and>
     abs_fs2 s' = moved fd i (length c) (abs_fs2 s)"
proof (induction m arbitrary: room buf s off)
  case Nil
  then have eq: "off = length c" by (auto simp: stands_def)
  with Nil(1,2) obtain s' where "tfs_read2 fd 1 s = Ok (0, [], s')" "fs2_inv s'" "abs_fs2 s' = moved fd i (length c) (abs_fs2 s)"
    using read_one [OF Nil(1,2)] by auto
  then show ?case by (cases room) simp_all
next
  case (Cons b m)
  then obtain n where n: "room = Suc n" by (cases room) auto
  have lt: "off < length c" using Cons.prems(3) by (metis drop_all list.distinct(1) not_le)
  obtain s1 where s1: "tfs_read2 fd 1 s = Ok (1, [b], s1)" "fs2_inv s1" "abs_fs2 s1 = moved fd i (Suc off) (abs_fs2 s)"
    using read_one [OF Cons.prems(1,2)] Cons.prems(3) lt by (auto simp: min_def)
  have d: "drop (Suc off) c = m" using Cons.prems(3) by (metis drop_Suc list.sel(3) tl_drop)
  have st: "stands (abs_fs2 s1) fd i (Suc off) c" using stands_moved [OF Cons.prems(2), of "Suc off"] s1(3) lt by simp
  have "0 \<notin> set m" "length m \<le> n" "b \<noteq> 0" using Cons.prems(4,5) n by auto
  with Cons.IH [OF s1(2) st d, of n "buf @ [b]"] s1 n show ?case by auto
qed

lemma read_message_next:
  assumes "fs2_inv s" "stands (abs_fs2 s) fd i off c" "drop off c = m @ 0 # rest" "0 \<notin> set m" "length m < room"
  obtains s' where "read_message room fd s = Ok (int (length m + 1), m @ [0], s')" "fs2_inv s'"
    "abs_fs2 s' = moved fd i (off + length m + 1) (abs_fs2 s)"
  using read_loop_message [OF assms, of "[]"] that by (auto simp: read_message_def)

lemma read_message_end:
  assumes "fs2_inv s" "stands (abs_fs2 s) fd i off c" "0 \<notin> set (drop off c)" "length (drop off c) \<le> room"
  obtains s' where "read_message room fd s = Ok (-1, drop off c, s')" "fs2_inv s'"
    "abs_fs2 s' = moved fd i (length c) (abs_fs2 s)"
  using read_loop_end [OF assms(1,2) refl assms(3,4), of "[]"] that by (auto simp: read_message_def)

end
