(* ===== verification/Box_Table.thy ===== *)
theory Box_Table
  imports Box_Store
begin

text \<open>
  The table of boxes: what \<open>get_box\<close>, \<open>create_box\<close> and \<open>delete_box\<close> do to the table and,
  on the abstract file system, to the files of the boxes. A name that can be stored has at most 30
  bytes: the table keeps it behind a slash in 32 bytes.
\<close>

section \<open>Views\<close>

abbreviation afs_of :: "broker \<Rightarrow> afs" where
  "afs_of br \<equiv> abs_fs2 (broker_fs br)"

definition used :: "broker \<Rightarrow> nat \<Rightarrow> bool" where
  "used br i \<longleftrightarrow> i < length (mbroker_boxes br) \<and> box_alloc_state (mbroker_boxes br ! i) = USED"

definition label_of :: "box_t \<Rightarrow> cstring" where
  "label_of b = takeWhile (\<lambda>c. c \<noteq> 0) (drop 1 (box_name b))"

abbreviation label_at :: "broker \<Rightarrow> nat \<Rightarrow> cstring" where
  "label_at br i \<equiv> label_of (mbroker_boxes br ! i)"

definition ino_at :: "broker \<Rightarrow> nat \<Rightarrow> int" where
  "ino_at br i = the (a_names (afs_of br) (label_at br i))"

definition contents_at :: "broker \<Rightarrow> nat \<Rightarrow> byte list" where
  "contents_at br i = (case a_nodes (afs_of br) (ino_at br i) of Some (File c) \<Rightarrow> c | _ \<Rightarrow> [])"

definition label_ok :: "cstring \<Rightarrow> bool" where
  "label_ok nm \<longleftrightarrow> nm \<noteq> [] \<and> length nm \<le> 30 \<and> 0 \<notin> set nm"

definition box_wf :: "box_t \<Rightarrow> bool" where
  "box_wf b \<longleftrightarrow> label_ok (label_of b) \<and> box_name b = pad BOX_NAME_LENGTH (slash # label_of b)"

section \<open>Invariants\<close>

definition table_ok :: "broker \<Rightarrow> bool" where
  "table_ok br \<longleftrightarrow>
     length (mbroker_boxes br) = box_count_max br \<and> \<not> mbroker_boxes_lock br \<and>
     (\<forall>i < box_count_max br. \<not> box_mutex (mbroker_boxes br ! i)) \<and>
     (\<forall>i. used br i \<longrightarrow> box_wf (mbroker_boxes br ! i)) \<and>
     (\<forall>i j. used br i \<longrightarrow> used br j \<longrightarrow> label_at br i = label_at br j \<longrightarrow> i = j)"

text \<open>Every name of the abstract file system has a file of its own.\<close>

definition afs_ok :: "afs \<Rightarrow> bool" where
  "afs_ok a \<longleftrightarrow>
     finite (dom (a_names a)) \<and> card (dom (a_names a)) \<le> a_slots a \<and> 0 < a_block a \<and>
     (\<forall>nm i. a_names a nm = Some i \<longrightarrow> (\<exists>c. a_nodes a i = Some (File c) \<and> length c \<le> a_block a)) \<and>
     (\<forall>nm nm' i. a_names a nm = Some i \<longrightarrow> a_names a nm' = Some i \<longrightarrow> nm = nm')"

text \<open>A box has a file; a file without a box is empty.\<close>

definition files_ok :: "broker \<Rightarrow> bool" where
  "files_ok br \<longleftrightarrow>
     (\<forall>i. used br i \<longrightarrow> a_names (afs_of br) (label_at br i) \<noteq> None) \<and>
     (\<forall>nm i. a_names (afs_of br) nm = Some i \<longrightarrow> (\<forall>j. used br j \<longrightarrow> label_at br j \<noteq> nm) \<longrightarrow>
        a_nodes (afs_of br) i = Some (File []))"

definition boxes_inv :: "broker \<Rightarrow> bool" where
  "boxes_inv br \<longleftrightarrow>
     fs2_inv (broker_fs br) \<and> table_ok br \<and> afs_ok (afs_of br) \<and> files_ok br \<and>
     a_slots (afs_of br) \<le> box_count_max br"

lemma boxes_invD:
  assumes "boxes_inv br"
  shows "fs2_inv (broker_fs br)" "table_ok br" "afs_ok (afs_of br)" "files_ok br" "a_slots (afs_of br) \<le> box_count_max br"
  using assms by (auto simp: boxes_inv_def)

lemma table_okD:
  assumes "table_ok br"
  shows "length (mbroker_boxes br) = box_count_max br" "\<not> mbroker_boxes_lock br"
    "i < box_count_max br \<Longrightarrow> \<not> box_mutex (mbroker_boxes br ! i)"
    "used br i \<Longrightarrow> box_wf (mbroker_boxes br ! i)"
    "used br i \<Longrightarrow> used br j \<Longrightarrow> label_at br i = label_at br j \<Longrightarrow> i = j"
  using assms by (auto simp: table_ok_def)

lemma afs_okD:
  assumes "afs_ok a"
  shows "finite (dom (a_names a))" "card (dom (a_names a)) \<le> a_slots a" "0 < a_block a"
    "a_names a nm = Some i \<Longrightarrow> \<exists>c. a_nodes a i = Some (File c) \<and> length c \<le> a_block a"
    "a_names a nm = Some i \<Longrightarrow> a_names a nm' = Some i \<Longrightarrow> nm = nm'"
  using assms unfolding afs_ok_def by blast+

lemma used_file:
  assumes "boxes_inv br" "used br i"
  shows "a_names (afs_of br) (label_at br i) = Some (ino_at br i)"
    "a_nodes (afs_of br) (ino_at br i) = Some (File (contents_at br i))"
    "length (contents_at br i) \<le> a_block (afs_of br)"
proof -
  show n: "a_names (afs_of br) (label_at br i) = Some (ino_at br i)"
    using boxes_invD(4) [OF assms(1)] assms(2) by (auto simp: files_ok_def ino_at_def)
  from afs_okD(4) [OF boxes_invD(3) [OF assms(1)] n] obtain c where
    "a_nodes (afs_of br) (ino_at br i) = Some (File c)" "length c \<le> a_block (afs_of br)" by blast
  then show "a_nodes (afs_of br) (ino_at br i) = Some (File (contents_at br i))"
    "length (contents_at br i) \<le> a_block (afs_of br)" by (simp_all add: contents_at_def)
qed

lemma ino_inj:
  assumes "boxes_inv br" "used br i" "used br j" "ino_at br i = ino_at br j"
  shows "i = j"
proof -
  have "label_at br i = label_at br j"
    using afs_okD(5) [OF boxes_invD(3) [OF assms(1)]] used_file(1) [OF assms(1)] assms(2-4) by metis
  with table_okD(5) [OF boxes_invD(2) [OF assms(1)] assms(2,3)] show ?thesis .
qed

section \<open>Finding a box\<close>

lemma string_at_pad: "0 \<notin> set s \<Longrightarrow> length s < n \<Longrightarrow> string_at (pad n s) 0 = Ok s"
  by (rule string_at_terminated) (auto simp: read_at_def pad_def Suc_diff_Suc take_Cons')

lemma box_wf_path: "box_wf b \<Longrightarrow> string_at (box_name b) 0 = Ok (slash # label_of b)"
  by (auto simp: box_wf_def label_ok_def slash_def intro!: string_at_pad)

lemma get_box_find:
  assumes "table_ok br" "0 \<notin> set nm"
  shows "get_box nm br = Ok (find (\<lambda>i. used br i \<and> label_at br i = nm) [0..<box_count_max br])"
  unfolding get_box_def
proof (rule findR_find)
  fix i
  assume "i \<in> set [0..<box_count_max br]"
  then have i: "i < length (mbroker_boxes br)" using table_okD(1) [OF assms(1)] by simp
  let ?b = "mbroker_boxes br ! i"
  have "strcmp_mem (box_name ?b) 1 nm = Ok (nm = label_of ?b)" if "used br i"
  proof (rule strcmp_mem_pad [of _ 31])
    have wf: "box_wf ?b" using table_okD(4) [OF assms(1) that] .
    then show "1 + 31 \<le> length (box_name ?b)" "0 \<notin> set (label_of ?b)" "length (label_of ?b) < 31"
      by (auto simp: box_wf_def label_ok_def)
    show "read_at 1 31 (box_name ?b) = pad 31 (label_of ?b)"
      using wf by (auto simp: box_wf_def label_ok_def read_at_def pad_def)
  qed (use assms(2) in simp)
  then show "bindR (arr_get (mbroker_boxes br) i) (\<lambda>b. if box_alloc_state b = USED then strcmp_mem (box_name b) 1 nm
      else Ok False) = Ok (used br i \<and> label_at br i = nm)"
    using i by (auto simp: used_def)
qed

lemma get_box_Some:
  assumes "table_ok br" "used br i"
  shows "get_box (label_at br i) br = Ok (Some i)"
proof -
  have i: "i < box_count_max br" using assms table_okD(1) [OF assms(1)] by (simp add: used_def)
  have z: "0 \<notin> set (label_at br i)" using table_okD(4) [OF assms] by (simp add: box_wf_def label_ok_def)
  have "find (\<lambda>j. used br j \<and> label_at br j = label_at br i) [0..<box_count_max br] = Some i"
    using i assms table_okD(5) [OF assms(1)] by (fastforce simp: find_upt_Some)
  with get_box_find [OF assms(1) z] show ?thesis by simp
qed

lemma get_box_cases:
  assumes "table_ok br" "0 \<notin> set nm"
  obtains (none) "get_box nm br = Ok None" "\<forall>i. used br i \<longrightarrow> label_at br i \<noteq> nm"
  | (box) i where "get_box nm br = Ok (Some i)" "used br i" "label_at br i = nm"
proof (cases "\<exists>i. used br i \<and> label_at br i = nm")
  case True
  with get_box_Some [OF assms(1)] box show thesis by blast
next
  case False
  then have "find (\<lambda>i. used br i \<and> label_at br i = nm) [0..<box_count_max br] = None" by (simp add: find_upt_None)
  with False none get_box_find [OF assms] show thesis by auto
qed

section \<open>Opening and closing the file of a box\<close>

abbreviation box_path :: "cstring \<Rightarrow> cstring option" where
  "box_path nm \<equiv> Some (slash # nm)"

lemma box_path_simps [simp]:
  "base (box_path nm) = nm" "path_ok (box_path nm) \<longleftrightarrow> 0 \<notin> set nm" "valid_pathname (box_path nm) \<longleftrightarrow> nm \<noteq> []"
  by (auto simp: base_def path_ok_def valid_pathname_def slash_def)

lemma a_lookup_path: "nm \<noteq> [] \<Longrightarrow> a_lookup a (box_path nm) = a_names a nm"
  by (simp add: a_lookup_def)

lemma flags [simp]:
  "\<not> has_flag 0 TFS_O_CREAT" "\<not> has_flag 0 TFS_O_TRUNC" "\<not> has_flag 0 TFS_O_APPEND"
  "\<not> has_flag TFS_O_APPEND TFS_O_TRUNC" "\<not> has_flag TFS_O_APPEND TFS_O_CREAT" "has_flag TFS_O_APPEND TFS_O_APPEND"
  "has_flag TFS_O_CREAT TFS_O_CREAT" "\<not> has_flag TFS_O_CREAT TFS_O_TRUNC" "\<not> has_flag TFS_O_CREAT TFS_O_APPEND"
  by (simp_all add: has_flag_def TFS_O_CREAT_def TFS_O_TRUNC_def TFS_O_APPEND_def)

lemma a_handle_moved:
  "a_handle i off a = (case a_new_handle a of None \<Rightarrow> (-1, a) | Some k \<Rightarrow> (int k, moved (int k) i off a))"
  by (simp add: a_handle_def moved_def split: option.split)

lemma new_handle_free: "a_new_handle a = Some k \<Longrightarrow> a_handles a (int k) = None"
  by (auto simp: a_new_handle_def find_upt_Some)

lemma no_handle_minus [simp]: "handle_at s (-1) = None"
  by (simp add: handle_at_def is_handle_def)

text \<open>An existing file: the next free handle, or -1.\<close>

lemma open_box:
  assumes "fs2_inv s" "label_ok nm" "a_names (abs_fs2 s) nm = Some i" "a_nodes (abs_fs2 s) i = Some (File c)"
    "\<not> has_flag mode TFS_O_TRUNC"
  obtains (full) s' where "a_new_handle (abs_fs2 s) = None" "tfs_open2 (box_path nm) mode s = Ok (-1, s')"
      "fs2_inv s'" "abs_fs2 s' = abs_fs2 s"
  | (fd) k s' where "a_new_handle (abs_fs2 s) = Some k" "tfs_open2 (box_path nm) mode s = Ok (int k, s')"
      "fs2_inv s'" "abs_fs2 s' = moved (int k) i (if has_flag mode TFS_O_APPEND then length c else 0) (abs_fs2 s)"
proof -
  let ?a = "abs_fs2 s"
  obtain fd s' where o: "tfs_open2 (box_path nm) mode s = Ok (fd, s')" "fs2_inv s'"
    "a_open (box_path nm) mode ?a = (Returned fd, abs_fs2 s')"
    using abs_open2 [OF assms(1), of "box_path nm" mode] assms(2) by (auto simp: label_ok_def)
  have "a_open (box_path nm) mode ?a =
      map_prod Returned id (a_handle i (if has_flag mode TFS_O_APPEND then length c else 0) ?a)"
    using assms(2-5) unfolding a_open_def by (simp add: label_ok_def a_lookup_path a_size_def Let_def del: abs_simps a_lookup_abs)
  with o full fd show thesis
    by (cases "a_new_handle ?a") (auto simp: a_handle_moved simp del: abs_simps)
qed

text \<open>The effect of creating the empty file \<open>nm\<close> in inode \<open>i\<close>.\<close>

definition a_add :: "cstring \<Rightarrow> int \<Rightarrow> afs \<Rightarrow> afs" where
  "a_add nm i a = a\<lparr>a_names := (a_names a)(nm \<mapsto> i), a_nodes := (a_nodes a)(i \<mapsto> File [])\<rparr>"

lemma a_add_simps [simp]:
  "a_names (a_add nm i a) = (a_names a)(nm \<mapsto> i)" "a_nodes (a_add nm i a) = (a_nodes a)(i \<mapsto> File [])"
  "a_handles (a_add nm i a) = a_handles a" "a_block (a_add nm i a) = a_block a" "a_slots (a_add nm i a) = a_slots a"
  "a_free (a_add nm i a) = a_free a" "a_new_handle (a_add nm i a) = a_new_handle a"
  by (simp_all add: a_add_def a_new_handle_def)

lemma open_new_box:
  assumes "fs2_inv s" "label_ok nm" "a_names (abs_fs2 s) nm = None"
  obtains (refused) s' where "a_new_inode (abs_fs2 s) = None \<or> \<not> a_room (abs_fs2 s) nm"
      "tfs_open2 (box_path nm) TFS_O_CREAT s = Ok (-1, s')" "fs2_inv s'" "abs_fs2 s' = abs_fs2 s"
  | (full) i s' where "a_new_inode (abs_fs2 s) = Some i" "a_room (abs_fs2 s) nm" "a_new_handle (abs_fs2 s) = None"
      "tfs_open2 (box_path nm) TFS_O_CREAT s = Ok (-1, s')" "fs2_inv s'" "abs_fs2 s' = a_add nm (int i) (abs_fs2 s)"
  | (fd) i k s' where "a_new_inode (abs_fs2 s) = Some i" "a_room (abs_fs2 s) nm" "a_new_handle (abs_fs2 s) = Some k"
      "tfs_open2 (box_path nm) TFS_O_CREAT s = Ok (int k, s')" "fs2_inv s'"
      "abs_fs2 s' = moved (int k) (int i) 0 (a_add nm (int i) (abs_fs2 s))"
proof -
  let ?a = "abs_fs2 s"
  obtain fd s' where o: "tfs_open2 (box_path nm) TFS_O_CREAT s = Ok (fd, s')" "fs2_inv s'"
    "a_open (box_path nm) TFS_O_CREAT ?a = (Returned fd, abs_fs2 s')"
    using abs_open2 [OF assms(1), of "box_path nm" TFS_O_CREAT] assms(2) by (auto simp: label_ok_def)
  have op: "a_open (box_path nm) TFS_O_CREAT ?a = (case a_create (File []) nm ?a of
      (None, a') \<Rightarrow> (Returned (-1), a') | (Some i, a') \<Rightarrow> map_prod Returned id (a_handle i 0 a'))"
    using assms(2,3) unfolding a_open_def
    by (simp add: label_ok_def a_lookup_path del: abs_simps a_lookup_abs)
  show thesis
  proof (cases "a_new_inode ?a")
    case None
    then have "a_open (box_path nm) TFS_O_CREAT ?a = (Returned (-1), ?a)" using op by (simp add: a_create_def del: abs_simps)
    with o(3) have "fd = -1" "abs_fs2 s' = ?a" by auto
    with refused [of s'] o(1,2) None show thesis by blast
  next
    case (Some i)
    show thesis
    proof (cases "a_room ?a nm")
      case True
      with Some have c: "a_create (File []) nm ?a = (Some (int i), a_add nm (int i) ?a)"
        by (simp add: a_create_def a_add_def)
      with o op full [OF Some True] fd [OF Some True] show thesis
        by (cases "a_new_handle ?a") (auto simp: a_handle_moved simp del: abs_simps)
    next
      case False
      then have "a_open (box_path nm) TFS_O_CREAT ?a = (Returned (-1), ?a)"
        using op Some by (simp add: a_create_def del: abs_simps)
      with o(3) have "fd = -1" "abs_fs2 s' = ?a" by auto
      with refused [of s'] o(1,2) False show thesis by blast
    qed
  qed
qed

lemma close_handle:
  assumes "fs2_inv s" "abs_fs2 s = moved fd i off a" "a_handles a fd = None"
  obtains s' where "tfs_close2 fd s = Ok (0, s')" "fs2_inv s'" "abs_fs2 s' = a"
proof -
  obtain r s' where c: "tfs_close2 fd s = Ok (r, s')" "fs2_inv s'" "a_close fd (abs_fs2 s) = (r, abs_fs2 s')"
    using abs_close2 [OF assms(1)] by blast
  then have "r = 0" "abs_fs2 s' = a\<lparr>a_handles := (a_handles a)(fd := None)\<rparr>"
    unfolding assms(2) by (auto simp: a_close_def moved_def)
  moreover have "a\<lparr>a_handles := (a_handles a)(fd := None)\<rparr> = a"
    using assms(3) by (cases a) (simp add: fun_upd_idem)
  ultimately show thesis using that [of s'] c by simp
qed

lemma close_nothing:
  assumes "fs2_inv s"
  obtains s' where "tfs_close2 (-1) s = Ok (-1, s')" "fs2_inv s'" "abs_fs2 s' = abs_fs2 s"
proof -
  obtain r s' where c: "tfs_close2 (-1) s = Ok (r, s')" "fs2_inv s'" "a_close (-1) (abs_fs2 s) = (r, abs_fs2 s')"
    using abs_close2 [OF assms] by blast
  moreover have "a_handles (abs_fs2 s) (-1) = None" by simp
  then have "a_close (-1) (abs_fs2 s) = (-1, abs_fs2 s)" unfolding a_close_def by (simp only: simp_thms if_True)
  ultimately show thesis using that [of s'] by simp
qed

section \<open>Creating a box\<close>

definition new_box :: "cstring \<Rightarrow> box_t" where
  "new_box nm = \<lparr>box_name = pad BOX_NAME_LENGTH (slash # nm), box_n_publishers = 0, box_n_subscribers = 0,
     box_size = 0, box_mutex = False, box_alloc_state = USED\<rparr>"

lemma new_box_simps [simp]:
  "box_n_publishers (new_box nm) = 0" "box_n_subscribers (new_box nm) = 0" "box_size (new_box nm) = 0"
  "\<not> box_mutex (new_box nm)" "box_alloc_state (new_box nm) = USED"
  "box_name (new_box nm) = pad BOX_NAME_LENGTH (slash # nm)"
  by (simp_all add: new_box_def)

lemma takeWhile_pad: "0 \<notin> set s \<Longrightarrow> length s < n \<Longrightarrow> takeWhile (\<lambda>c. c \<noteq> 0) (pad n s) = s"
  by (auto simp: pad_def takeWhile_append2 takeWhile_eq_Nil_iff intro: takeWhile_append2 [THEN trans])

lemma label_new_box [simp]: "label_ok nm \<Longrightarrow> label_of (new_box nm) = nm"
proof -
  assume nm: "label_ok nm"
  then have "drop 1 (pad BOX_NAME_LENGTH (slash # nm)) = pad 31 nm" by (simp add: pad_def)
  with nm takeWhile_pad [of nm 31] show ?thesis by (simp add: label_of_def label_ok_def)
qed

lemma new_box_wf: "label_ok nm \<Longrightarrow> box_wf (new_box nm)"
  by (simp add: box_wf_def)

lemma write_at_start: "length xs \<le> length m \<Longrightarrow> write_at 0 xs m = xs @ drop (length xs) m"
  by (simp add: write_at_def)

lemma strcpy_zeros: "length s < n \<Longrightarrow> strcpy (replicate n 0) s = Ok (pad n s)"
  by (auto simp: strcpy_def write_at_start pad_def Suc_diff_Suc [symmetric])

lemma box_initialize_eq:
  assumes "label_ok nm" "0 < slack"
  shows "box_initialize slack nm = Ok (0, new_box nm)"
proof -
  let ?n = "length nm + 1 + slack"
  obtain k where k: "slack = Suc k" using assms(2) by (cases slack) auto
  have t: "mem_write (replicate ?n 0) 0 [slash, 0] = Ok (slash # replicate (length nm + slack) 0)"
    using k by (simp add: write_at_start)
  have u: "mem_write (slash # replicate (length nm + slack) 0) 1 (nm @ [0]) = Ok ((slash # nm) @ 0 # replicate k 0)"
    using k by (simp add: write_at_def)
  have s: "string_at ((slash # nm) @ 0 # replicate k 0) 0 = Ok (slash # nm)"
    by (rule string_at_terminated) (use assms(1) in \<open>auto simp: read_at_def label_ok_def slash_def\<close>)
  have "strcpy (replicate BOX_NAME_LENGTH 0) (slash # nm) = Ok (pad BOX_NAME_LENGTH (slash # nm))"
    using assms(1) by (intro strcpy_zeros) (simp add: label_ok_def)
  then show ?thesis
    unfolding box_initialize_def Let_def t bindR.simps u s by (simp add: new_box_def)
qed

text \<open>What creating a box may do to the file system: nothing, or one new empty file.\<close>

definition grown :: "cstring \<Rightarrow> afs \<Rightarrow> afs \<Rightarrow> bool" where
  "grown nm a a' \<longleftrightarrow> a' = a \<or> (a_names a nm = None \<and> (\<exists>i. a_nodes a i = None \<and> a' = a_add nm i a))"

lemma grown_keeps:
  assumes "grown nm a a'"
  shows "a_handles a' = a_handles a" "a_block a' = a_block a" "a_slots a' = a_slots a" "a_free a' = a_free a"
    "a_names a x = Some i \<Longrightarrow> a_names a' x = Some i" "a_nodes a i = Some nd \<Longrightarrow> a_nodes a' i = Some nd"
    "a_names a' x = Some i \<Longrightarrow> a_names a x = Some i \<or> x = nm \<and> a_nodes a' i = Some (File [])"
  using assms by (auto simp: grown_def split: if_splits)

lemma afs_ok_add:
  assumes "afs_ok a" "a_names a nm = None" "a_nodes a i = None" "a_room a nm"
  shows "afs_ok (a_add nm i a)"
proof -
  note A = afs_okD [OF assms(1)]
  have i: "a_names a x \<noteq> Some i" for x using A(4) [of x i] assms(3) by auto
  show ?thesis
    unfolding afs_ok_def
  proof (intro conjI allI impI)
    show "card (dom (a_names (a_add nm i a))) \<le> a_slots (a_add nm i a)"
      using A(1) assms(2,4) by (simp add: a_room_def card_insert_if domIff)
    show "\<exists>c. a_nodes (a_add nm i a) j = Some (File c) \<and> length c \<le> a_block (a_add nm i a)"
      if "a_names (a_add nm i a) x = Some j" for x j using that A(4) [of x j] by (auto split: if_splits)
    show "x = y" if "a_names (a_add nm i a) x = Some j" "a_names (a_add nm i a) y = Some j" for x y j
      using that A(5) [of x j y] i by (auto split: if_splits)
  qed (use A(1,3) in auto)
qed

lemma new_inode_free: "a_new_inode a = Some i \<Longrightarrow> a_nodes a (int i) = None"
  by (auto simp: a_new_inode_def find_Some_iff)

text \<open>A slot is free as long as there is a file without a box.\<close>

lemma free_slot_exists:
  assumes "table_ok br" "finite (dom names)" "card (dom names) \<le> box_count_max br"
    and lab: "\<And>i. used br i \<Longrightarrow> label_at br i \<in> dom names" and nm: "nm \<in> dom names" "\<And>i. used br i \<Longrightarrow> label_at br i \<noteq> nm"
  shows "\<exists>i < box_count_max br. \<not> used br i"
proof (rule ccontr)
  assume all: "\<not> ?thesis"
  have "inj_on (label_at br) {..<box_count_max br}"
    using table_okD(5) [OF assms(1)] all by (auto intro: inj_onI)
  then have "card (label_at br ` {..<box_count_max br}) = box_count_max br" by (simp add: card_image)
  moreover have "label_at br ` {..<box_count_max br} \<subseteq> dom names - {nm}"
  proof
    fix x
    assume "x \<in> label_at br ` {..<box_count_max br}"
    then obtain j where "j < box_count_max br" "x = label_at br j" by blast
    with all lab [of j] nm(2) [of j] show "x \<in> dom names - {nm}" by simp
  qed
  then have "card (label_at br ` {..<box_count_max br}) \<le> card (dom names - {nm})"
    using assms(2) by (intro card_mono) simp_all
  moreover have "card (dom names - {nm}) < card (dom names)" using assms(2) nm(1) by (rule card_Diff1_less)
  ultimately show False using assms(3) by simp
qed

definition told :: "manager_response_t \<Rightarrow> cstring \<Rightarrow> manager_response_t" where
  "told resp msg = resp\<lparr>man_error_message := msg @ 0 # drop (length msg + 1) (man_error_message resp)\<rparr>"

lemma set_error_msg: "length msg < length (man_error_message resp) \<Longrightarrow>
    manager_response_set_error_msg resp msg = Ok (0, told resp msg)"
  by (simp add: manager_response_set_error_msg_def strcpy_def write_at_start told_def)

lemmas error_texts = RESP_ERR_DUPLICATE_BOX_def RESP_ERR_INIT_BOX_def RESP_ERR_CREATE_BOX_def RESP_ERR_UNKNOWN_BOX_def
  RESP_ERR_DELETE_BOX_def cstr_def newline_def

lemma error_lengths:
  "length RESP_ERR_DUPLICATE_BOX < 1024" "length RESP_ERR_CREATE_BOX < 1024" "length RESP_ERR_UNKNOWN_BOX < 1024"
  by (simp_all add: error_texts)

lemma create_box_duplicate:
  assumes "table_ok br" "used br i" "length (man_error_message resp) = ERR_MESSAGE_LENGTH"
  shows "create_box slack resp (label_at br i) br = Ok (-1, told resp RESP_ERR_DUPLICATE_BOX, br)"
  using get_box_Some [OF assms(1,2)] set_error_msg [of RESP_ERR_DUPLICATE_BOX resp] assms(3) error_lengths
  by (simp add: create_box_def)

lemma boxes_inv_create:
  assumes inv: "boxes_inv br" and nm: "label_ok nm" "\<And>j. used br j \<Longrightarrow> label_at br j \<noteq> nm"
    and fs: "fs2_inv fs" "grown nm (afs_of br) (abs_fs2 fs)" "afs_ok (abs_fs2 fs)" "a_names (abs_fs2 fs) nm \<noteq> None"
    and i: "i < box_count_max br" "\<not> used br i"
  shows "boxes_inv (br\<lparr>broker_fs := fs, mbroker_boxes := (mbroker_boxes br)[i := new_box nm]\<rparr>)" (is "boxes_inv ?br")
proof -
  note I = boxes_invD [OF inv] and T = table_okD [OF boxes_invD(2) [OF inv]] and G = grown_keeps [OF fs(2)]
  have u: "used ?br j \<longleftrightarrow> used br j \<or> j = i" for j
    using i T(1) by (auto simp: used_def nth_list_update)
  have box: "(mbroker_boxes br)[i := new_box nm] ! j = (if j = i then new_box nm else mbroker_boxes br ! j)" for j
    using i T(1) by (cases "j = i") auto
  have "table_ok ?br"
    unfolding table_ok_def
    using T nm i new_box_wf [OF nm(1)] by (auto simp: u box split: if_splits) blast+
  moreover have "files_ok ?br"
  proof -
    have "a_names (abs_fs2 fs) (label_at br j) \<noteq> None" if "used br j" for j
      using that used_file(1) [OF inv that] G(5) by auto
    moreover have "a_nodes (abs_fs2 fs) k = Some (File [])"
      if "a_names (abs_fs2 fs) x = Some k" "x \<noteq> nm" "\<And>j. used br j \<Longrightarrow> label_at br j \<noteq> x" for x k
      using G(7) [of x k] G(6) that I(4) by (auto simp: files_ok_def)
    ultimately show ?thesis
      using nm fs(4) i unfolding files_ok_def by (auto simp: u box)
  qed
  ultimately show ?thesis using fs G(3) I(5) by (simp add: boxes_inv_def)
qed

lemma boxes_inv_grown:
  assumes inv: "boxes_inv br" and nm: "\<And>j. used br j \<Longrightarrow> label_at br j \<noteq> nm"
    and fs: "fs2_inv fs" "grown nm (afs_of br) (abs_fs2 fs)" "afs_ok (abs_fs2 fs)"
  shows "boxes_inv (br\<lparr>broker_fs := fs\<rparr>)"
proof -
  note I = boxes_invD [OF inv] and G = grown_keeps [OF fs(2)]
  have u: "used (br\<lparr>broker_fs := fs\<rparr>) j = used br j" for j by (simp add: used_def)
  have "a_names (abs_fs2 fs) (label_at br j) \<noteq> None" if "used br j" for j
    using that used_file(1) [OF inv that] G(5) by auto
  moreover have "a_nodes (abs_fs2 fs) k = Some (File [])"
    if "a_names (abs_fs2 fs) x = Some k" "\<And>j. used br j \<Longrightarrow> label_at br j \<noteq> x" for x k
    using G(7) [of x k] G(6) that I(4) by (auto simp: files_ok_def)
  ultimately have "files_ok (br\<lparr>broker_fs := fs\<rparr>)" by (auto simp: files_ok_def u)
  then show ?thesis using I fs G(3) by (simp add: boxes_inv_def table_ok_def u)
qed

text \<open>When there is room for the file and a handle to open it with.\<close>

definition can_create :: "cstring \<Rightarrow> afs \<Rightarrow> bool" where
  "can_create nm a \<longleftrightarrow> a_new_handle a \<noteq> None \<and> (a_names a nm \<noteq> None \<or> a_new_inode a \<noteq> None \<and> a_room a nm)"

text \<open>\<open>tfs_open(name, TFS_O_CREAT)\<close> followed by \<open>tfs_close\<close>.\<close>

lemma open_create_close:
  assumes inv: "boxes_inv br" and nm: "label_ok nm" "\<And>j. used br j \<Longrightarrow> label_at br j \<noteq> nm"
  obtains fd fs fs' r where "tfs_open2 (box_path nm) TFS_O_CREAT (broker_fs br) = Ok (fd, fs)"
    "tfs_close2 fd fs = Ok (r, fs')" "fs2_inv fs'" "afs_ok (abs_fs2 fs')" "grown nm (afs_of br) (abs_fs2 fs')"
    "fd = -1 \<longleftrightarrow> \<not> can_create nm (afs_of br)" "fd \<noteq> -1 \<Longrightarrow> a_names (abs_fs2 fs') nm \<noteq> None"
proof -
  note I = boxes_invD [OF inv]
  let ?a = "afs_of br"
  have refl: "grown nm ?a ?a" by (simp add: grown_def)
  show thesis
  proof (cases "a_names ?a nm")
    case (Some i)
    then obtain c where c: "a_nodes ?a i = Some (File c)" using afs_okD(4) [OF I(3)] by blast
    from I(1) nm(1) Some c flags(8) show thesis
    proof (cases rule: open_box)
      case (full s')
      from close_nothing [OF full(3)] obtain s2 where "tfs_close2 (-1) s' = Ok (-1, s2)" "fs2_inv s2" "abs_fs2 s2 = abs_fs2 s'" .
      with full Some I(3) refl show thesis by (intro that [of "-1" s' "-1" s2]) (simp_all add: can_create_def del: abs_simps)
    next
      case (fd k s')
      from close_handle [OF fd(3,4) new_handle_free [OF fd(1)]] obtain s2 where
        "tfs_close2 (int k) s' = Ok (0, s2)" "fs2_inv s2" "abs_fs2 s2 = ?a" .
      with fd Some I(3) refl show thesis by (intro that [of "int k" s' 0 s2]) (simp_all add: can_create_def del: abs_simps)
    qed
  next
    case None
    from I(1) nm(1) None show thesis
    proof (cases rule: open_new_box)
      case (refused s')
      from close_nothing [OF refused(3)] obtain s2 where "tfs_close2 (-1) s' = Ok (-1, s2)" "fs2_inv s2" "abs_fs2 s2 = abs_fs2 s'" .
      with refused None I(3) refl show thesis
        by (intro that [of "-1" s' "-1" s2]) (auto simp: can_create_def simp del: abs_simps)
    next
      case (full i s')
      have a': "afs_ok (a_add nm (int i) ?a)" "grown nm ?a (a_add nm (int i) ?a)"
        using afs_ok_add [OF I(3) None new_inode_free [OF full(1)] full(2)] None new_inode_free [OF full(1)]
        by (auto simp: grown_def)
      from close_nothing [OF full(5)] obtain s2 where "tfs_close2 (-1) s' = Ok (-1, s2)" "fs2_inv s2" "abs_fs2 s2 = abs_fs2 s'" .
      with full a' show thesis by (intro that [of "-1" s' "-1" s2]) (simp_all add: can_create_def del: abs_simps)
    next
      case (fd i k s')
      have a': "afs_ok (a_add nm (int i) ?a)" "grown nm ?a (a_add nm (int i) ?a)"
        using afs_ok_add [OF I(3) None new_inode_free [OF fd(1)] fd(2)] None new_inode_free [OF fd(1)]
        by (auto simp: grown_def)
      have "a_handles (a_add nm (int i) ?a) (int k) = None" using new_handle_free [OF fd(3)] unfolding a_add_simps .
      from close_handle [OF fd(5,6) this] obtain s2 where
        "tfs_close2 (int k) s' = Ok (0, s2)" "fs2_inv s2" "abs_fs2 s2 = a_add nm (int i) ?a" .
      with fd a' show thesis by (intro that [of "int k" s' 0 s2]) (simp_all add: can_create_def del: abs_simps)
    qed
  qed
qed

text \<open>\<open>create_box\<close> for a name that no box has.\<close>

lemma create_box_cases:
  assumes inv: "boxes_inv br" and ok: "label_ok nm" "\<forall>j. used br j \<longrightarrow> label_at br j \<noteq> nm"
    and pre: "0 < slack" "length (man_error_message resp) = ERR_MESSAGE_LENGTH"
  obtains (created) i fs where "can_create nm (afs_of br)" "i < box_count_max br" "\<not> used br i"
      "create_box slack resp nm br =
         Ok (0, resp, br\<lparr>broker_fs := fs, mbroker_boxes := (mbroker_boxes br)[i := new_box nm]\<rparr>)"
      "grown nm (afs_of br) (abs_fs2 fs)" "a_names (abs_fs2 fs) nm \<noteq> None"
      "boxes_inv (br\<lparr>broker_fs := fs, mbroker_boxes := (mbroker_boxes br)[i := new_box nm]\<rparr>)"
  | (failed) fs where "\<not> can_create nm (afs_of br)"
      "create_box slack resp nm br = Ok (-1, told resp RESP_ERR_CREATE_BOX, br\<lparr>broker_fs := fs\<rparr>)"
      "grown nm (afs_of br) (abs_fs2 fs)" "boxes_inv (br\<lparr>broker_fs := fs\<rparr>)"
proof -
  have nm: "label_ok nm" "\<And>j. used br j \<Longrightarrow> label_at br j \<noteq> nm" using ok by blast+
  note I = boxes_invD [OF inv] and T = table_okD [OF boxes_invD(2) [OF inv]]
  have none: "get_box nm br = Ok None"
    using get_box_cases [OF I(2), of nm] nm by (auto simp: label_ok_def)
  have path: "string_at (box_name (new_box nm)) 0 = Ok (slash # nm)"
    using box_wf_path [OF new_box_wf [OF nm(1)]] nm(1) by simp
  obtain fd fs fs' r where o: "tfs_open2 (box_path nm) TFS_O_CREAT (broker_fs br) = Ok (fd, fs)"
    "tfs_close2 fd fs = Ok (r, fs')" "fs2_inv fs'" "afs_ok (abs_fs2 fs')" "grown nm (afs_of br) (abs_fs2 fs')"
    "fd = -1 \<longleftrightarrow> \<not> can_create nm (afs_of br)" "fd \<noteq> -1 \<Longrightarrow> a_names (abs_fs2 fs') nm \<noteq> None"
    by (rule open_create_close [OF inv nm], assumption) (rule that)
  note start = none box_initialize_eq [OF nm(1) pre(1)] path o(1,2)
  show thesis
  proof (cases "fd = -1")
    case True
    with start set_error_msg [of RESP_ERR_CREATE_BOX resp] pre(2) error_lengths
    have "create_box slack resp nm br = Ok (-1, told resp RESP_ERR_CREATE_BOX, br\<lparr>broker_fs := fs'\<rparr>)"
      by (simp add: create_box_def del: new_box_simps)
    with failed True o(5,6) boxes_inv_grown [OF inv nm(2) o(3,5,4)] show thesis by blast
  next
    case False
    note G = grown_keeps [OF o(5)]
    let ?free = "\<lambda>i. box_alloc_state (mbroker_boxes br ! i) = NOT_USED"
    have free: "?free i \<longleftrightarrow> \<not> used br i" if "i < box_count_max br" for i
      using that T(1) by (auto simp: used_def intro: box_allocation_state_t.exhaust)
    have slots: "card (dom (a_names (abs_fs2 fs'))) \<le> box_count_max br"
      using afs_okD(2) [OF o(4)] G(3) I(5) by linarith
    have names: "nm \<in> dom (a_names (abs_fs2 fs'))" using o(7) [OF False] by blast
    have labels: "label_at br j \<in> dom (a_names (abs_fs2 fs'))" if "used br j" for j
      using G(5) [OF used_file(1) [OF inv that]] by blast
    have "\<exists>i < box_count_max br. \<not> used br i"
      by (rule free_slot_exists [OF I(2) afs_okD(1) [OF o(4)] slots labels names nm(2)])
    then have "find ?free [0..<box_count_max br] \<noteq> None" using free by (auto simp: find_upt_None)
    then obtain i where i: "find ?free [0..<box_count_max br] = Some i" by blast
    then have i2: "i < box_count_max br" "\<not> used br i" using free by (auto simp: find_upt_Some)
    have "findR (\<lambda>i. bindR (arr_get (mbroker_boxes br) i) (\<lambda>b. Ok (box_alloc_state b = NOT_USED)))
        [0..<box_count_max br] = Ok (find ?free [0..<box_count_max br])"
      by (rule findR_find) (use T(1) in simp)
    with i have fr: "findR (\<lambda>i. bindR (arr_get (mbroker_boxes br) i) (\<lambda>b. Ok (box_alloc_state b = NOT_USED)))
        [0..<box_count_max br] = Ok (Some i)" by simp
    have "create_box slack resp nm br =
        Ok (0, resp, br\<lparr>broker_fs := fs', mbroker_boxes := (mbroker_boxes br)[i := new_box nm]\<rparr>)"
      using start False T(1,2) i2 by (simp add: create_box_def Let_def fr put_box_def del: new_box_simps)
    moreover have "can_create nm (afs_of br)" using False o(6) by blast
    ultimately show thesis
      using boxes_inv_create [OF inv nm o(3,5,4) o(7) [OF False] i2] by (intro created [OF _ i2 _ o(5) o(7) [OF False]])
  qed
qed

section \<open>Deleting a box\<close>

definition a_remove :: "cstring \<Rightarrow> int \<Rightarrow> afs \<Rightarrow> afs" where
  "a_remove nm i a =
     a\<lparr>a_names := (a_names a)(nm := None), a_nodes := (a_nodes a)(i := None),
       a_free := a_free a + blocks_of (the (a_nodes a i))\<rparr>"

lemma a_remove_simps [simp]:
  "a_names (a_remove nm i a) = (a_names a)(nm := None)" "a_nodes (a_remove nm i a) = (a_nodes a)(i := None)"
  "a_handles (a_remove nm i a) = a_handles a" "a_block (a_remove nm i a) = a_block a" "a_slots (a_remove nm i a) = a_slots a"
  by (simp_all add: a_remove_def)

lemma afs_ok_remove:
  assumes "afs_ok a" "a_names a nm = Some i"
  shows "afs_ok (a_remove nm i a)"
proof -
  note A = afs_okD [OF assms(1)]
  show ?thesis
    unfolding afs_ok_def
  proof (intro conjI allI impI)
    show "card (dom (a_names (a_remove nm i a))) \<le> a_slots (a_remove nm i a)"
      using A(1,2) card_Diff1_le [of "dom (a_names a)" nm] by (simp add: dom_fun_upd)
    show "\<exists>c. a_nodes (a_remove nm i a) j = Some (File c) \<and> length c \<le> a_block (a_remove nm i a)"
      if "a_names (a_remove nm i a) x = Some j" for x j
      using that A(4) [of x j] A(5) [of x j nm] assms(2) by (auto split: if_splits)
    show "x = y" if "a_names (a_remove nm i a) x = Some j" "a_names (a_remove nm i a) y = Some j" for x y j
      using that A(5) [of x j y] by (auto split: if_splits)
  qed (use A(1,3) in auto)
qed

lemma unlink_box:
  assumes "fs2_inv s" "afs_ok (abs_fs2 s)" "label_ok nm" "a_names (abs_fs2 s) nm = Some i"
    and closed: "\<And>fd off. a_handles (abs_fs2 s) fd \<noteq> Some (i, off)"
  obtains s' where "tfs_unlink2 (box_path nm) s = Ok (0, s')" "fs2_inv s'" "abs_fs2 s' = a_remove nm i (abs_fs2 s)"
proof -
  let ?a = "abs_fs2 s"
  have lk: "a_lookup ?a (box_path nm) = Some i" using assms(3,4) by (simp add: label_ok_def a_lookup_path del: a_lookup_abs)
  have "\<not> a_opened ?a (box_path nm)" unfolding a_opened_def lk using closed by simp
  then obtain r s' where s': "tfs_unlink2 (box_path nm) s = Ok (r, s')" "fs2_inv s'"
    "a_unlink (box_path nm) ?a = (r, abs_fs2 s')"
    using abs_unlink2 [OF assms(1), of "box_path nm"] assms(3) by (auto simp: label_ok_def)
  have "i \<notin> ran ((a_names ?a)(nm := None))"
    using afs_okD(5) [OF assms(2) assms(4)] unfolding ran_def by (simp del: abs_simps) blast
  then have "a_unlink (box_path nm) ?a = (0, a_remove nm i ?a)"
    using closed unfolding a_unlink_def lk by (simp add: Let_def a_remove_def del: abs_simps)
  with s' that [of s'] show thesis by simp
qed

lemma box_lock_eq: "i < length (mbroker_boxes br) \<Longrightarrow> \<not> box_mutex (mbroker_boxes br ! i) \<Longrightarrow>
    box_lock i br = Ok (br\<lparr>mbroker_boxes := (mbroker_boxes br)[i := (mbroker_boxes br ! i)\<lparr>box_mutex := True\<rparr>]\<rparr>)"
  by (simp add: box_lock_def put_box_def)

lemma box_unlock_eq: "i < length (mbroker_boxes br) \<Longrightarrow> box_mutex (mbroker_boxes br ! i) \<Longrightarrow>
    box_unlock i br = Ok (br\<lparr>mbroker_boxes := (mbroker_boxes br)[i := (mbroker_boxes br ! i)\<lparr>box_mutex := False\<rparr>]\<rparr>)"
  by (simp add: box_unlock_def put_box_def)

lemma unlocked_box: "\<not> box_mutex b \<Longrightarrow> b\<lparr>box_mutex := False\<rparr> = b"
  by (cases b) simp

lemma usedD: "table_ok br \<Longrightarrow> used br i \<Longrightarrow> i < length (mbroker_boxes br) \<and> \<not> box_mutex (mbroker_boxes br ! i) \<and>
    box_alloc_state (mbroker_boxes br ! i) = USED"
  by (auto simp: used_def table_ok_def)

lemma boxes_inv_delete:
  assumes inv: "boxes_inv br" and i: "used br i"
    and fs: "fs2_inv fs" "abs_fs2 fs = a_remove (label_at br i) (ino_at br i) (afs_of br)"
  shows "boxes_inv (br\<lparr>broker_fs := fs, mbroker_boxes :=
    (mbroker_boxes br)[i := (mbroker_boxes br ! i)\<lparr>box_alloc_state := NOT_USED\<rparr>]\<rparr>)" (is "boxes_inv ?br")
proof -
  note I = boxes_invD [OF inv] and T = table_okD [OF boxes_invD(2) [OF inv]]
  note F = used_file(1) [OF inv i] and len = usedD [OF I(2) i]
  have u: "used ?br j \<longleftrightarrow> used br j \<and> j \<noteq> i" for j
    using len by (auto simp: used_def nth_list_update)
  have box: "(mbroker_boxes br)[i := v] ! j = (if j = i then v else mbroker_boxes br ! j)" for j v
    using len by (cases "j = i") auto
  have "table_ok ?br"
    unfolding table_ok_def using T len by (auto simp: u box split: if_splits)
  moreover have "afs_ok (abs_fs2 fs)" using afs_ok_remove [OF I(3) F] fs(2) by simp
  moreover have "files_ok ?br"
  proof -
    have "label_at br j \<noteq> label_at br i" if "used br j" "j \<noteq> i" for j using T(5) [OF that(1) i] that(2) by blast
    moreover have "a_nodes (abs_fs2 fs) k = Some (File [])"
      if x: "a_names (abs_fs2 fs) x = Some k" "\<And>j. used br j \<Longrightarrow> j \<noteq> i \<Longrightarrow> label_at br j \<noteq> x" for x k
    proof -
      from x(1) have "x \<noteq> label_at br i" "a_names (afs_of br) x = Some k" unfolding fs(2) by (auto split: if_splits)
      moreover then have "k \<noteq> ino_at br i" using afs_okD(5) [OF I(3) F] by metis
      ultimately show ?thesis using I(4) x(2) unfolding fs(2) files_ok_def a_remove_simps by (metis fun_upd_apply)
    qed
    ultimately show ?thesis
      using I(4) unfolding files_ok_def by (simp add: u box fs(2) del: abs_simps)
  qed
  ultimately show ?thesis using fs I(5) by (simp add: boxes_inv_def del: abs_simps)
qed

lemma delete_box_used:
  assumes inv: "boxes_inv br" and i: "used br i"
    and closed: "\<And>fd off. a_handles (afs_of br) fd \<noteq> Some (ino_at br i, off)"
  obtains fs where "delete_box resp (label_at br i) br = Ok (0, resp, br\<lparr>broker_fs := fs, mbroker_boxes :=
      (mbroker_boxes br)[i := (mbroker_boxes br ! i)\<lparr>box_alloc_state := NOT_USED\<rparr>]\<rparr>)"
    "fs2_inv fs" "abs_fs2 fs = a_remove (label_at br i) (ino_at br i) (afs_of br)"
proof -
  note I = boxes_invD [OF inv] and T = table_okD [OF boxes_invD(2) [OF inv]]
  note len = usedD [OF I(2) i] and wf = T(4) [OF i]
  let ?b = "mbroker_boxes br ! i" and ?nm = "label_at br i"
  have nm: "label_ok ?nm" using wf by (simp add: box_wf_def)
  obtain fs where fs: "tfs_unlink2 (box_path ?nm) (broker_fs br) = Ok (0, fs)" "fs2_inv fs"
    "abs_fs2 fs = a_remove ?nm (ino_at br i) (afs_of br)"
    by (rule unlink_box [OF I(1,3) nm used_file(1) [OF inv i] closed]) (rule that)
  have "delete_box resp ?nm br = Ok (0, resp, br\<lparr>broker_fs := fs, mbroker_boxes :=
      (mbroker_boxes br)[i := ?b\<lparr>box_alloc_state := NOT_USED\<rparr>]\<rparr>)"
    using get_box_Some [OF I(2) i] len box_wf_path [OF wf] fs(1)
    by (simp add: delete_box_def Let_def box_lock_eq box_unlock_eq put_box_def unlocked_box)
  with that fs(2,3) show thesis by blast
qed

lemma delete_box_unknown:
  assumes "table_ok br" "0 \<notin> set nm" "\<And>i. used br i \<Longrightarrow> label_at br i \<noteq> nm"
    "length (man_error_message resp) = ERR_MESSAGE_LENGTH"
  shows "delete_box resp nm br = Ok (-1, told resp RESP_ERR_UNKNOWN_BOX, br)"
proof -
  have "get_box nm br = Ok None" using get_box_cases [OF assms(1,2)] assms(3) by auto
  then show ?thesis
    using set_error_msg [of RESP_ERR_UNKNOWN_BOX resp] assms(4) error_lengths by (simp add: delete_box_def)
qed

end
