(* ===== verification/Sessions.thy ===== *)
theory Sessions
  imports Broker Box_Table "HOL-Library.Sublist"
begin

text \<open>
  The broker with all its sessions. A step is what one worker thread does between two points where
  it waits: for its client, on the condition variable of its box, or for the next request. In
  between, the handlers hold the mutex of the box, so that these parts do not interleave with one
  another. The state also records, for the theorems, the messages a box has accepted and those each
  subscriber was sent.
\<close>

section \<open>States\<close>

datatype sub_mode = Running | Waiting | Woken

record sub_thread =
  th_session :: sub_session
  th_mode :: sub_mode
  th_got :: "cstring list"

record system =
  sys_broker :: broker
  sys_pubs :: "nat \<rightharpoonup> pub_session"
  sys_subs :: "nat \<rightharpoonup> sub_thread"
  sys_log :: "nat \<Rightarrow> cstring list"

abbreviation th_box :: "sub_thread \<Rightarrow> nat" where
  "th_box t \<equiv> sub_box (th_session t)"

abbreviation th_fd :: "sub_thread \<Rightarrow> int" where
  "th_fd t \<equiv> sub_box_fd (th_session t)"

text \<open>\<open>cond_broadcast(&box->condition)\<close> for the boxes in \<open>B\<close>.\<close>

definition broadcast :: "(nat \<Rightarrow> bool) \<Rightarrow> (nat \<rightharpoonup> sub_thread) \<Rightarrow> nat \<rightharpoonup> sub_thread" where
  "broadcast B subs =
     (\<lambda>k. map_option (\<lambda>t. if B (th_box t) \<and> th_mode t = Waiting then t\<lparr>th_mode := Woken\<rparr> else t) (subs k))"

section \<open>Steps\<close>

text \<open>What happens next; \<open>k\<close> names a session.\<close>

datatype action =
    Manage nat bool "byte list \<Rightarrow> syscall" registration_request_t
  | Pub_start nat bool registration_request_t
  | Pub_read nat received
  | Sub_start nat bool registration_request_t
  | Sub_run nat "byte list \<Rightarrow> syscall"
  | Spurious nat

definition string_of :: "byte list \<Rightarrow> cstring" where
  "string_of bs = takeWhile (\<lambda>c. c \<noteq> 0) bs"

fun message_of :: "received \<Rightarrow> cstring" where
  "message_of (Whole bs) = string_of (pub_message (publisher_of bs))"
| "message_of End_of_file = []"
| "message_of Partial = []"

text \<open>A session of a subscriber goes on with what its round returned.\<close>

definition sub_goes_on :: "nat \<Rightarrow> sub_thread \<Rightarrow> sub_next \<times> broker \<Rightarrow> system \<Rightarrow> system result" where
  "sub_goes_on k t res S =
     (case res of
        (Asleep, br) \<Rightarrow> Ok (S\<lparr>sys_broker := br, sys_subs := (sys_subs S)(k \<mapsto> t\<lparr>th_mode := Waiting\<rparr>)\<rparr>)
      | (Sent resp u, br) \<Rightarrow>
          Ok (S\<lparr>sys_broker := br, sys_subs := (sys_subs S)(k \<mapsto>
                \<lparr>th_session = u, th_mode = Running, th_got = th_got t @ [string_of (pub_message resp)]\<rparr>)\<rparr>)
      | (Left _, br) \<Rightarrow>
          bindR (subscriber_end (th_session t) br) (\<lambda>(_, br).
          Ok (S\<lparr>sys_broker := br, sys_subs := (sys_subs S)(k := None)\<rparr>)))"

fun sys_next :: "action \<Rightarrow> system \<Rightarrow> system result" where
  "sys_next (Manage slack pipe write req) S =
     bindR (handle_manager slack pipe write req (sys_broker S)) (\<lambda>(_, _, br).
     Ok (S\<lparr>sys_broker := br,
           sys_subs := broadcast (\<lambda>i. used (sys_broker S) i \<and> \<not> used br i) (sys_subs S),
           sys_log := (\<lambda>i. if used br i then sys_log S i else [])\<rparr>))"
| "sys_next (Pub_start k pipe req) S =
     bindR (publisher_begin pipe req (sys_broker S)) (\<lambda>(next, br).
     Ok (case next of
           Inl _ \<Rightarrow> S\<lparr>sys_broker := br\<rparr>
         | Inr p \<Rightarrow> S\<lparr>sys_broker := br, sys_pubs := (sys_pubs S)(k \<mapsto> p)\<rparr>))"
| "sys_next (Pub_read k r) S =
     (case sys_pubs S k of
        None \<Rightarrow> Ok S
      | Some p \<Rightarrow>
          bindR (publisher_round p r (sys_broker S)) (\<lambda>(go_on, br).
          if go_on then
            Ok (S\<lparr>sys_broker := br, sys_subs := broadcast (\<lambda>i. i = pub_box p) (sys_subs S),
                  sys_log := (sys_log S)(pub_box p := sys_log S (pub_box p) @ [message_of r])\<rparr>)
          else
           bindR (publisher_end p br) (\<lambda>(_, br).
           Ok (S\<lparr>sys_broker := br, sys_pubs := (sys_pubs S)(k := None)\<rparr>))))"
| "sys_next (Sub_start k pipe req) S =
     bindR (subscriber_begin pipe req (sys_broker S)) (\<lambda>(next, br).
     Ok (case next of
           Inl _ \<Rightarrow> S\<lparr>sys_broker := br\<rparr>
         | Inr u \<Rightarrow> S\<lparr>sys_broker := br,
                      sys_subs := (sys_subs S)(k \<mapsto> \<lparr>th_session = u, th_mode = Running, th_got = []\<rparr>)\<rparr>))"
| "sys_next (Sub_run k write) S =
     (case sys_subs S k of
        None \<Rightarrow> Ok S
      | Some t \<Rightarrow>
          (case th_mode t of
             Waiting \<Rightarrow> Ok S
           | Running \<Rightarrow> bindR (subscriber_round write (th_session t) (sys_broker S)) (\<lambda>res. sub_goes_on k t res S)
           | Woken \<Rightarrow> bindR (subscriber_woken write (th_session t) (sys_broker S)) (\<lambda>res. sub_goes_on k t res S)))"
| "sys_next (Spurious k) S =
     (case sys_subs S k of
        Some t \<Rightarrow> Ok (if th_mode t = Waiting
                      then S\<lparr>sys_subs := (sys_subs S)(k \<mapsto> t\<lparr>th_mode := Woken\<rparr>)\<rparr> else S)
      | None \<Rightarrow> Ok S)"

text \<open>
  What the theorems ask of clients and of the surroundings: the name of a box is a string of at most 30
  bytes, the buffer that \<open>box_initialize\<close> overruns by a byte is followed by an unused byte, a
  message is a string, a new session has a new number, and no box with a session is deleted.
\<close>

definition request_ok :: "registration_request_t \<Rightarrow> bool" where
  "request_ok req \<longleftrightarrow>
     0 \<in> set (reg_box_name req) \<and> string_of (reg_box_name req) \<noteq> [] \<and> length (string_of (reg_box_name req)) \<le> 30"

definition idle_box :: "system \<Rightarrow> cstring \<Rightarrow> bool" where
  "idle_box S nm \<longleftrightarrow>
     (\<forall>k p. sys_pubs S k = Some p \<longrightarrow> label_at (sys_broker S) (pub_box p) \<noteq> nm) \<and>
     (\<forall>k t. sys_subs S k = Some t \<longrightarrow> label_at (sys_broker S) (th_box t) \<noteq> nm)"

fun action_ok :: "action \<Rightarrow> system \<Rightarrow> bool" where
  "action_ok (Manage slack pipe write req) S \<longleftrightarrow>
     0 < slack \<and> request_ok req \<and> (reg_op_code req = DELETE_BOX_OP \<longrightarrow> idle_box S (string_of (reg_box_name req)))"
| "action_ok (Pub_start k pipe req) S \<longleftrightarrow> sys_pubs S k = None \<and> request_ok req"
| "action_ok (Pub_read k r) S \<longleftrightarrow> (case r of Whole bs \<Rightarrow> length bs = sizeof_publisher \<and> 0 \<in> set (tl bs) | _ \<Rightarrow> True)"
| "action_ok (Sub_start k pipe req) S \<longleftrightarrow> sys_subs S k = None \<and> request_ok req"
| "action_ok (Sub_run k write) S \<longleftrightarrow> True"
| "action_ok (Spurious k) S \<longleftrightarrow> True"

inductive sys_step :: "system \<Rightarrow> system \<Rightarrow> bool" where
  sys_step: "action_ok x S \<Longrightarrow> sys_next x S = Ok S' \<Longrightarrow> sys_step S S'"

section \<open>The invariant\<close>

text \<open>Messages as they are stored, and a file that holds the first of them.\<close>

definition stream :: "cstring list \<Rightarrow> byte list" where
  "stream ms = concat (map (\<lambda>m. m @ [0]) ms)"

definition stored :: "byte list \<Rightarrow> nat" where
  "stored c = count_list c 0"

definition store_ok :: "nat \<Rightarrow> cstring list \<Rightarrow> byte list \<Rightarrow> bool" where
  "store_ok block ms c \<longleftrightarrow>
     (\<forall>m\<in>set ms. 0 \<notin> set m \<and> length m < MESSAGE_LENGTH) \<and> stored c \<le> length ms \<and>
     prefix (stream (take (stored c) ms)) c \<and>
     (stored c < length ms \<or> c \<noteq> stream ms \<longrightarrow> length c = block)"

definition pub_ok :: "broker \<Rightarrow> pub_session \<Rightarrow> bool" where
  "pub_ok br p \<longleftrightarrow> used br (pub_box p) \<and>
     a_handles (afs_of br) (pub_box_fd p) = Some (ino_at br (pub_box p), length (contents_at br (pub_box p)))"

definition sub_ok :: "broker \<Rightarrow> (nat \<Rightarrow> cstring list) \<Rightarrow> sub_thread \<Rightarrow> bool" where
  "sub_ok br log t \<longleftrightarrow>
     (let i = th_box t in
      used br i \<and> a_handles (afs_of br) (th_fd t) = Some (ino_at br i, length (stream (th_got t))) \<and>
      prefix (th_got t) (log i) \<and> length (th_got t) \<le> stored (contents_at br i) \<and>
      sub_total_read (th_session t) = of_nat (length (stream (th_got t))) \<and>
      (th_mode t = Waiting \<longrightarrow> length (stream (log i)) < 2 ^ 64 \<longrightarrow> th_got t = log i))"

definition pubs_on :: "(nat \<rightharpoonup> pub_session) \<Rightarrow> nat \<Rightarrow> nat set" where
  "pubs_on pubs i = {k. \<exists>p. pubs k = Some p \<and> pub_box p = i}"

definition subs_on :: "(nat \<rightharpoonup> sub_thread) \<Rightarrow> nat \<Rightarrow> nat set" where
  "subs_on subs i = {k. \<exists>t. subs k = Some t \<and> th_box t = i}"

definition box_ok :: "system \<Rightarrow> nat \<Rightarrow> bool" where
  "box_ok S i \<longleftrightarrow>
     (let br = sys_broker S; b = mbroker_boxes br ! i in
      store_ok (a_block (afs_of br)) (sys_log S i) (contents_at br i) \<and>
      box_size b = of_nat (length (stream (sys_log S i))) \<and>
      card (pubs_on (sys_pubs S) i) \<le> 1 \<and> box_n_publishers b = of_nat (card (pubs_on (sys_pubs S) i)) \<and>
      box_n_subscribers b = of_nat (card (subs_on (sys_subs S) i)))"

text \<open>The handle of a session.\<close>

definition fd_of :: "system \<Rightarrow> nat + nat \<Rightarrow> int option" where
  "fd_of S x = (case x of Inl k \<Rightarrow> map_option pub_box_fd (sys_pubs S k) | Inr k \<Rightarrow> map_option th_fd (sys_subs S k))"

definition fds_ok :: "system \<Rightarrow> bool" where
  "fds_ok S \<longleftrightarrow>
     (\<forall>x y fd. fd_of S x = Some fd \<longrightarrow> fd_of S y = Some fd \<longrightarrow> x = y) \<and>
     (\<forall>fd. a_handles (afs_of (sys_broker S)) fd \<noteq> None \<longrightarrow> (\<exists>x. fd_of S x = Some fd))"

definition sys_inv :: "system \<Rightarrow> bool" where
  "sys_inv S \<longleftrightarrow>
     boxes_inv (sys_broker S) \<and> MESSAGE_LENGTH \<ge> a_block (afs_of (sys_broker S)) \<and>
     (\<forall>k p. sys_pubs S k = Some p \<longrightarrow> pub_ok (sys_broker S) p) \<and>
     (\<forall>k t. sys_subs S k = Some t \<longrightarrow> sub_ok (sys_broker S) (sys_log S) t) \<and>
     (\<forall>i. used (sys_broker S) i \<longrightarrow> box_ok S i) \<and> (\<forall>i. \<not> used (sys_broker S) i \<longrightarrow> sys_log S i = []) \<and>
     fds_ok S \<and> finite (dom (sys_pubs S)) \<and> finite (dom (sys_subs S)) \<and>
     box_count (sys_broker S) = int (card {i. used (sys_broker S) i})"

end
