(* ===== verification/Sessions_Inv.thy ===== *)
theory Sessions_Inv
  imports Sessions
begin

text \<open>Every step of the broker with its sessions keeps the invariant, and no step fails.\<close>

section \<open>Stored messages\<close>

lemma stream_simps [simp]: "stream [] = []" "stream (m # ms) = m @ 0 # stream ms" "stream (ms @ ms') = stream ms @ stream ms'"
  by (simp_all add: stream_def)

lemma stored_simps [simp]: "stored [] = 0" "stored (c @ d) = stored c + stored d"
  "stored (b # c) = (if b = 0 then 1 else 0) + stored c"
  by (simp_all add: stored_def)

lemma stored_none: "0 \<notin> set c \<Longrightarrow> stored c = 0"
  by (simp add: stored_def)

lemma stored_0D: "stored c = 0 \<Longrightarrow> 0 \<notin> set c"
  by (simp add: stored_def count_list_0_iff)

lemma stored_stream: "\<forall>m\<in>set ms. 0 \<notin> set m \<Longrightarrow> stored (stream ms) = length ms"
  by (induction ms) (simp_all add: stored_none)

lemma stream_mono: "prefix ms ms' \<Longrightarrow> prefix (stream ms) (stream ms')"
  by (auto simp: prefix_def)

text \<open>An accepted message.\<close>

lemma store_ok_append:
  assumes ok: "store_ok block ms c" and m: "0 \<notin> set m" "length m < MESSAGE_LENGTH"
    and len: "length c + length m \<le> block"
  shows "store_ok block (ms @ [m]) (c @ take (block - length c) (m @ [0]))" (is "store_ok _ _ ?c")
proof (cases "length c = block")
  case True
  with ok m len show ?thesis by (auto simp: store_ok_def)
next
  case False
  with ok have c: "c = stream ms" "stored c = length ms" by (auto simp: store_ok_def)
  show ?thesis
  proof (cases "length c + length m = block")
    case True
    then have "?c = stream ms @ m" using c by simp
    with True c ok m show ?thesis by (auto simp: store_ok_def stored_none)
  next
    case False
    with len have "?c = stream (ms @ [m])" using c by simp
    moreover have "stored (stream (ms @ [m])) = length (ms @ [m])"
      using ok m by (intro stored_stream) (auto simp: store_ok_def)
    ultimately show ?thesis using ok m by (auto simp: store_ok_def)
  qed
qed

text \<open>A message that does not fit fills the block and ends the session of the publisher.\<close>

lemma store_ok_cut:
  assumes ok: "store_ok block ms c" and m: "0 \<notin> set m" and len: "length c \<le> block" "block < length c + length m"
  shows "store_ok block ms (c @ take (block - length c) (m @ [0]))" (is "store_ok _ _ ?c")
proof -
  have t: "take (block - length c) (m @ [0]) = take (block - length c) m" using len by simp
  have "0 \<notin> set (take (block - length c) m)" using m by (meson in_set_takeD)
  with ok t len show ?thesis by (auto simp: store_ok_def stored_none)
qed

text \<open>What a subscriber that was sent \<open>got\<close> finds next.\<close>

lemma next_message:
  assumes ok: "store_ok block ms c" and got: "prefix got ms" "length got < stored c"
  shows "drop (length (stream got)) c = ms ! length got @ 0 # drop (length (stream got) + length (ms ! length got) + 1) c"
    "length (stream got) + length (ms ! length got) + 1 \<le> length c"
proof -
  let ?k = "length got" and ?n = "stored c"
  have n: "?n \<le> length ms" and pre: "prefix (stream (take ?n ms)) c" using ok by (auto simp: store_ok_def)
  obtain ys where ys: "ms = got @ ys" using got(1) by (auto simp: prefix_def)
  with got(2) n obtain m zs where zs: "ys = m # zs" by (cases ys) auto
  have "take ?n ms = got @ m # take (?n - ?k - 1) zs" using got(2) ys zs by (simp add: take_Cons')
  with pre obtain r where "c = stream got @ m @ 0 # r" by (auto simp: prefix_def)
  with ys zs show "drop (length (stream got)) c = ms ! length got @ 0 # drop (length (stream got) + length (ms ! length got) + 1) c"
    "length (stream got) + length (ms ! length got) + 1 \<le> length c" by simp_all
qed

lemma no_message:
  assumes ok: "store_ok block ms c" and got: "prefix got ms" "length got = stored c"
  shows "0 \<notin> set (drop (length (stream got)) c)" "length (stream got) \<le> length c"
proof -
  have "take (stored c) ms = got" using got by (metis append_eq_conv_conj prefixE)
  with ok obtain r where r: "c = stream got @ r" by (auto simp: store_ok_def prefix_def)
  have "stored (stream got) = length got"
    using ok got(1) by (intro stored_stream) (auto simp: store_ok_def prefix_def)
  with r got(2) have "stored r = 0" by simp
  with r stored_0D show "0 \<notin> set (drop (length (stream got)) c)" "length (stream got) \<le> length c" by auto
qed

section \<open>One box changes\<close>

definition touch :: "nat \<Rightarrow> box_t \<Rightarrow> fs2_state \<Rightarrow> broker \<Rightarrow> broker" where
  "touch i b fs br = br\<lparr>broker_fs := fs, mbroker_boxes := (mbroker_boxes br)[i := b]\<rparr>"

lemma touch_simps [simp]:
  "broker_fs (touch i b fs br) = fs" "mbroker_boxes (touch i b fs br) = (mbroker_boxes br)[i := b]"
  "box_count (touch i b fs br) = box_count br" "box_count_max (touch i b fs br) = box_count_max br"
  "mbroker_boxes_lock (touch i b fs br) = mbroker_boxes_lock br"
  by (simp_all add: touch_def)

text \<open>
  A step of a session on box \<open>i\<close>: the counters of the box change, the contents of its file become
  \<open>c\<close>, and handles move.
\<close>

definition touches :: "broker \<Rightarrow> nat \<Rightarrow> box_t \<Rightarrow> fs2_state \<Rightarrow> byte list \<Rightarrow> bool" where
  "touches br i b fs c \<longleftrightarrow>
     used br i \<and> fs2_inv fs \<and>
     box_name b = box_name (mbroker_boxes br ! i) \<and> box_alloc_state b = USED \<and> \<not> box_mutex b \<and>
     a_names (abs_fs2 fs) = a_names (afs_of br) \<and>
     a_nodes (abs_fs2 fs) = (a_nodes (afs_of br))(ino_at br i \<mapsto> File c) \<and>
     a_block (abs_fs2 fs) = a_block (afs_of br) \<and> a_slots (abs_fs2 fs) = a_slots (afs_of br) \<and>
     length c \<le> a_block (afs_of br)"

lemma touchesD:
  assumes "touches br i b fs c"
  shows "used br i" "fs2_inv fs" "box_name b = box_name (mbroker_boxes br ! i)" "box_alloc_state b = USED" "\<not> box_mutex b"
    "a_names (abs_fs2 fs) = a_names (afs_of br)" "a_nodes (abs_fs2 fs) = (a_nodes (afs_of br))(ino_at br i \<mapsto> File c)"
    "a_block (abs_fs2 fs) = a_block (afs_of br)" "a_slots (abs_fs2 fs) = a_slots (afs_of br)" "length c \<le> a_block (afs_of br)"
  using assms unfolding touches_def by blast+

lemma touches_views:
  assumes inv: "boxes_inv br" and t: "touches br i b fs c"
  shows "used (touch i b fs br) = used br" "label_at (touch i b fs br) j = label_at br j"
    "ino_at (touch i b fs br) j = ino_at br j" "boxes_inv (touch i b fs br)"
    "used br j \<Longrightarrow> contents_at (touch i b fs br) j = (if j = i then c else contents_at br j)"
proof -
  note I = boxes_invD [OF inv] and T = table_okD [OF boxes_invD(2) [OF inv]] and D = touchesD [OF t]
  note len = usedD [OF I(2) D(1)]
  have box: "(mbroker_boxes br)[i := b] ! j = (if j = i then b else mbroker_boxes br ! j)" for j
    using len by (cases "j = i") auto
  show u: "used (touch i b fs br) = used br"
    using D(4) len by (auto simp: used_def box fun_eq_iff)
  have lab: "label_at (touch i b fs br) j = label_at br j" for j using D(3) by (simp add: box label_of_def)
  then show "label_at (touch i b fs br) j = label_at br j" .
  have ino: "ino_at (touch i b fs br) j = ino_at br j" for j
    unfolding ino_at_def lab by (simp add: D(6) del: abs_simps)
  then show "ino_at (touch i b fs br) j = ino_at br j" .
  show cont: "contents_at (touch i b fs br) j = (if j = i then c else contents_at br j)" if "used br j" for j
    unfolding contents_at_def ino using ino_inj [OF inv that D(1)] by (auto simp: D(7) simp del: abs_simps)
  have "table_ok (touch i b fs br)"
  proof -
    have "box_wf (mbroker_boxes (touch i b fs br) ! j)" if "used br j" for j
      using T(4) [OF that] D(3) by (cases "j = i") (simp_all add: box_wf_def label_of_def box)
    moreover have "\<not> box_mutex (mbroker_boxes (touch i b fs br) ! j)" if "j < box_count_max br" for j
      using T(3) [OF that] D(5) by (simp add: box)
    ultimately show ?thesis using T(1,2,5) unfolding table_ok_def u lab by simp
  qed
  moreover have "afs_ok (abs_fs2 fs)"
  proof -
    note A = afs_okD [OF I(3)]
    have "\<exists>c'. ((a_nodes (afs_of br))(ino_at br i \<mapsto> File c)) k = Some (File c') \<and> length c' \<le> a_block (afs_of br)"
      if "a_names (afs_of br) nm = Some k" for nm k
      using A(4) [OF that] D(10) by (cases "k = ino_at br i") simp_all
    with A show ?thesis unfolding afs_ok_def D(6-9) by blast
  qed
  moreover have "files_ok (touch i b fs br)"
  proof -
    have "k \<noteq> ino_at br i" if "a_names (afs_of br) nm = Some k" "\<forall>j. used br j \<longrightarrow> label_at br j \<noteq> nm" for nm k
      using afs_okD(5) [OF I(3) that(1), of "label_at br i"] used_file(1) [OF inv D(1)] D(1) that(2) by blast
    with I(4) show ?thesis
      unfolding files_ok_def u lab by (simp add: D(6,7) del: abs_simps)
  qed
  ultimately show "boxes_inv (touch i b fs br)" using D(2,9) I(5) by (simp add: boxes_inv_def del: abs_simps)
qed

text \<open>What becomes of the sessions.\<close>

lemma pub_ok_touch:
  assumes inv: "boxes_inv br" and t: "touches br i b fs c" and p: "pub_ok br p"
    and same: "a_handles (abs_fs2 fs) (pub_box_fd p) = a_handles (afs_of br) (pub_box_fd p)"
      "pub_box p = i \<Longrightarrow> length c = length (contents_at br i)"
  shows "pub_ok (touch i b fs br) p"
  using p same touches_views [OF inv t] by (auto simp: pub_ok_def simp del: abs_simps)

lemma sub_ok_touch:
  assumes inv: "boxes_inv br" and t: "touches br i b fs c" and u: "sub_ok br log t"
    and same: "a_handles (abs_fs2 fs) (th_fd t) = a_handles (afs_of br) (th_fd t)"
      "th_box t = i \<Longrightarrow> stored (contents_at br i) \<le> stored c" "prefix (log (th_box t)) (log' (th_box t))"
    and waits: "th_mode t' = Waiting \<Longrightarrow> th_mode t = Waiting \<and> log' (th_box t) = log (th_box t)"
    and t': "th_session t' = th_session t" "th_got t' = th_got t"
  shows "sub_ok (touch i b fs br) log' t'"
proof -
  have u2: "used br (th_box t)" "prefix (th_got t) (log (th_box t))" using u by (simp_all add: sub_ok_def Let_def)
  then have "prefix (th_got t) (log' (th_box t))" using same(3) prefix_order.trans by blast
  with u same(1,2) waits touches_views [OF inv t] u2(1) show ?thesis
    unfolding sub_ok_def Let_def t' by (auto simp del: abs_simps)
qed

section \<open>The handlers\<close>

lemma string_at_nul:
  assumes "0 \<in> set bs"
  shows "string_at bs 0 = Ok (string_of bs)" "0 \<notin> set (string_of bs)" "length (string_of bs) < length bs"
proof -
  obtain xs ys where "bs = xs @ 0 # ys" "0 \<notin> set xs" using split_list_first [OF assms] by blast
  moreover then have "takeWhile (\<lambda>c. c \<noteq> 0) bs = xs" by (auto simp: takeWhile_append2 takeWhile_append1 takeWhile_tail)
  ultimately show "string_at bs 0 = Ok (string_of bs)" "0 \<notin> set (string_of bs)" "length (string_of bs) < length bs"
    by (simp_all add: string_at_def string_of_def)
qed

lemma request_name: "request_ok req \<Longrightarrow> string_at (reg_box_name req) 0 = Ok (string_of (reg_box_name req))"
  by (simp add: request_ok_def string_at_nul)

lemma request_label: "request_ok req \<Longrightarrow> label_ok (string_of (reg_box_name req))"
  by (auto simp: request_ok_def label_ok_def string_of_def dest: set_takeWhileD)

lemma same_broker: "br\<lparr>mbroker_boxes := mbroker_boxes br\<rparr> = br" "br\<lparr>broker_fs := broker_fs br\<rparr> = br"
  by simp_all

lemma table_ok_fs: "table_ok (br\<lparr>broker_fs := fs\<rparr>) = table_ok br"
  by (simp add: table_ok_def used_def)

lemma publisher_begin_cases:
  assumes inv: "boxes_inv br" and req: "request_ok req"
  obtains (refused) fs where "publisher_begin pipe req br = Ok (Inl (-1), br\<lparr>broker_fs := fs\<rparr>)"
      "fs2_inv fs" "abs_fs2 fs = afs_of br"
  | (begins) i k fs where "used br i" "label_at br i = string_of (reg_box_name req)" "a_new_handle (afs_of br) = Some k"
      "box_n_publishers (mbroker_boxes br ! i) \<noteq> 1"
      "publisher_begin pipe req br = Ok (Inr \<lparr>pub_box = i, pub_box_fd = int k\<rparr>,
         touch i ((mbroker_boxes br ! i)\<lparr>box_n_publishers := box_n_publishers (mbroker_boxes br ! i) + 1\<rparr>) fs br)"
      "fs2_inv fs" "abs_fs2 fs = moved (int k) (ino_at br i) (length (contents_at br i)) (afs_of br)"
proof -
  note I = boxes_invD [OF inv] and T = table_okD [OF boxes_invD(2) [OF inv]]
  let ?nm = "string_of (reg_box_name req)"
  have nm: "label_ok ?nm" using request_label [OF req] .
  note start = request_name [OF req]
  show thesis
  proof (cases pipe)
    case False
    then show thesis using refused [of "broker_fs br"] I(1) by (simp add: publisher_begin_def)
  next
    case True
    from nm have "0 \<notin> set ?nm" by (simp add: label_ok_def)
    from I(2) this show thesis
    proof (cases rule: get_box_cases)
      case none
      with True start show thesis using refused [of "broker_fs br"] I(1) by (simp add: publisher_begin_def)
    next
      case (box i)
      let ?b = "mbroker_boxes br ! i"
      note len = usedD [OF I(2) box(2)]
      note ops = True start box(1) len box_wf_path [OF T(4) [OF box(2)]]
      show thesis
      proof (cases "box_n_publishers ?b = 1")
        case True
        with ops have "publisher_begin pipe req br = Ok (Inl (-1), br)"
          by (simp add: publisher_begin_def box_lock_eq box_unlock_eq unlocked_box)
        with refused [of "broker_fs br"] I(1) show thesis by simp
      next
        case np: False
        from I(1) nm used_file [OF inv box(2)] box(3) have
          fl: "a_names (afs_of br) ?nm = Some (ino_at br i)" "a_nodes (afs_of br) (ino_at br i) = Some (File (contents_at br i))"
          by simp_all
        from I(1) nm fl flags(4) show thesis
        proof (cases rule: open_box)
          case (full s')
          with ops np box(3) have "publisher_begin pipe req br = Ok (Inl (-1), br\<lparr>broker_fs := s'\<rparr>)"
            by (simp add: publisher_begin_def box_lock_eq box_unlock_eq unlocked_box Let_def)
          with refused full show thesis by blast
        next
          case (fd k s')
          with ops np box(3) have "publisher_begin pipe req br = Ok (Inr \<lparr>pub_box = i, pub_box_fd = int k\<rparr>,
              touch i (?b\<lparr>box_n_publishers := box_n_publishers ?b + 1\<rparr>) s' br)"
            by (simp add: publisher_begin_def box_lock_eq box_unlock_eq unlocked_box put_box_def touch_def Let_def)
          with begins [OF box(2,3) fd(1) np] fd(3,4) show thesis by simp
        qed
      qed
    qed
  qed
qed

lemma subscriber_begin_cases:
  assumes inv: "boxes_inv br" and req: "request_ok req"
  obtains (refused) fs where "subscriber_begin pipe req br = Ok (Inl (-1), br\<lparr>broker_fs := fs\<rparr>)"
      "fs2_inv fs" "abs_fs2 fs = afs_of br"
  | (begins) i k fs where "used br i" "label_at br i = string_of (reg_box_name req)" "a_new_handle (afs_of br) = Some k"
      "subscriber_begin pipe req br = Ok (Inr \<lparr>sub_box = i, sub_box_fd = int k, sub_total_read = 0\<rparr>,
         touch i ((mbroker_boxes br ! i)\<lparr>box_n_subscribers := box_n_subscribers (mbroker_boxes br ! i) + 1\<rparr>) fs br)"
      "fs2_inv fs" "abs_fs2 fs = moved (int k) (ino_at br i) 0 (afs_of br)"
proof -
  note I = boxes_invD [OF inv] and T = table_okD [OF boxes_invD(2) [OF inv]]
  let ?nm = "string_of (reg_box_name req)"
  have nm: "label_ok ?nm" using request_label [OF req] .
  note start = request_name [OF req]
  show thesis
  proof (cases pipe)
    case False
    then show thesis using refused [of "broker_fs br"] I(1) by (simp add: subscriber_begin_def)
  next
    case True
    from nm have "0 \<notin> set ?nm" by (simp add: label_ok_def)
    from I(2) this show thesis
    proof (cases rule: get_box_cases)
      case none
      with True start show thesis using refused [of "broker_fs br"] I(1) by (simp add: subscriber_begin_def)
    next
      case (box i)
      let ?b = "mbroker_boxes br ! i"
      note len = usedD [OF I(2) box(2)]
      note ops = True start box(1) len box_wf_path [OF T(4) [OF box(2)]]
      from used_file [OF inv box(2)] box(3) have
        fl: "a_names (afs_of br) ?nm = Some (ino_at br i)" "a_nodes (afs_of br) (ino_at br i) = Some (File (contents_at br i))"
        by simp_all
      from I(1) nm fl flags(2) show thesis
      proof (cases rule: open_box)
        case (full s')
        with ops box(3) have "subscriber_begin pipe req br = Ok (Inl (-1), br\<lparr>broker_fs := s'\<rparr>)"
          by (simp add: subscriber_begin_def box_lock_eq box_unlock_eq unlocked_box Let_def)
        with refused full show thesis by blast
      next
        case (fd k s')
        with ops box(3) have "subscriber_begin pipe req br =
            Ok (Inr \<lparr>sub_box = i, sub_box_fd = int k, sub_total_read = 0\<rparr>,
              touch i (?b\<lparr>box_n_subscribers := box_n_subscribers ?b + 1\<rparr>) s' br)"
          by (simp add: subscriber_begin_def box_lock_eq box_unlock_eq unlocked_box put_box_def touch_def Let_def)
        with begins [OF box(2,3) fd(1)] fd(3,4) show thesis by simp
      qed
    qed
  qed
qed

lemma pub_stands:
  assumes "boxes_inv br" "pub_ok br p"
  shows "stands (afs_of br) (pub_box_fd p) (ino_at br (pub_box p)) (length (contents_at br (pub_box p)))
    (contents_at br (pub_box p))"
  using assms used_file(2) [OF assms(1)] by (simp add: stands_def pub_ok_def)

text \<open>One round of a publisher.\<close>

lemma publisher_round_cases:
  assumes inv: "boxes_inv br" and p: "pub_ok br p" and bs: "length bs = sizeof_publisher" "0 \<in> set (tl bs)"
  defines "m \<equiv> message_of (Whole bs)" and "i \<equiv> pub_box p"
  defines "c \<equiv> contents_at br i" and "b \<equiv> mbroker_boxes br ! i" and "a \<equiv> afs_of br"
  obtains (accepted) fs where "length c + length m \<le> a_block a" "c \<noteq> [] \<or> 0 < a_free a"
      "publisher_round p (Whole bs) br =
         Ok (True, touch i (b\<lparr>box_size := box_size b + of_nat (length m) + 1\<rparr>) fs br)"
      "fs2_inv fs" "abs_fs2 fs = appended (pub_box_fd p) (ino_at br i) c (take (a_block a - length c) (m @ [0])) a"
  | (rejected) fs where "a_block a < length c + length m" "publisher_round p (Whole bs) br = Ok (False, br\<lparr>broker_fs := fs\<rparr>)"
      "fs2_inv fs" "abs_fs2 fs = appended (pub_box_fd p) (ino_at br i) c (take (a_block a - length c) (m @ [0])) a"
  | (no_block) fs where "c = []" "a_free a = 0" "publisher_round p (Whole bs) br = Ok (False, br\<lparr>broker_fs := fs\<rparr>)"
      "fs2_inv fs" "abs_fs2 fs = a"
proof -
  note I = boxes_invD [OF inv]
  have u: "used br i" using p by (simp add: pub_ok_def i_def)
  note len = usedD [OF I(2) u] and cb = used_file(3) [OF inv u]
  have st: "stands a (pub_box_fd p) (ino_at br i) (length c) c"
    using pub_stands [OF inv p] by (simp add: a_def c_def i_def)
  have eq: "pub_message (publisher_of bs) = tl bs" using bs by (cases bs) (simp_all add: publisher_of_def read_at_def)
  have m: "string_at (pub_message (publisher_of bs)) 0 = Ok m" "length m < 2 ^ 63"
    using string_at_nul [OF bs(2)] bs(1) by (simp_all add: m_def eq)
  have round: "publisher_round p (Whole bs) br =
      bindR (write_message (pub_box_fd p) m (broker_fs br)) (\<lambda>(ret, fs).
        if ret = -1 then Ok (False, br\<lparr>broker_fs := fs\<rparr>)
        else Ok (True, touch i (b\<lparr>box_size := box_size b + word_of_int ret + 1\<rparr>) fs br))"
    using len m(1)
    by (auto simp: publisher_round_def i_def [symmetric] b_def box_lock_eq box_unlock_eq unlocked_box put_box_def Let_def
        touch_def intro!: arg_cong2 [of _ _ _ _ bindR] ext split: if_splits)
  show thesis
  proof (cases "c \<noteq> [] \<or> 0 < a_free a")
    case True
    obtain fs where fs: "write_message (pub_box_fd p) m (broker_fs br) =
        Ok (if length c + length m \<le> a_block a then int (length m) else -1, fs)" "fs2_inv fs"
      "abs_fs2 fs = appended (pub_box_fd p) (ino_at br i) c (take (a_block a - length c) (m @ [0])) a"
      using write_message_appends [OF I(1) st [unfolded a_def] m(2), folded a_def] cb True by (auto simp: c_def a_def)
    with True round accepted [of fs] rejected [of fs] show thesis
      by (cases "length c + length m \<le> a_block a") simp_all
  next
    case False
    then have none: "c = []" "a_free a = 0" by simp_all
    obtain fs where "write_message (pub_box_fd p) m (broker_fs br) = Ok (-1, fs)" "fs2_inv fs" "abs_fs2 fs = a"
      using write_message_no_block [OF I(1) _ m(2), of "pub_box_fd p" "ino_at br i"] st none afs_okD(3) [OF I(3)]
      by (auto simp: a_def)
    with none round no_block [of fs] show thesis by simp
  qed
qed

text \<open>Closing a handle.\<close>

definition without :: "int \<Rightarrow> afs \<Rightarrow> afs" where
  "without fd a = a\<lparr>a_handles := (a_handles a)(fd := None)\<rparr>"

lemma without_simps [simp]:
  "a_names (without fd a) = a_names a" "a_nodes (without fd a) = a_nodes a" "a_block (without fd a) = a_block a"
  "a_slots (without fd a) = a_slots a" "a_handles (without fd a) = (a_handles a)(fd := None)"
  "without fd (moved fd i off a) = without fd a"
  by (simp_all add: without_def moved_def)

lemma close_session:
  assumes "fs2_inv s" "a_handles (abs_fs2 s) fd \<noteq> None"
  obtains s' where "tfs_close2 fd s = Ok (0, s')" "fs2_inv s'" "abs_fs2 s' = without fd (abs_fs2 s)"
proof -
  obtain r s' where c: "tfs_close2 fd s = Ok (r, s')" "fs2_inv s'" "a_close fd (abs_fs2 s) = (r, abs_fs2 s')"
    using abs_close2 [OF assms(1)] by blast
  moreover have "a_close fd (abs_fs2 s) = (0, without fd (abs_fs2 s))"
    unfolding a_close_def without_def using assms(2) by (simp only: if_False)
  ultimately show thesis using that [of s'] by simp
qed

lemma publisher_end_eq:
  assumes "table_ok br" "used br (pub_box p)" "fs2_inv (broker_fs br)" "a_handles (afs_of br) (pub_box_fd p) \<noteq> None"
  obtains fs where "publisher_end p br = Ok (0, touch (pub_box p)
      ((mbroker_boxes br ! pub_box p)\<lparr>box_n_publishers := box_n_publishers (mbroker_boxes br ! pub_box p) - 1\<rparr>) fs br)"
    "fs2_inv fs" "abs_fs2 fs = without (pub_box_fd p) (afs_of br)"
proof -
  obtain fs where fs: "tfs_close2 (pub_box_fd p) (broker_fs br) = Ok (0, fs)" "fs2_inv fs"
    "abs_fs2 fs = without (pub_box_fd p) (afs_of br)" using close_session [OF assms(3,4)] by blast
  have "publisher_end p br = Ok (0, touch (pub_box p)
      ((mbroker_boxes br ! pub_box p)\<lparr>box_n_publishers := box_n_publishers (mbroker_boxes br ! pub_box p) - 1\<rparr>) fs br)"
    using usedD [OF assms(1,2)] fs(1)
    by (simp add: publisher_end_def box_lock_eq box_unlock_eq unlocked_box put_box_def touch_def)
  with that fs(2,3) show thesis by blast
qed

text \<open>A subscriber with the mutex of its box: the next message, or the end of the session.\<close>

lemma subscriber_response_eq:
  "length m < MESSAGE_LENGTH \<Longrightarrow>
     subscriber_response_init m = Ok (0, \<lparr>pub_op_code = SUBSCRIBER_OP_CODE, pub_message = pad MESSAGE_LENGTH m\<rparr>)"
  by (simp add: subscriber_response_init_def strcpy_zeros)

lemma string_of_pad: "0 \<notin> set m \<Longrightarrow> length m < n \<Longrightarrow> string_of (pad n m) = m"
  by (simp add: string_of_def takeWhile_pad)

definition response_of :: "cstring \<Rightarrow> publisher_request_t" where
  "response_of m = \<lparr>pub_op_code = SUBSCRIBER_OP_CODE, pub_message = pad MESSAGE_LENGTH m\<rparr>"

lemma subscriber_end_locked:
  assumes i: "i < length (mbroker_boxes br)" and u: "sub_box u = i"
    and fs: "fs2_inv fs" "a_handles (abs_fs2 fs) (sub_box_fd u) \<noteq> None"
  defines "b \<equiv> mbroker_boxes br ! i"
  assumes nb: "\<not> box_mutex b"
  obtains fs' where "subscriber_end u (touch i (b\<lparr>box_mutex := True\<rparr>) fs br) =
      Ok (0, touch i (b\<lparr>box_n_subscribers := box_n_subscribers b - 1\<rparr>) fs' br)"
    "fs2_inv fs'" "abs_fs2 fs' = without (sub_box_fd u) (abs_fs2 fs)"
proof -
  obtain fs' where fs': "tfs_close2 (sub_box_fd u) fs = Ok (0, fs')" "fs2_inv fs'"
    "abs_fs2 fs' = without (sub_box_fd u) (abs_fs2 fs)" using close_session [OF fs] by blast
  have "subscriber_end u (touch i (b\<lparr>box_mutex := True\<rparr>) fs br) =
      Ok (0, touch i (b\<lparr>box_n_subscribers := box_n_subscribers b - 1\<rparr>) fs' br)"
    using i u nb fs'(1) by (simp add: subscriber_end_def put_box_def box_unlock_eq touch_def unlocked_box)
  with that fs'(2,3) show thesis by blast
qed

lemma subscriber_woken_cases:
  assumes inv: "boxes_inv br" and t: "sub_ok br log t" and st: "store_ok (a_block (afs_of br)) (log (th_box t)) (contents_at br (th_box t))"
    and small: "a_block (afs_of br) \<le> MESSAGE_LENGTH"
  defines "i \<equiv> th_box t" and "got \<equiv> th_got t"
  defines "b \<equiv> mbroker_boxes br ! i" and "m \<equiv> log i ! length got"
  obtains (sent) fs where "length got < stored (contents_at br i)" "subscriber_response_send wr (response_of m) = 0"
      "subscriber_woken wr (th_session t) br = Ok (Sent (response_of m)
         ((th_session t)\<lparr>sub_total_read := of_nat (length (stream (got @ [m])))\<rparr>), touch i b fs br)"
      "fs2_inv fs" "abs_fs2 fs = moved (th_fd t) (ino_at br i) (length (stream (got @ [m]))) (afs_of br)"
      "0 \<notin> set m" "length m < MESSAGE_LENGTH"
  | (left) x fs off where "length got = stored (contents_at br i) \<or> subscriber_response_send wr (response_of m) \<noteq> 0"
      "subscriber_woken wr (th_session t) br = Ok (Left x, touch i (b\<lparr>box_mutex := True\<rparr>) fs br)"
      "fs2_inv fs" "abs_fs2 fs = moved (th_fd t) (ino_at br i) off (afs_of br)"
proof -
  note I = boxes_invD [OF inv]
  have u: "used br i" "a_handles (afs_of br) (th_fd t) = Some (ino_at br i, length (stream got))"
    "prefix got (log i)" "length got \<le> stored (contents_at br i)"
    "sub_total_read (th_session t) = of_nat (length (stream got))"
    using t by (simp_all add: sub_ok_def Let_def i_def got_def)
  note len = usedD [OF I(2) u(1)] and F = used_file [OF inv u(1)]
  note st = st [folded i_def]
  have sub: "sub_box (th_session t) = i" by (simp add: i_def)
  let ?c = "contents_at br i" and ?br = "touch i (b\<lparr>box_mutex := True\<rparr>) (broker_fs br) br"
  have woken: "subscriber_woken wr (th_session t) br = subscriber_deliver wr (th_session t) ?br"
    using len by (simp add: subscriber_woken_def sub box_lock_eq b_def touch_def)
  show thesis
  proof (cases "length got = stored ?c")
    case True
    note nm = no_message [OF st u(3) True]
    have stand: "stands (afs_of br) (th_fd t) (ino_at br i) (length (stream got)) ?c"
      using u(2) F(2) nm(2) by (simp add: stands_def)
    have "length (drop (length (stream got)) ?c) \<le> MESSAGE_LENGTH" using F(3) small by simp
    then obtain fs where fs: "read_message MESSAGE_LENGTH (th_fd t) (broker_fs br) = Ok (-1, drop (length (stream got)) ?c, fs)"
      "fs2_inv fs" "abs_fs2 fs = moved (th_fd t) (ino_at br i) (length ?c) (afs_of br)"
      using read_message_end [OF I(1) stand nm(1)] by blast
    then have "subscriber_deliver wr (th_session t) ?br = Ok (Left None, touch i (b\<lparr>box_mutex := True\<rparr>) fs br)"
      by (simp add: subscriber_deliver_def touch_def Let_def)
    with left woken fs(2,3) True show thesis by simp
  next
    case False
    then have lt: "length got < stored ?c" using u(4) by simp
    note nx = next_message [OF st u(3) lt, folded m_def]
    have "m \<in> set (log i)" using lt st by (auto simp: store_ok_def m_def)
    then have m: "0 \<notin> set m" "length m < MESSAGE_LENGTH" using st by (auto simp: store_ok_def)
    have stand: "stands (afs_of br) (th_fd t) (ino_at br i) (length (stream got)) ?c"
      using u(2) F(2) nx(2) by (simp add: stands_def)
    obtain fs where fs: "read_message MESSAGE_LENGTH (th_fd t) (broker_fs br) = Ok (int (length m + 1), m @ [0], fs)"
      "fs2_inv fs" "abs_fs2 fs = moved (th_fd t) (ino_at br i) (length (stream got) + length m + 1) (afs_of br)"
      using read_message_next [OF I(1) stand nx(1) m] by blast
    have str: "string_at (m @ [0]) 0 = Ok m" by (rule string_at_terminated) (use m(1) in \<open>simp_all add: read_at_def\<close>)
    have ms: "length (stream (got @ [m])) = length (stream got) + length m + 1" by simp
    have total: "sub_total_read (th_session t) + word_of_int (int (length m + 1)) = of_nat (length (stream (got @ [m])))"
      using u(5) by simp
    note parts = fs(1) str subscriber_response_eq [OF m(2)] total len
    show thesis
    proof (cases "subscriber_response_send wr (response_of m) = 0")
      case True
      with parts have "subscriber_deliver wr (th_session t) ?br = Ok (Sent (response_of m)
          ((th_session t)\<lparr>sub_total_read := of_nat (length (stream (got @ [m])))\<rparr>), touch i b fs br)"
        by (simp add: subscriber_deliver_def touch_def Let_def sub b_def response_of_def box_unlock_eq unlocked_box del: stream_simps)
      with sent [OF lt True] woken fs(2,3) ms m show thesis by simp
    next
      case False
      with parts have "subscriber_deliver wr (th_session t) ?br =
          Ok (Left (Some (response_of m)), touch i (b\<lparr>box_mutex := True\<rparr>) fs br)"
        by (simp add: subscriber_deliver_def touch_def Let_def sub b_def response_of_def)
      with left woken fs(2,3) False show thesis by simp
    qed
  qed
qed

lemma subscriber_round_eq:
  assumes "boxes_inv br" "sub_ok br log t"
  shows "subscriber_round wr (th_session t) br =
    (if sub_total_read (th_session t) \<ge> box_size (mbroker_boxes br ! th_box t) then Ok (Asleep, br)
     else subscriber_woken wr (th_session t) br)"
proof -
  have "used br (th_box t)" using assms(2) by (simp add: sub_ok_def Let_def)
  from usedD [OF boxes_invD(2) [OF assms(1)] this] show ?thesis
    by (simp add: subscriber_round_def subscriber_woken_def box_lock_eq box_unlock_eq unlocked_box)
qed

end
