(* ===== verification/Sessions_Keep.thy ===== *)
theory Sessions_Keep
  imports Sessions_Inv
begin

text \<open>The steps of the broker with its sessions, one by one: each returns and keeps the invariant.\<close>

section \<open>The invariant taken apart\<close>

lemma sys_invD:
  assumes "sys_inv S"
  shows "boxes_inv (sys_broker S)" "a_block (afs_of (sys_broker S)) \<le> MESSAGE_LENGTH"
    "sys_pubs S k = Some p \<Longrightarrow> pub_ok (sys_broker S) p"
    "sys_subs S k = Some t \<Longrightarrow> sub_ok (sys_broker S) (sys_log S) t"
    "used (sys_broker S) i \<Longrightarrow> box_ok S i" "\<not> used (sys_broker S) i \<Longrightarrow> sys_log S i = []"
    "fds_ok S" "finite (dom (sys_pubs S))" "finite (dom (sys_subs S))"
    "box_count (sys_broker S) = int (card {i. used (sys_broker S) i})"
  using assms by (auto simp: sys_inv_def)

lemma box_okD:
  assumes "box_ok S i"
  shows "store_ok (a_block (afs_of (sys_broker S))) (sys_log S i) (contents_at (sys_broker S) i)"
    "box_size (mbroker_boxes (sys_broker S) ! i) = of_nat (length (stream (sys_log S i)))"
    "card (pubs_on (sys_pubs S) i) \<le> 1" "box_n_publishers (mbroker_boxes (sys_broker S) ! i) = of_nat (card (pubs_on (sys_pubs S) i))"
    "box_n_subscribers (mbroker_boxes (sys_broker S) ! i) = of_nat (card (subs_on (sys_subs S) i))"
  using assms by (auto simp: box_ok_def Let_def)

lemma sessions_finite:
  assumes "sys_inv S"
  shows "finite (pubs_on (sys_pubs S) i)" "finite (subs_on (sys_subs S) i)"
proof -
  have "pubs_on (sys_pubs S) i \<subseteq> dom (sys_pubs S)" "subs_on (sys_subs S) i \<subseteq> dom (sys_subs S)" by (auto simp: pubs_on_def subs_on_def)
  then show "finite (pubs_on (sys_pubs S) i)" "finite (subs_on (sys_subs S) i)"
    using sys_invD(8,9) [OF assms] finite_subset by blast+
qed

lemma fd_held:
  assumes "sys_inv S" "fd_of S x = Some fd"
  shows "a_handles (afs_of (sys_broker S)) fd \<noteq> None"
  using assms sys_invD(3,4) [OF assms(1)]
  by (auto simp: fd_of_def pub_ok_def sub_ok_def Let_def simp del: abs_simps split: sum.splits)

lemma fd_of_upd [simp]:
  "fd_of (S\<lparr>sys_broker := br\<rparr>) = fd_of S" "fd_of (S\<lparr>sys_log := log\<rparr>) = fd_of S"
  "fd_of (S\<lparr>sys_pubs := (sys_pubs S)(k \<mapsto> p)\<rparr>) = (fd_of S)(Inl k \<mapsto> pub_box_fd p)"
  "fd_of (S\<lparr>sys_pubs := (sys_pubs S)(k := None)\<rparr>) = (fd_of S)(Inl k := None)"
  "fd_of (S\<lparr>sys_subs := (sys_subs S)(k \<mapsto> t)\<rparr>) = (fd_of S)(Inr k \<mapsto> th_fd t)"
  "fd_of (S\<lparr>sys_subs := (sys_subs S)(k := None)\<rparr>) = (fd_of S)(Inr k := None)"
  by (auto simp: fd_of_def fun_eq_iff split: sum.splits)

lemma fd_of_upd2 [simp]:
  "fd_of (S\<lparr>sys_broker := br, sys_pubs := ps\<rparr>) = fd_of (S\<lparr>sys_pubs := ps\<rparr>)"
  "fd_of (S\<lparr>sys_broker := br, sys_subs := us\<rparr>) = fd_of (S\<lparr>sys_subs := us\<rparr>)"
  "fd_of (S\<lparr>sys_broker := br, sys_subs := us, sys_log := log\<rparr>) = fd_of (S\<lparr>sys_subs := us\<rparr>)"
  by (simp_all add: fd_of_def fun_eq_iff split: sum.split)

text \<open>Only the concrete file system changes.\<close>

lemma views_fs:
  assumes "abs_fs2 fs = afs_of br"
  shows "used (br\<lparr>broker_fs := fs\<rparr>) = used br" "ino_at (br\<lparr>broker_fs := fs\<rparr>) = ino_at br"
    "contents_at (br\<lparr>broker_fs := fs\<rparr>) = contents_at br" "pub_ok (br\<lparr>broker_fs := fs\<rparr>) = pub_ok br"
    "sub_ok (br\<lparr>broker_fs := fs\<rparr>) = sub_ok br"
proof -
  show u: "used (br\<lparr>broker_fs := fs\<rparr>) = used br" by (simp add: used_def fun_eq_iff)
  show i: "ino_at (br\<lparr>broker_fs := fs\<rparr>) = ino_at br" using assms by (simp add: ino_at_def fun_eq_iff del: abs_simps)
  show c: "contents_at (br\<lparr>broker_fs := fs\<rparr>) = contents_at br"
    using assms by (simp add: contents_at_def i fun_eq_iff del: abs_simps)
  show "pub_ok (br\<lparr>broker_fs := fs\<rparr>) = pub_ok br" using assms by (simp add: pub_ok_def u i c fun_eq_iff del: abs_simps)
  show "sub_ok (br\<lparr>broker_fs := fs\<rparr>) = sub_ok br" using assms by (simp add: sub_ok_def u i c fun_eq_iff del: abs_simps)
qed

lemma sys_inv_fs:
  assumes inv: "sys_inv S" and fs: "fs2_inv fs" "abs_fs2 fs = afs_of (sys_broker S)"
  shows "sys_inv (S\<lparr>sys_broker := (sys_broker S)\<lparr>broker_fs := fs\<rparr>\<rparr>)"
proof -
  let ?S = "S\<lparr>sys_broker := (sys_broker S)\<lparr>broker_fs := fs\<rparr>\<rparr>"
  note V = views_fs [OF fs(2)]
  have "boxes_inv (sys_broker ?S)"
    using sys_invD(1) [OF inv] fs by (simp add: boxes_inv_def table_ok_def files_ok_def V del: abs_simps)
  moreover have "box_ok ?S i = box_ok S i" for i using fs(2) by (simp add: box_ok_def V Let_def del: abs_simps)
  moreover have "fds_ok ?S = fds_ok S" using fs(2) by (simp add: fds_ok_def del: abs_simps)
  ultimately show ?thesis using inv fs(2) by (simp add: sys_inv_def V del: abs_simps)
qed

section \<open>A session on one box\<close>

lemma sys_inv_touch:
  assumes inv: "sys_inv S" and t: "touches (sys_broker S) i b fs c"
    and br: "sys_broker S' = touch i b fs (sys_broker S)"
    and pubs: "\<And>k p. sys_pubs S' k = Some p \<Longrightarrow> pub_ok (sys_broker S') p"
    and subs: "\<And>k t. sys_subs S' k = Some t \<Longrightarrow> sub_ok (sys_broker S') (sys_log S') t"
    and i: "box_ok S' i" and others: "\<And>j. j \<noteq> i \<Longrightarrow> sys_log S' j = sys_log S j \<and> pubs_on (sys_pubs S') j = pubs_on (sys_pubs S) j \<and> subs_on (sys_subs S') j = subs_on (sys_subs S) j"
    and fin: "fds_ok S'" "finite (dom (sys_pubs S'))" "finite (dom (sys_subs S'))"
  shows "sys_inv S'"
proof -
  note I = sys_invD [OF inv]
  note V = touches_views [OF I(1) t] and D = touchesD [OF t]
  have "box_ok S' j" if "used (sys_broker S) j" for j
  proof (cases "j = i")
    case False
    then show ?thesis
      using others [OF False] I(5) [OF that] V(5) [OF that] D(8) unfolding box_ok_def br Let_def
      by (simp del: abs_simps)
  qed (use i in simp)
  moreover have "sys_log S' j = []" if "\<not> used (sys_broker S) j" for j
    using that others [of j] I(6) [OF that] D(1) by (cases "j = i") auto
  ultimately show ?thesis
    unfolding sys_inv_def using pubs subs fin I(2,10) V(1,4) D(8) by (simp add: br del: abs_simps)
qed

text \<open>Handles of sessions that begin, go on and end.\<close>

lemma fds_ok_add:
  assumes "fds_ok S" "fd_of S' = (fd_of S)(x \<mapsto> fd)" "\<And>y. fd_of S y \<noteq> Some fd"
    "dom (a_handles (afs_of (sys_broker S'))) \<subseteq> insert fd (dom (a_handles (afs_of (sys_broker S))))" "fd_of S x = None"
  shows "fds_ok S'"
proof -
  have "\<exists>y. fd_of S' y = Some fd'" if "a_handles (afs_of (sys_broker S')) fd' \<noteq> None" for fd'
  proof (cases "fd' = fd")
    case True
    then show ?thesis using assms(2) by auto
  next
    case False
    with that assms(4) have "a_handles (afs_of (sys_broker S)) fd' \<noteq> None" by blast
    with assms(1) obtain y where "fd_of S y = Some fd'" unfolding fds_ok_def by blast
    with assms(2,5) show ?thesis by (metis fun_upd_apply option.distinct(1))
  qed
  moreover have "y = z" if "fd_of S' y = Some f" "fd_of S' z = Some f" for y z f
    using that assms(1,3) unfolding fds_ok_def assms(2) by (auto split: if_splits)
  ultimately show ?thesis unfolding fds_ok_def by blast
qed

lemma fds_ok_remove:
  assumes "fds_ok S" "fd_of S' = (fd_of S)(x := None)" "fd_of S x = Some fd"
    "dom (a_handles (afs_of (sys_broker S'))) \<subseteq> dom (a_handles (afs_of (sys_broker S))) - {fd}"
  shows "fds_ok S'"
proof -
  have "\<exists>y. fd_of S' y = Some fd'" if "a_handles (afs_of (sys_broker S')) fd' \<noteq> None" for fd'
  proof -
    from that assms(4) have "a_handles (afs_of (sys_broker S)) fd' \<noteq> None" "fd' \<noteq> fd" by blast+
    with assms(1) obtain y where "fd_of S y = Some fd'" unfolding fds_ok_def by blast
    with assms(2,3) \<open>fd' \<noteq> fd\<close> have "fd_of S' y = Some fd'" by auto
    then show ?thesis by blast
  qed
  moreover have "y = z" if "fd_of S' y = Some f" "fd_of S' z = Some f" for y z f
    using that assms(1) unfolding fds_ok_def assms(2) by (auto split: if_splits)
  ultimately show ?thesis unfolding fds_ok_def by blast
qed

lemma fds_ok_same:
  assumes "fds_ok S" "fd_of S' = fd_of S"
    "dom (a_handles (afs_of (sys_broker S'))) \<subseteq> dom (a_handles (afs_of (sys_broker S)))"
  shows "fds_ok S'"
proof -
  have "\<exists>x. fd_of S x = Some fd" if "a_handles (afs_of (sys_broker S')) fd \<noteq> None" for fd
    using that assms(1,3) unfolding fds_ok_def by blast
  then show ?thesis using assms(1) unfolding fds_ok_def assms(2) by blast
qed

lemma fds_distinct:
  assumes "sys_inv S" "fd_of S x = Some fd" "fd_of S y = Some fd'" "x \<noteq> y"
  shows "fd' \<noteq> fd"
  using sys_invD(7) [OF assms(1)] assms(2-4) unfolding fds_ok_def by blast

lemma fd_of_pub: "sys_pubs S k = Some p \<Longrightarrow> fd_of S (Inl k) = Some (pub_box_fd p)"
  and fd_of_sub: "sys_subs S k = Some t \<Longrightarrow> fd_of S (Inr k) = Some (th_fd t)"
  by (simp_all add: fd_of_def)

lemma touches_handles:
  assumes "boxes_inv br" "used br i" "fs2_inv fs"
    "a_names (abs_fs2 fs) = a_names (afs_of br)" "a_nodes (abs_fs2 fs) = a_nodes (afs_of br)"
    "a_block (abs_fs2 fs) = a_block (afs_of br)" "a_slots (abs_fs2 fs) = a_slots (afs_of br)"
    "box_name b = box_name (mbroker_boxes br ! i)" "box_alloc_state b = USED" "\<not> box_mutex b"
  shows "touches br i b fs (contents_at br i)"
  unfolding touches_def using assms used_file [OF assms(1,2)] by (simp add: fun_upd_idem del: abs_simps)

lemma moved_views [simp]:
  "a_names (moved fd i off a) = a_names a" "a_nodes (moved fd i off a) = a_nodes a" "a_block (moved fd i off a) = a_block a"
  "a_slots (moved fd i off a) = a_slots a" "a_handles (moved fd i off a) = (a_handles a)(fd \<mapsto> (i, off))"
  by (simp_all add: moved_def)

section \<open>Publishers\<close>

lemma step_pub_start:
  assumes inv: "sys_inv S" and ok: "action_ok (Pub_start k pipe req) S"
  shows "\<exists>S'. sys_next (Pub_start k pipe req) S = Ok S' \<and> sys_inv S'"
proof -
  let ?br = "sys_broker S"
  note I = sys_invD [OF inv]
  from ok have req: "request_ok req" and k: "sys_pubs S k = None" by simp_all
  from I(1) req show ?thesis
  proof (cases rule: publisher_begin_cases [where pipe = pipe])
    case (refused fs)
    with sys_inv_fs [OF inv refused(2,3)] show ?thesis by simp
  next
    case (begins i f fs)
    let ?p = "\<lparr>pub_box = i, pub_box_fd = int f\<rparr>" and ?b = "mbroker_boxes ?br ! i"
    let ?b' = "?b\<lparr>box_n_publishers := box_n_publishers ?b + 1\<rparr>"
    let ?S = "S\<lparr>sys_broker := touch i ?b' fs ?br, sys_pubs := (sys_pubs S)(k \<mapsto> ?p)\<rparr>"
    note len = usedD [OF boxes_invD(2) [OF I(1)] begins(1)] and B = box_okD [OF I(5) [OF begins(1)]]
    have t: "touches ?br i ?b' fs (contents_at ?br i)"
      by (rule touches_handles [OF I(1) begins(1,6)]) (use begins(7) len in \<open>simp_all del: abs_simps\<close>)
    note V = touches_views [OF I(1) t]
    have fresh: "fd_of S y \<noteq> Some (int f)" for y using fd_held [OF inv] new_handle_free [OF begins(3)] by metis
    have other: "a_handles (abs_fs2 fs) fd = a_handles (afs_of ?br) fd" if "fd_of S y = Some fd" for y fd
      using that fresh [of y] begins(7) by (auto simp del: abs_simps)
    have none: "pubs_on (sys_pubs S) i = {}"
      using B(3,4) begins(4) sessions_finite(1) [OF inv, of i] by (cases "card (pubs_on (sys_pubs S) i)") auto
    have on: "pubs_on ((sys_pubs S)(k \<mapsto> ?p)) j = (if j = i then {k} else pubs_on (sys_pubs S) j)" for j
      using none k by (auto simp: pubs_on_def)
    have "sys_inv ?S"
    proof (rule sys_inv_touch [OF inv t])
      show "pub_ok (sys_broker ?S) q" if "sys_pubs ?S l = Some q" for l q
      proof (cases "l = k")
        case True
        with that have "q = ?p" by simp
        with begins(1,7) V show ?thesis by (simp add: pub_ok_def del: abs_simps)
      next
        case False
        with that have q: "sys_pubs S l = Some q" by simp
        with pub_ok_touch [OF I(1) t I(3) [OF q] other [OF fd_of_pub [OF q]]] show ?thesis by simp
      qed
      show "sub_ok (sys_broker ?S) (sys_log ?S) u" if "sys_subs ?S l = Some u" for l u
      proof -
        from that have u: "sys_subs S l = Some u" by simp
        from sub_ok_touch [OF I(1) t I(4) [OF u] other [OF fd_of_sub [OF u]]] show ?thesis by simp
      qed
      show "box_ok ?S i" using B V(5) [OF begins(1)] none touchesD(8) [OF t] len
        by (simp add: box_ok_def Let_def on del: abs_simps)
      show "fds_ok ?S"
        by (rule fds_ok_add [OF I(7), of _ "Inl k" "int f"])
          (use k fresh begins(7) in \<open>auto simp: fd_of_def simp del: abs_simps\<close>)
    qed (use on I(8,9) in simp_all)
    with begins(5) show ?thesis by simp
  qed
qed

lemma appended_views [simp]:
  "a_names (appended fd i c xs a) = a_names a" "a_nodes (appended fd i c xs a) = (a_nodes a)(i \<mapsto> File (c @ xs))"
  "a_slots (appended fd i c xs a) = a_slots a" "a_handles (appended fd i c xs a) = (a_handles a)(fd \<mapsto> (i, length (c @ xs)))"
  by (simp_all add: appended_def)

lemma only_publisher:
  assumes "sys_inv S" "sys_pubs S k = Some p" "sys_pubs S l = Some q" "pub_box q = pub_box p"
  shows "l = k"
proof -
  have "used (sys_broker S) (pub_box p)" using sys_invD(3) [OF assms(1,2)] by (simp add: pub_ok_def)
  note B = box_okD(3) [OF sys_invD(5) [OF assms(1) this]]
  have "\<forall>x\<in>pubs_on (sys_pubs S) (pub_box p). \<forall>y\<in>pubs_on (sys_pubs S) (pub_box p). x = y"
    using B unfolding One_nat_def by (rule card_le_Suc0_iff_eq [OF sessions_finite(1) [OF assms(1)], THEN iffD1])
  moreover have "k \<in> pubs_on (sys_pubs S) (pub_box p)" "l \<in> pubs_on (sys_pubs S) (pub_box p)"
    using assms(2-4) unfolding pubs_on_def by blast+
  ultimately show ?thesis by blast
qed

lemma pubs_on_alone:
  assumes "sys_inv S" "sys_pubs S k = Some p"
  shows "pubs_on (sys_pubs S) (pub_box p) = {k}"
proof (rule equalityI)
  show "pubs_on (sys_pubs S) (pub_box p) \<subseteq> {k}" using only_publisher [OF assms] unfolding pubs_on_def by blast
  show "{k} \<subseteq> pubs_on (sys_pubs S) (pub_box p)" using assms(2) by (simp add: pubs_on_def)
qed

text \<open>The end of a publisher's session, whatever its last round left in the file.\<close>

lemma pub_leaves:
  assumes inv: "sys_inv S" and p: "sys_pubs S k = Some p"
  defines "br \<equiv> sys_broker S" and "i \<equiv> pub_box p"
  assumes fs: "fs2_inv fs" "a_names (abs_fs2 fs) = a_names (afs_of br)"
      "a_nodes (abs_fs2 fs) = (a_nodes (afs_of br))(ino_at br i \<mapsto> File c)"
      "a_block (abs_fs2 fs) = a_block (afs_of br)" "a_slots (abs_fs2 fs) = a_slots (afs_of br)"
      "a_handles (abs_fs2 fs) = (a_handles (afs_of br))(pub_box_fd p \<mapsto> x)"
    and c: "length c \<le> a_block (afs_of br)" "store_ok (a_block (afs_of br)) (sys_log S i) c"
      "stored (contents_at br i) \<le> stored c"
  shows "\<exists>S'. bindR (publisher_end p (br\<lparr>broker_fs := fs\<rparr>)) (\<lambda>(_, br). Ok (S\<lparr>sys_broker := br, sys_pubs := (sys_pubs S)(k := None)\<rparr>)) =
    Ok S' \<and> sys_inv S'"
proof -
  note I = sys_invD [OF inv, folded br_def]
  have u: "used br i" using I(3) [OF p] by (simp add: pub_ok_def i_def)
  note len = usedD [OF boxes_invD(2) [OF I(1)] u] and B = box_okD [OF I(5) [OF u], folded br_def]
  let ?b = "(mbroker_boxes br ! i)\<lparr>box_n_publishers := box_n_publishers (mbroker_boxes br ! i) - 1\<rparr>"
  have tb: "table_ok (br\<lparr>broker_fs := fs\<rparr>)" "used (br\<lparr>broker_fs := fs\<rparr>) i"
    using boxes_invD(2) [OF I(1)] u by (simp_all add: table_ok_fs used_def)
  obtain fs' where e: "publisher_end p (br\<lparr>broker_fs := fs\<rparr>) = Ok (0, touch i ?b fs' br)"
    "fs2_inv fs'" "abs_fs2 fs' = without (pub_box_fd p) (abs_fs2 fs)"
    using publisher_end_eq [of "br\<lparr>broker_fs := fs\<rparr>" p] tb fs(1,6)
    by (auto simp: i_def touch_def simp del: abs_simps)
  let ?S = "S\<lparr>sys_broker := touch i ?b fs' br, sys_pubs := (sys_pubs S)(k := None)\<rparr>"
  have t: "touches br i ?b fs' c"
    using u e(2,3) fs(2-5) c(1) len by (simp add: touches_def del: abs_simps)
  note V = touches_views [OF I(1) t]
  have h: "a_handles (abs_fs2 fs') = (a_handles (afs_of br))(pub_box_fd p := None)" using e(3) fs(6) by (simp del: abs_simps)
  have other: "a_handles (abs_fs2 fs') fd = a_handles (afs_of br) fd" if "fd_of S y = Some fd" "y \<noteq> Inl k" for y fd
    using fds_distinct [OF inv fd_of_pub [OF p] that(1)] that(2) h by (simp del: abs_simps)
  have on: "pubs_on ((sys_pubs S)(k := None)) j = (if j = i then {} else pubs_on (sys_pubs S) j)" for j
    using pubs_on_alone [OF inv p] p by (auto simp: pubs_on_def i_def)
  have "sys_inv ?S"
  proof (rule sys_inv_touch [OF inv t [unfolded br_def]])
    show "pub_ok (sys_broker ?S) q" if "sys_pubs ?S l = Some q" for l q
    proof -
      from that have q: "sys_pubs S l = Some q" "l \<noteq> k" by (auto split: if_splits)
      have "pub_box q \<noteq> i" using only_publisher [OF inv p q(1)] q(2) by (auto simp: i_def)
      with pub_ok_touch [OF I(1) t I(3) [OF q(1)] other [OF fd_of_pub [OF q(1)]]] q(2) show ?thesis by simp
    qed
    show "sub_ok (sys_broker ?S) (sys_log ?S) v" if "sys_subs ?S l = Some v" for l v
    proof -
      from that have v: "sys_subs S l = Some v" by simp
      from sub_ok_touch [OF I(1) t I(4) [OF v] other [OF fd_of_sub [OF v]] c(3)] show ?thesis by simp
    qed
    show "box_ok ?S i" using B V(5) [OF u] touchesD(8) [OF t] len pubs_on_alone [OF inv p] c(2)
      by (simp add: box_ok_def Let_def on i_def [symmetric] del: abs_simps)
    show "fds_ok ?S"
      by (rule fds_ok_remove [OF I(7), of _ "Inl k" "pub_box_fd p"])
        (use h in \<open>auto simp: fd_of_pub [OF p] br_def simp del: abs_simps\<close>)
  qed (use on I(8,9) in \<open>simp_all add: br_def\<close>)
  with e(1) show ?thesis by simp
qed

lemma broadcast_SomeD:
  assumes "broadcast P subs k = Some t'"
  obtains t where "subs k = Some t" "th_session t' = th_session t" "th_got t' = th_got t"
    "th_mode t' = Waiting \<Longrightarrow> th_mode t = Waiting \<and> \<not> P (th_box t)"
proof -
  obtain t where t: "subs k = Some t" "t' = (if P (th_box t) \<and> th_mode t = Waiting then t\<lparr>th_mode := Woken\<rparr> else t)"
    using assms by (auto simp: broadcast_def)
  show thesis by (rule that [OF t(1)]) (use t(2) in \<open>auto split: if_splits\<close>)
qed

lemma broadcast_simps [simp]:
  "dom (broadcast P subs) = dom subs" "subs_on (broadcast P subs) i = subs_on subs i"
  "fd_of (S\<lparr>sys_subs := broadcast P (sys_subs S)\<rparr>) = fd_of S"
proof -
  show "dom (broadcast P subs) = dom subs" by (auto simp: broadcast_def)
  show "subs_on (broadcast P subs) i = subs_on subs i"
    by (auto simp: broadcast_def subs_on_def split: if_splits) (metis sub_thread.select_convs(1) sub_thread.surjective sub_thread.update_convs(2))+
  show "fd_of (S\<lparr>sys_subs := broadcast P (sys_subs S)\<rparr>) = fd_of S"
    by (auto simp: broadcast_def fd_of_def fun_eq_iff option.map_comp intro!: option.map_cong split: sum.split)
qed

lemma pub_accepts:
  assumes inv: "sys_inv S" and p: "sys_pubs S k = Some p" and m: "0 \<notin> set m" "length m < MESSAGE_LENGTH"
  defines "br \<equiv> sys_broker S" and "i \<equiv> pub_box p"
  defines "c \<equiv> contents_at br i" and "b \<equiv> mbroker_boxes br ! i"
  defines "xs \<equiv> take (a_block (afs_of br) - length c) (m @ [0])"
  assumes len: "length c + length m \<le> a_block (afs_of br)"
    and fs: "fs2_inv fs" "abs_fs2 fs = appended (pub_box_fd p) (ino_at br i) c xs (afs_of br)"
  shows "sys_inv (S\<lparr>sys_broker := touch i (b\<lparr>box_size := box_size b + of_nat (length m) + 1\<rparr>) fs br,
    sys_subs := broadcast (\<lambda>j. j = i) (sys_subs S), sys_log := (sys_log S)(i := sys_log S i @ [m])\<rparr>)" (is "sys_inv ?S")
proof -
  note I = sys_invD [OF inv, folded br_def]
  have u: "used br i" using I(3) [OF p] by (simp add: pub_ok_def i_def)
  note bx = usedD [OF boxes_invD(2) [OF I(1)] u] and B = box_okD [OF I(5) [OF u], folded br_def, folded c_def]
  let ?b = "b\<lparr>box_size := box_size b + of_nat (length m) + 1\<rparr>"
  have t: "touches br i ?b fs (c @ xs)"
    using u fs len bx by (simp add: touches_def b_def xs_def del: abs_simps)
  note V = touches_views [OF I(1) t]
  have other: "a_handles (abs_fs2 fs) fd = a_handles (afs_of br) fd" if "fd_of S y = Some fd" "y \<noteq> Inl k" for y fd
    using fds_distinct [OF inv fd_of_pub [OF p] that(1)] that(2) fs(2) by (simp del: abs_simps)
  show ?thesis
  proof (rule sys_inv_touch [OF inv t [unfolded br_def]])
    show "pub_ok (sys_broker ?S) q" if "sys_pubs ?S l = Some q" for l q
    proof (cases "l = k")
      case True
      then have "q = p" using that p by simp
      with u V fs(2) show ?thesis by (simp add: pub_ok_def i_def [symmetric] del: abs_simps)
    next
      case False
      from that have q: "sys_pubs S l = Some q" by simp
      have "pub_box q \<noteq> i" using only_publisher [OF inv p q] False by (auto simp: i_def)
      with pub_ok_touch [OF I(1) t I(3) [OF q] other [OF fd_of_pub [OF q]]] False show ?thesis by simp
    qed
    show "sub_ok (sys_broker ?S) (sys_log ?S) v'" if "sys_subs ?S l = Some v'" for l v'
    proof -
      from that have "broadcast (\<lambda>j. j = i) (sys_subs S) l = Some v'" by simp
      then obtain v where v: "sys_subs S l = Some v" "th_session v' = th_session v" "th_got v' = th_got v"
        "th_mode v' = Waiting \<Longrightarrow> th_mode v = Waiting \<and> th_box v \<noteq> i" by (rule broadcast_SomeD) blast
      show ?thesis
        using sub_ok_touch [OF I(1) t I(4) [OF v(1)] other [OF fd_of_sub [OF v(1)]], of "sys_log ?S" v'] v(2-4)
        by (auto simp: c_def prefix_def)
    qed
    show "box_ok ?S i"
      using B V(5) [OF u] touchesD(8) [OF t] bx store_ok_append [OF B(1) m len] unfolding box_ok_def Let_def
      by (simp add: b_def xs_def add_ac del: abs_simps)
    show "fds_ok ?S"
      using fd_of_pub [OF p] fd_held [OF inv fd_of_pub [OF p]] fs(2)
      by (intro fds_ok_same [OF I(7)]) (auto simp: br_def simp del: abs_simps)
  qed (use I(8,9) in \<open>simp_all add: br_def\<close>)
qed

lemma step_pub_read:
  assumes inv: "sys_inv S" and ok: "action_ok (Pub_read k r) S"
  shows "\<exists>S'. sys_next (Pub_read k r) S = Ok S' \<and> sys_inv S'"
proof (cases "sys_pubs S k")
  case None
  with inv show ?thesis by simp
next
  case (Some p)
  let ?br = "sys_broker S" and ?i = "pub_box p"
  note I = sys_invD [OF inv]
  have u: "used ?br ?i" using I(3) [OF Some] by (simp add: pub_ok_def)
  note B = box_okD [OF I(5) [OF u]] and F = used_file [OF I(1) u] and st = pub_stands [OF I(1) I(3) [OF Some]]
  have leaves: "\<exists>S'. bindR (publisher_end p (?br\<lparr>broker_fs := fs\<rparr>))
      (\<lambda>(_, br). Ok (S\<lparr>sys_broker := br, sys_pubs := (sys_pubs S)(k := None)\<rparr>)) = Ok S' \<and> sys_inv S'"
    if "fs2_inv fs" "abs_fs2 fs = afs_of ?br" for fs
    by (rule pub_leaves [OF inv Some that(1), where c = "contents_at ?br ?i" and x = "(ino_at ?br ?i, length (contents_at ?br ?i))"])
      (use that(2) F B(1) st in \<open>simp_all add: stands_def fun_upd_idem del: abs_simps\<close>)
  have stay: "publisher_round p r ?br = Ok (False, ?br) \<Longrightarrow> ?thesis"
    using leaves [of "broker_fs ?br"] boxes_invD(1) [OF I(1)] Some by simp
  show ?thesis
  proof (cases r)
    case (Whole bs)
    with ok have bs: "length bs = sizeof_publisher" "0 \<in> set (tl bs)" by simp_all
    have "pub_message (publisher_of bs) = tl bs" using bs(1) by (cases bs) (simp_all add: publisher_of_def read_at_def)
    then have m: "0 \<notin> set (message_of r)" "length (message_of r) < MESSAGE_LENGTH"
      using string_at_nul [OF bs(2)] bs(1) Whole by simp_all
    from I(1) I(3) [OF Some] bs show ?thesis
    proof (cases rule: publisher_round_cases)
      case (accepted fs)
      from pub_accepts [OF inv Some m accepted(1) [folded Whole] accepted(4,5) [folded Whole]] accepted(3) Some Whole
      show ?thesis by simp
    next
      case (rejected fs)
      let ?c = "contents_at ?br ?i @ take (a_block (afs_of ?br) - length (contents_at ?br ?i)) (message_of r @ [0])"
      have "store_ok (a_block (afs_of ?br)) (sys_log S ?i) ?c"
        using store_ok_cut [OF B(1) m(1) F(3)] rejected(1) Whole by simp
      then have "\<exists>S'. bindR (publisher_end p (?br\<lparr>broker_fs := fs\<rparr>))
          (\<lambda>(_, br). Ok (S\<lparr>sys_broker := br, sys_pubs := (sys_pubs S)(k := None)\<rparr>)) = Ok S' \<and> sys_inv S'"
        by (intro pub_leaves [OF inv Some rejected(3), where c = ?c and x = "(ino_at ?br ?i, length ?c)"])
          (use rejected(4) F(3) Whole in \<open>simp_all del: abs_simps\<close>)
      with rejected(2) Some Whole show ?thesis by simp
    next
      case (no_block fs)
      with leaves [OF no_block(4,5)] Some Whole show ?thesis by simp
    qed
  qed (use stay in \<open>simp_all add: publisher_round_def\<close>)
qed

section \<open>Subscribers\<close>

lemma step_sub_start:
  assumes inv: "sys_inv S" and ok: "action_ok (Sub_start k pipe req) S"
  shows "\<exists>S'. sys_next (Sub_start k pipe req) S = Ok S' \<and> sys_inv S'"
proof -
  let ?br = "sys_broker S"
  note I = sys_invD [OF inv]
  from ok have req: "request_ok req" and k: "sys_subs S k = None" by simp_all
  from I(1) req show ?thesis
  proof (cases rule: subscriber_begin_cases [where pipe = pipe])
    case (refused fs)
    with sys_inv_fs [OF inv refused(2,3)] show ?thesis by simp
  next
    case (begins i f fs)
    let ?t = "\<lparr>th_session = \<lparr>sub_box = i, sub_box_fd = int f, sub_total_read = 0\<rparr>, th_mode = Running, th_got = []\<rparr>"
    let ?b = "mbroker_boxes ?br ! i"
    let ?b' = "?b\<lparr>box_n_subscribers := box_n_subscribers ?b + 1\<rparr>"
    let ?S = "S\<lparr>sys_broker := touch i ?b' fs ?br, sys_subs := (sys_subs S)(k \<mapsto> ?t)\<rparr>"
    note len = usedD [OF boxes_invD(2) [OF I(1)] begins(1)] and B = box_okD [OF I(5) [OF begins(1)]]
    have t: "touches ?br i ?b' fs (contents_at ?br i)"
      by (rule touches_handles [OF I(1) begins(1,5)]) (use begins(6) len in \<open>simp_all del: abs_simps\<close>)
    note V = touches_views [OF I(1) t]
    have fresh: "fd_of S y \<noteq> Some (int f)" for y using fd_held [OF inv] new_handle_free [OF begins(3)] by metis
    have other: "a_handles (abs_fs2 fs) fd = a_handles (afs_of ?br) fd" if "fd_of S y = Some fd" for y fd
      using that fresh [of y] begins(6) by (auto simp del: abs_simps)
    have on: "subs_on ((sys_subs S)(k \<mapsto> ?t)) j = (if j = i then insert k (subs_on (sys_subs S) i) else subs_on (sys_subs S) j)" for j
      using k by (auto simp: subs_on_def)
    have "k \<notin> subs_on (sys_subs S) i" using k by (simp add: subs_on_def)
    then have card: "card (insert k (subs_on (sys_subs S) i)) = Suc (card (subs_on (sys_subs S) i))"
      using sessions_finite(2) [OF inv] by simp
    have "sys_inv ?S"
    proof (rule sys_inv_touch [OF inv t])
      show "pub_ok (sys_broker ?S) q" if "sys_pubs ?S l = Some q" for l q
      proof -
        from that have q: "sys_pubs S l = Some q" by simp
        with pub_ok_touch [OF I(1) t I(3) [OF q] other [OF fd_of_pub [OF q]]] show ?thesis by simp
      qed
      show "sub_ok (sys_broker ?S) (sys_log ?S) u" if "sys_subs ?S l = Some u" for l u
      proof (cases "l = k")
        case True
        with that have "u = ?t" by simp
        with begins(1,6) V show ?thesis by (simp add: sub_ok_def del: abs_simps)
      next
        case False
        with that have u: "sys_subs S l = Some u" by simp
        from sub_ok_touch [OF I(1) t I(4) [OF u] other [OF fd_of_sub [OF u]]] show ?thesis by simp
      qed
      show "box_ok ?S i" using B V(5) [OF begins(1)] touchesD(8) [OF t] len card
        by (simp add: box_ok_def Let_def on del: abs_simps)
      show "fds_ok ?S"
        by (rule fds_ok_add [OF I(7), of _ "Inr k" "int f"])
          (use k fresh begins(6) in \<open>auto simp: fd_of_def simp del: abs_simps\<close>)
    qed (use on I(8,9) in simp_all)
    with begins(4) show ?thesis by simp
  qed
qed

text \<open>Going on with a message.\<close>

lemma sub_receives:
  assumes inv: "sys_inv S" and k: "sys_subs S k = Some t"
  defines "br \<equiv> sys_broker S" and "i \<equiv> th_box t" and "m \<equiv> sys_log S (th_box t) ! length (th_got t)"
  assumes more: "length (th_got t) < stored (contents_at br i)"
    and fs: "fs2_inv fs" "abs_fs2 fs = moved (th_fd t) (ino_at br i) (length (stream (th_got t @ [m]))) (afs_of br)"
  shows "sys_inv (S\<lparr>sys_broker := touch i (mbroker_boxes br ! i) fs br, sys_subs := (sys_subs S)(k \<mapsto>
    \<lparr>th_session = (th_session t)\<lparr>sub_total_read := of_nat (length (stream (th_got t @ [m])))\<rparr>, th_mode = Running,
     th_got = th_got t @ [m]\<rparr>)\<rparr>)" (is "sys_inv ?S")
proof -
  note I = sys_invD [OF inv, folded br_def]
  have tk: "used br i" "prefix (th_got t) (sys_log S i)" using I(4) [OF k] by (simp_all add: sub_ok_def Let_def i_def)
  note len = usedD [OF boxes_invD(2) [OF I(1)] tk(1)] and B = box_okD [OF I(5) [OF tk(1)], folded br_def]
  let ?t = "\<lparr>th_session = (th_session t)\<lparr>sub_total_read := of_nat (length (stream (th_got t @ [m])))\<rparr>, th_mode = Running,
     th_got = th_got t @ [m]\<rparr>"
  have "length (th_got t) < length (sys_log S i)" using more B(1) by (simp add: store_ok_def)
  then have pre: "prefix (th_got t @ [m]) (sys_log S i)"
    using tk(2) by (auto simp: prefix_def m_def i_def [symmetric] neq_Nil_conv)
  have t: "touches br i (mbroker_boxes br ! i) fs (contents_at br i)"
    by (rule touches_handles [OF I(1) tk(1) fs(1)]) (use fs(2) len in \<open>simp_all del: abs_simps stream_simps\<close>)
  note V = touches_views [OF I(1) t]
  have other: "a_handles (abs_fs2 fs) fd = a_handles (afs_of br) fd" if "fd_of S y = Some fd" "y \<noteq> Inr k" for y fd
    using fds_distinct [OF inv fd_of_sub [OF k] that(1)] that(2) fs(2) by (simp del: abs_simps)
  have on: "subs_on ((sys_subs S)(k \<mapsto> x)) j = subs_on (sys_subs S) j" if "th_box x = i" for x j
    using k that by (auto simp: subs_on_def i_def)
  show ?thesis
  proof (rule sys_inv_touch [OF inv t [unfolded br_def]])
    show "pub_ok (sys_broker ?S) q" if "sys_pubs ?S l = Some q" for l q
    proof -
      from that have q: "sys_pubs S l = Some q" by simp
      with pub_ok_touch [OF I(1) t I(3) [OF q] other [OF fd_of_pub [OF q]]] show ?thesis by simp
    qed
    show "sub_ok (sys_broker ?S) (sys_log ?S) u" if "sys_subs ?S l = Some u" for l u
    proof (cases "l = k")
      case True
      with that have "u = ?t" by simp
      with tk(1) pre more V fs(2) show ?thesis by (simp add: sub_ok_def Let_def i_def [symmetric] del: abs_simps stream_simps)
    next
      case False
      with that have u: "sys_subs S l = Some u" by simp
      from sub_ok_touch [OF I(1) t I(4) [OF u] other [OF fd_of_sub [OF u]]] False show ?thesis by simp
    qed
    show "box_ok ?S i" using B V(5) [OF tk(1)] touchesD(8) [OF t] len
      by (simp add: box_ok_def Let_def on i_def [symmetric] del: abs_simps)
    show "fds_ok ?S"
      using fd_of_sub [OF k] fd_held [OF inv fd_of_sub [OF k]] fs(2)
      by (intro fds_ok_same [OF I(7)]) (auto simp: br_def simp del: abs_simps)
  qed (use on I(8,9) in \<open>simp_all add: br_def i_def\<close>)
qed

text \<open>The end of a subscriber's session.\<close>

lemma sub_leaves:
  assumes inv: "sys_inv S" and k: "sys_subs S k = Some t"
  defines "br \<equiv> sys_broker S" and "i \<equiv> th_box t"
  defines "b \<equiv> mbroker_boxes br ! i"
  assumes fs: "fs2_inv fs" "abs_fs2 fs = without (th_fd t) (afs_of br)"
  shows "sys_inv (S\<lparr>sys_broker := touch i (b\<lparr>box_n_subscribers := box_n_subscribers b - 1\<rparr>) fs br,
    sys_subs := (sys_subs S)(k := None)\<rparr>)" (is "sys_inv ?S")
proof -
  note I = sys_invD [OF inv, folded br_def]
  have u: "used br i" using I(4) [OF k] by (simp add: sub_ok_def Let_def i_def)
  note len = usedD [OF boxes_invD(2) [OF I(1)] u, folded b_def] and B = box_okD [OF I(5) [OF u], folded br_def, folded b_def]
  let ?b = "b\<lparr>box_n_subscribers := box_n_subscribers b - 1\<rparr>"
  have t: "touches br i ?b fs (contents_at br i)"
    by (rule touches_handles [OF I(1) u fs(1)]) (use fs(2) len in \<open>simp_all add: b_def del: abs_simps\<close>)
  note V = touches_views [OF I(1) t]
  have other: "a_handles (abs_fs2 fs) fd = a_handles (afs_of br) fd" if "fd_of S y = Some fd" "y \<noteq> Inr k" for y fd
    using fds_distinct [OF inv fd_of_sub [OF k] that(1)] that(2) fs(2) by (simp del: abs_simps)
  have on: "subs_on ((sys_subs S)(k := None)) j = (if j = i then subs_on (sys_subs S) i - {k} else subs_on (sys_subs S) j)" for j
    using k by (auto simp: subs_on_def i_def)
  have "k \<in> subs_on (sys_subs S) i" using k by (simp add: subs_on_def i_def)
  then have card: "card (subs_on (sys_subs S) i) = Suc (card (subs_on (sys_subs S) i - {k}))"
    using sessions_finite(2) [OF inv] by (metis card.remove)
  show ?thesis
  proof (rule sys_inv_touch [OF inv t [unfolded br_def]])
    show "pub_ok (sys_broker ?S) q" if "sys_pubs ?S l = Some q" for l q
    proof -
      from that have q: "sys_pubs S l = Some q" by simp
      with pub_ok_touch [OF I(1) t I(3) [OF q] other [OF fd_of_pub [OF q]]] show ?thesis by simp
    qed
    show "sub_ok (sys_broker ?S) (sys_log ?S) v" if "sys_subs ?S l = Some v" for l v
    proof -
      from that have v: "sys_subs S l = Some v" "l \<noteq> k" by (auto split: if_splits)
      from sub_ok_touch [OF I(1) t I(4) [OF v(1)] other [OF fd_of_sub [OF v(1)]]] v(2) show ?thesis by simp
    qed
    show "box_ok ?S i" using B V(5) [OF u] touchesD(8) [OF t] len card
      by (simp add: box_ok_def Let_def on b_def del: abs_simps)
    show "fds_ok ?S"
      by (rule fds_ok_remove [OF I(7), of _ "Inr k" "th_fd t"])
        (use fs(2) in \<open>auto simp: fd_of_sub [OF k] br_def simp del: abs_simps\<close>)
  qed (use on I(8,9) in \<open>simp_all add: br_def\<close>)
qed

text \<open>Falling asleep and waking up.\<close>

lemma sys_inv_mode:
  assumes inv: "sys_inv S" and k: "sys_subs S k = Some t"
    and waits: "x = Waiting \<Longrightarrow> length (stream (sys_log S (th_box t))) < 2 ^ 64 \<Longrightarrow> th_got t = sys_log S (th_box t)"
  shows "sys_inv (S\<lparr>sys_subs := (sys_subs S)(k \<mapsto> t\<lparr>th_mode := x\<rparr>)\<rparr>)" (is "sys_inv ?S")
proof -
  note I = sys_invD [OF inv]
  have on: "subs_on ((sys_subs S)(k \<mapsto> t\<lparr>th_mode := x\<rparr>)) j = subs_on (sys_subs S) j" for j
    using k by (auto simp: subs_on_def)
  have "sub_ok (sys_broker S) (sys_log S) (t\<lparr>th_mode := x\<rparr>)"
    using I(4) [OF k] waits by (simp add: sub_ok_def Let_def)
  then have "sub_ok (sys_broker S) (sys_log S) u" if "sys_subs ?S l = Some u" for l u
    using that I(4) by (auto split: if_splits)
  moreover have "fds_ok ?S"
  proof (rule fds_ok_same [OF I(7)])
    show "fd_of ?S = fd_of S" using fd_of_sub [OF k] by (auto simp: fun_eq_iff)
  qed simp
  moreover have "box_ok ?S j = box_ok S j" for j by (simp add: box_ok_def on)
  ultimately show ?thesis using I unfolding sys_inv_def by simp
qed

lemma read_everything:
  assumes "prefix got ms" "length (stream ms) \<le> length (stream got)"
  shows "got = ms"
proof -
  obtain ys where ys: "ms = got @ ys" using assms(1) by (auto simp: prefix_def)
  with assms(2) have "stream ys = []" by simp
  then have "ys = []" by (cases ys) simp_all
  with ys show ?thesis by simp
qed

lemma sub_runs:
  assumes inv: "sys_inv S" and k: "sys_subs S k = Some t"
  shows "\<exists>S'. bindR (subscriber_woken wr (th_session t) (sys_broker S)) (\<lambda>res. sub_goes_on k t res S) = Ok S' \<and> sys_inv S'"
proof -
  let ?br = "sys_broker S" and ?i = "th_box t"
  note I = sys_invD [OF inv]
  have u: "used ?br ?i" "a_handles (afs_of ?br) (th_fd t) \<noteq> None"
    using I(4) [OF k] by (simp_all add: sub_ok_def Let_def del: abs_simps)
  note len = usedD [OF boxes_invD(2) [OF I(1)] u(1)] and B = box_okD [OF I(5) [OF u(1)]]
  from I(1) I(4) [OF k] B(1) I(2) show ?thesis
  proof (cases rule: subscriber_woken_cases [where wr = wr])
    case (sent fs)
    from sub_receives [OF inv k sent(1,4,5)] sent show ?thesis
      by (simp add: sub_goes_on_def response_of_def string_of_pad del: stream_simps)
  next
    case (left x fs off)
    have "a_handles (abs_fs2 fs) (th_fd t) \<noteq> None" using left(4) by (simp del: abs_simps)
    then obtain fs' where "subscriber_end (th_session t) (touch ?i ((mbroker_boxes ?br ! ?i)\<lparr>box_mutex := True\<rparr>) fs ?br) =
        Ok (0, touch ?i ((mbroker_boxes ?br ! ?i)\<lparr>box_n_subscribers := box_n_subscribers (mbroker_boxes ?br ! ?i) - 1\<rparr>) fs' ?br)"
      "fs2_inv fs'" "abs_fs2 fs' = without (th_fd t) (abs_fs2 fs)"
      using subscriber_end_locked [of ?i ?br "th_session t" fs] left(3) len by auto
    with sub_leaves [OF inv k, of fs'] left show ?thesis by (simp add: sub_goes_on_def)
  qed
qed

lemma step_sub_run:
  assumes inv: "sys_inv S"
  shows "\<exists>S'. sys_next (Sub_run k wr) S = Ok S' \<and> sys_inv S'"
proof (cases "sys_subs S k")
  case None
  with inv show ?thesis by simp
next
  case (Some t)
  let ?br = "sys_broker S" and ?log = "sys_log S (th_box t)"
  note I = sys_invD [OF inv]
  have u: "used ?br (th_box t)" "prefix (th_got t) ?log"
    "sub_total_read (th_session t) = of_nat (length (stream (th_got t)))"
    using I(4) [OF Some] by (simp_all add: sub_ok_def Let_def)
  note B = box_okD [OF I(5) [OF u(1)]]
  have asleep: "sys_inv (S\<lparr>sys_subs := (sys_subs S)(k \<mapsto> t\<lparr>th_mode := Waiting\<rparr>)\<rparr>)"
    if "sub_total_read (th_session t) \<ge> box_size (mbroker_boxes ?br ! th_box t)"
  proof (rule sys_inv_mode [OF inv Some])
    assume small: "length (stream ?log) < 2 ^ 64"
    have "length (stream (th_got t)) \<le> length (stream ?log)" using prefix_length_le [OF stream_mono [OF u(2)]] .
    with small that u(3) B(2) have "length (stream ?log) \<le> length (stream (th_got t))"
      by (simp add: word_le_nat_alt unat_of_nat take_bit_nat_eq_self)
    with read_everything [OF u(2)] show "th_got t = ?log" .
  qed
  show ?thesis
  proof (cases "th_mode t")
    case Waiting
    with Some inv show ?thesis by simp
  next
    case Woken
    with Some sub_runs [OF inv Some] show ?thesis by simp
  next
    case Running
    show ?thesis
    proof (cases "sub_total_read (th_session t) \<ge> box_size (mbroker_boxes ?br ! th_box t)")
      case True
      with Some Running asleep subscriber_round_eq [OF I(1) I(4) [OF Some], of wr] show ?thesis
        by (simp add: sub_goes_on_def)
    next
      case False
      with Some Running sub_runs [OF inv Some, of wr] subscriber_round_eq [OF I(1) I(4) [OF Some], of wr] show ?thesis
        by simp
    qed
  qed
qed

lemma step_spurious:
  assumes inv: "sys_inv S"
  shows "\<exists>S'. sys_next (Spurious k) S = Ok S' \<and> sys_inv S'"
  using inv sys_inv_mode [OF inv, of k _ Woken] by (cases "sys_subs S k") auto

section \<open>Managers\<close>

lemma sys_inv_table:
  assumes inv: "sys_inv S" and br: "boxes_inv br"
    and a: "a_block (afs_of br) = a_block (afs_of (sys_broker S))" "a_handles (afs_of br) = a_handles (afs_of (sys_broker S))"
    and keep: "\<And>j. used (sys_broker S) j \<Longrightarrow> used br j \<Longrightarrow> ino_at br j = ino_at (sys_broker S) j \<and>
      contents_at br j = contents_at (sys_broker S) j \<and> mbroker_boxes br ! j = mbroker_boxes (sys_broker S) ! j"
    and new: "\<And>j. \<not> used (sys_broker S) j \<Longrightarrow> used br j \<Longrightarrow> contents_at br j = [] \<and>
      box_size (mbroker_boxes br ! j) = 0 \<and> box_n_publishers (mbroker_boxes br ! j) = 0 \<and> box_n_subscribers (mbroker_boxes br ! j) = 0"
    and sess: "\<And>k p. sys_pubs S k = Some p \<Longrightarrow> used br (pub_box p)" "\<And>k t. sys_subs S k = Some t \<Longrightarrow> used br (th_box t)"
    and count: "box_count br = int (card {i. used br i})"
  shows "sys_inv (S\<lparr>sys_broker := br, sys_log := (\<lambda>i. if used br i then sys_log S i else [])\<rparr>)" (is "sys_inv ?S")
proof -
  note I = sys_invD [OF inv]
  have "pub_ok br p" if "sys_pubs S k = Some p" for k p
    using I(3) [OF that] keep [of "pub_box p"] sess(1) [OF that] a(2) by (simp add: pub_ok_def del: abs_simps)
  moreover have "sub_ok br (sys_log ?S) t" if "sys_subs S k = Some t" for k t
    using I(4) [OF that] keep [of "th_box t"] sess(2) [OF that] a by (simp add: sub_ok_def Let_def del: abs_simps)
  moreover have "box_ok ?S j" if "used br j" for j
  proof (cases "used (sys_broker S) j")
    case True
    with I(5) [OF True] keep [OF True that] that a show ?thesis by (simp add: box_ok_def Let_def del: abs_simps)
  next
    case False
    have "pub_box p \<noteq> j" if "sys_pubs S k = Some p" for k p using I(3) [OF that] False by (auto simp: pub_ok_def)
    moreover have "th_box t \<noteq> j" if "sys_subs S k = Some t" for k t using I(4) [OF that] False by (auto simp: sub_ok_def Let_def)
    ultimately have "pubs_on (sys_pubs S) j = {}" "subs_on (sys_subs S) j = {}" by (auto simp: pubs_on_def subs_on_def)
    with new [OF False that] I(6) [OF False] show ?thesis by (simp add: box_ok_def Let_def store_ok_def)
  qed
  moreover have "fds_ok ?S"
  proof (rule fds_ok_same [OF I(7)])
    show "fd_of ?S = fd_of S" by (simp add: fd_of_def fun_eq_iff split: sum.split)
  qed (use a(2) in \<open>simp del: abs_simps\<close>)
  ultimately show ?thesis using I(2,8,9) br a(1) count unfolding sys_inv_def by (simp del: abs_simps)
qed

lemma broadcast_none: "(\<And>k t. subs k = Some t \<Longrightarrow> \<not> P (th_box t)) \<Longrightarrow> broadcast P subs = subs"
proof (rule ext)
  fix k
  assume "\<And>k t. subs k = Some t \<Longrightarrow> \<not> P (th_box t)"
  then show "broadcast P subs k = subs k" by (cases "subs k") (auto simp: broadcast_def)
qed

text \<open>A handle on the file of a box belongs to a session on that box.\<close>

lemma handle_session:
  assumes inv: "sys_inv S" and u: "used (sys_broker S) i" and h: "a_handles (afs_of (sys_broker S)) fd = Some (ino_at (sys_broker S) i, off)"
  shows "pubs_on (sys_pubs S) i \<noteq> {} \<or> subs_on (sys_subs S) i \<noteq> {}"
proof -
  note I = sys_invD [OF inv]
  obtain x where x: "fd_of S x = Some fd" using I(7) h unfolding fds_ok_def by (metis option.distinct(1))
  show ?thesis
  proof (cases x)
    case (Inl k)
    with x obtain p where p: "sys_pubs S k = Some p" "pub_box_fd p = fd" by (auto simp: fd_of_def)
    have "used (sys_broker S) (pub_box p)" "ino_at (sys_broker S) (pub_box p) = ino_at (sys_broker S) i"
      using I(3) [OF p(1)] p(2) h unfolding pub_ok_def by (simp_all del: abs_simps)
    with ino_inj [OF I(1) _ u] p show ?thesis by (auto simp: pubs_on_def)
  next
    case (Inr k)
    with x obtain t where t: "sys_subs S k = Some t" "th_fd t = fd" by (auto simp: fd_of_def)
    have "used (sys_broker S) (th_box t)" "ino_at (sys_broker S) (th_box t) = ino_at (sys_broker S) i"
      using I(4) [OF t(1)] t(2) h unfolding sub_ok_def Let_def by (simp_all del: abs_simps)
    with ino_inj [OF I(1) _ u] t show ?thesis by (auto simp: subs_on_def)
  qed
qed

lemma count_views [simp]:
  "used (br\<lparr>box_count := n\<rparr>) = used br" "ino_at (br\<lparr>box_count := n\<rparr>) = ino_at br"
  "contents_at (br\<lparr>box_count := n\<rparr>) = contents_at br" "boxes_inv (br\<lparr>box_count := n\<rparr>) = boxes_inv br"
proof -
  show u: "used (br\<lparr>box_count := n\<rparr>) = used br" by (simp add: used_def fun_eq_iff)
  show i: "ino_at (br\<lparr>box_count := n\<rparr>) = ino_at br" by (simp add: ino_at_def fun_eq_iff)
  show "contents_at (br\<lparr>box_count := n\<rparr>) = contents_at br" by (simp add: contents_at_def i fun_eq_iff)
  show "boxes_inv (br\<lparr>box_count := n\<rparr>) = boxes_inv br" by (simp add: boxes_inv_def table_ok_def files_ok_def u)
qed

lemma same_file:
  assumes inv: "boxes_inv br" and j: "used br j" "mbroker_boxes br' ! j = mbroker_boxes br ! j"
    and a: "a_names (afs_of br') (label_at br j) = a_names (afs_of br) (label_at br j)"
      "a_nodes (afs_of br') (ino_at br j) = a_nodes (afs_of br) (ino_at br j)"
  shows "ino_at br' j = ino_at br j" "contents_at br' j = contents_at br j"
proof -
  show i: "ino_at br' j = ino_at br j" using a(1) j(2) by (simp add: ino_at_def del: abs_simps)
  show "contents_at br' j = contents_at br j" using a(2) unfolding contents_at_def i by simp
qed

lemma used_finite: "table_ok br \<Longrightarrow> finite {i. used br i}"
  by (rule finite_subset [of _ "{..<box_count_max br}"]) (auto simp: used_def table_ok_def)

lemma sys_inv_created:
  assumes inv: "sys_inv S" and nm: "label_ok nm" "\<And>j. used (sys_broker S) j \<Longrightarrow> label_at (sys_broker S) j \<noteq> nm"
    and i: "i < box_count_max (sys_broker S)" "\<not> used (sys_broker S) i"
    and fs: "grown nm (afs_of (sys_broker S)) (abs_fs2 fs)" "a_names (abs_fs2 fs) nm \<noteq> None"
  defines "br \<equiv> (sys_broker S)\<lparr>broker_fs := fs, mbroker_boxes := (mbroker_boxes (sys_broker S))[i := new_box nm],
    box_count := box_count (sys_broker S) + 1\<rparr>"
  assumes br: "boxes_inv br"
  shows "used br j \<longleftrightarrow> used (sys_broker S) j \<or> j = i"
    "sys_inv (S\<lparr>sys_broker := br, sys_log := (\<lambda>i. if used br i then sys_log S i else [])\<rparr>)"
proof -
  let ?br = "sys_broker S"
  note I = sys_invD [OF inv] and T = table_okD [OF boxes_invD(2) [OF sys_invD(1) [OF inv]]] and G = grown_keeps [OF fs(1)]
  have u: "used br j \<longleftrightarrow> used ?br j \<or> j = i" for j
    using i T(1) by (auto simp: br_def used_def nth_list_update)
  then show "used br j \<longleftrightarrow> used (sys_broker S) j \<or> j = i" .
  have box: "mbroker_boxes br ! j = (if j = i then new_box nm else mbroker_boxes ?br ! j)" for j
    using i T(1) by (cases "j = i") (auto simp: br_def)
  have keep: "ino_at br j = ino_at ?br j \<and> contents_at br j = contents_at ?br j \<and> mbroker_boxes br ! j = mbroker_boxes ?br ! j"
    if j: "used ?br j" for j
  proof -
    note F = used_file [OF I(1) j]
    have m: "mbroker_boxes br ! j = mbroker_boxes ?br ! j" using j i box by auto
    have "a_names (afs_of br) (label_at ?br j) = a_names (afs_of ?br) (label_at ?br j)"
      "a_nodes (afs_of br) (ino_at ?br j) = a_nodes (afs_of ?br) (ino_at ?br j)"
      using G(5) [OF F(1)] G(6) [OF F(2)] F(1,2) by (simp_all add: br_def del: abs_simps)
    with same_file [OF I(1) j m] m show ?thesis by blast
  qed
  have empty: "contents_at br i = []"
  proof -
    obtain x where x: "a_names (abs_fs2 fs) nm = Some x" using fs(2) by blast
    have "a_nodes (abs_fs2 fs) x = Some (File [])"
      using G(7) [OF x] G(6) boxes_invD(4) [OF I(1)] nm(2) by (auto simp: files_ok_def)
    moreover have "ino_at br i = x" using x nm(1) box by (simp add: ino_at_def br_def del: abs_simps)
    ultimately show ?thesis by (simp add: contents_at_def br_def del: abs_simps)
  qed
  have "{j. used br j} = insert i {j. used ?br j}" using u by auto
  then have count: "box_count br = int (card {j. used br j})"
    using I(10) i(2) used_finite [OF boxes_invD(2) [OF I(1)]] by (simp add: br_def)
  show "sys_inv (S\<lparr>sys_broker := br, sys_log := (\<lambda>i. if used br i then sys_log S i else [])\<rparr>)"
  proof (rule sys_inv_table [OF inv br])
    show "a_block (afs_of br) = a_block (afs_of ?br)" "a_handles (afs_of br) = a_handles (afs_of ?br)"
      using G(1,2) by (simp_all add: br_def del: abs_simps)
    show "used br (pub_box p)" if "sys_pubs S k = Some p" for k p using I(3) [OF that] by (simp add: pub_ok_def u)
    show "used br (th_box t)" if "sys_subs S k = Some t" for k t using I(4) [OF that] by (simp add: sub_ok_def Let_def u)
    show "contents_at br j = [] \<and> box_size (mbroker_boxes br ! j) = 0 \<and> box_n_publishers (mbroker_boxes br ! j) = 0 \<and>
        box_n_subscribers (mbroker_boxes br ! j) = 0" if "\<not> used ?br j" "used br j" for j
      using that u [of j] empty box by auto
  qed (use keep count in auto)
qed

lemma sys_inv_grown:
  assumes inv: "sys_inv S" and fs: "grown nm (afs_of (sys_broker S)) (abs_fs2 fs)"
  defines "br \<equiv> (sys_broker S)\<lparr>broker_fs := fs\<rparr>"
  assumes br: "boxes_inv br"
  shows "used br = used (sys_broker S)"
    "sys_inv (S\<lparr>sys_broker := br, sys_log := (\<lambda>i. if used br i then sys_log S i else [])\<rparr>)"
proof -
  let ?br = "sys_broker S"
  note I = sys_invD [OF inv] and G = grown_keeps [OF fs]
  show u: "used br = used ?br" by (simp add: br_def used_def fun_eq_iff)
  have keep: "ino_at br j = ino_at ?br j \<and> contents_at br j = contents_at ?br j \<and> mbroker_boxes br ! j = mbroker_boxes ?br ! j"
    if j: "used ?br j" for j
  proof -
    note F = used_file [OF I(1) j]
    have "a_names (afs_of br) (label_at ?br j) = a_names (afs_of ?br) (label_at ?br j)"
      "a_nodes (afs_of br) (ino_at ?br j) = a_nodes (afs_of ?br) (ino_at ?br j)"
      using G(5) [OF F(1)] G(6) [OF F(2)] F(1,2) by (simp_all add: br_def del: abs_simps)
    with same_file [OF I(1) j, of br] show ?thesis by (simp add: br_def)
  qed
  show "sys_inv (S\<lparr>sys_broker := br, sys_log := (\<lambda>i. if used br i then sys_log S i else [])\<rparr>)"
  proof (rule sys_inv_table [OF inv br])
    show "a_block (afs_of br) = a_block (afs_of ?br)" "a_handles (afs_of br) = a_handles (afs_of ?br)"
      using G(1,2) by (simp_all add: br_def del: abs_simps)
    show "used br (pub_box p)" if "sys_pubs S k = Some p" for k p using I(3) [OF that] by (simp add: pub_ok_def u)
    show "used br (th_box t)" if "sys_subs S k = Some t" for k t using I(4) [OF that] by (simp add: sub_ok_def Let_def u)
    show "box_count br = int (card {i. used br i})" using I(10) by (simp add: u) (simp add: br_def)
  qed (use keep u in auto)
qed

lemma sys_inv_deleted:
  assumes inv: "sys_inv S" and i: "used (sys_broker S) i" "pubs_on (sys_pubs S) i = {}" "subs_on (sys_subs S) i = {}"
    and fs: "abs_fs2 fs = a_remove (label_at (sys_broker S) i) (ino_at (sys_broker S) i) (afs_of (sys_broker S))"
  defines "br \<equiv> (sys_broker S)\<lparr>broker_fs := fs, mbroker_boxes := (mbroker_boxes (sys_broker S))[i :=
    (mbroker_boxes (sys_broker S) ! i)\<lparr>box_alloc_state := NOT_USED\<rparr>], box_count := box_count (sys_broker S) - 1\<rparr>"
  assumes br: "boxes_inv br"
  shows "used br j \<longleftrightarrow> used (sys_broker S) j \<and> j \<noteq> i"
    "sys_inv (S\<lparr>sys_broker := br, sys_log := (\<lambda>i. if used br i then sys_log S i else [])\<rparr>)"
proof -
  let ?br = "sys_broker S"
  note I = sys_invD [OF inv] and T = table_okD [OF boxes_invD(2) [OF sys_invD(1) [OF inv]]]
  note len = usedD [OF boxes_invD(2) [OF I(1)] i(1)]
  have u: "used br j \<longleftrightarrow> used ?br j \<and> j \<noteq> i" for j
    using len by (auto simp: br_def used_def nth_list_update)
  then show "used br j \<longleftrightarrow> used (sys_broker S) j \<and> j \<noteq> i" .
  have keep: "ino_at br j = ino_at ?br j \<and> contents_at br j = contents_at ?br j \<and> mbroker_boxes br ! j = mbroker_boxes ?br ! j"
    if j: "used ?br j" "used br j" for j
  proof -
    from j u have ji: "j \<noteq> i" by blast
    then have m: "mbroker_boxes br ! j = mbroker_boxes ?br ! j" by (simp add: br_def)
    have "label_at ?br j \<noteq> label_at ?br i" "ino_at ?br j \<noteq> ino_at ?br i"
      using T(5) [OF j(1) i(1)] ino_inj [OF I(1) j(1) i(1)] ji by blast+
    then have "a_names (afs_of br) (label_at ?br j) = a_names (afs_of ?br) (label_at ?br j)"
      "a_nodes (afs_of br) (ino_at ?br j) = a_nodes (afs_of ?br) (ino_at ?br j)"
      using fs by (simp_all add: br_def del: abs_simps)
    with same_file [OF I(1) j(1) m] m show ?thesis by blast
  qed
  have "{j. used br j} = {j. used ?br j} - {i}" using u by auto
  then have "card {j. used br j} = card ({j. used ?br j} - {i})" by (rule arg_cong)
  moreover have "card {j. used ?br j} = Suc (card ({j. used ?br j} - {i}))"
    by (rule card.remove [OF used_finite [OF boxes_invD(2) [OF I(1)]]]) (use i(1) in blast)
  ultimately have "int (card {j. used br j}) = box_count ?br - 1" using I(10) by linarith
  moreover have "box_count br = box_count ?br - 1" by (simp add: br_def)
  ultimately have count: "box_count br = int (card {j. used br j})" by linarith
  show "sys_inv (S\<lparr>sys_broker := br, sys_log := (\<lambda>i. if used br i then sys_log S i else [])\<rparr>)"
  proof (rule sys_inv_table [OF inv br])
    show "a_block (afs_of br) = a_block (afs_of ?br)" "a_handles (afs_of br) = a_handles (afs_of ?br)"
      using fs by (simp_all add: br_def del: abs_simps)
    show "used br (pub_box p)" if "sys_pubs S k = Some p" for k p
      using I(3) [OF that] i(2) that by (auto simp: pub_ok_def u pubs_on_def)
    show "used br (th_box t)" if "sys_subs S k = Some t" for k t
      using I(4) [OF that] i(3) that by (auto simp: sub_ok_def Let_def u subs_on_def)
  qed (use keep u count in auto)
qed

definition blank_response :: "byte \<Rightarrow> manager_response_t" where
  "blank_response op = \<lparr>man_op_code = op, man_ret_code = 0, man_error_message = replicate ERR_MESSAGE_LENGTH 0\<rparr>"

lemma blank_message [simp]: "length (man_error_message (blank_response op)) = ERR_MESSAGE_LENGTH"
  by (simp add: blank_response_def)

text \<open>\<open>handle_manager\<close> once the pipe is open.\<close>

lemma handle_manager_create:
  assumes "request_ok req" "reg_op_code req = CREATE_BOX_OP"
    "create_box slack (blank_response 4) (string_of (reg_box_name req)) br = Ok (ret, resp, br')"
  shows "handle_manager slack True wr req br = Ok (if manager_response_send wr (resp\<lparr>man_ret_code := ret\<rparr>) \<noteq> 0 then -1 else 0,
    Some (resp\<lparr>man_ret_code := ret\<rparr>), if ret = 0 then br'\<lparr>box_count := box_count br' + 1\<rparr> else br')"
  using assms request_name [OF assms(1)]
  by (simp add: handle_manager_def manager_response_init_def blank_response_def CREATE_BOX_OP_def)

lemma handle_manager_delete:
  assumes "request_ok req" "reg_op_code req = DELETE_BOX_OP"
    "delete_box (blank_response 6) (string_of (reg_box_name req)) br = Ok (ret, resp, br')"
  shows "handle_manager slack True wr req br = Ok (if manager_response_send wr (resp\<lparr>man_ret_code := ret\<rparr>) \<noteq> 0 then -1 else 0,
    Some (resp\<lparr>man_ret_code := ret\<rparr>), if ret = 0 then br'\<lparr>box_count := box_count br' - 1\<rparr> else br')"
  using assms request_name [OF assms(1)]
  by (simp add: handle_manager_def manager_response_init_def blank_response_def CREATE_BOX_OP_def DELETE_BOX_OP_def)

lemma manage_result:
  assumes "handle_manager slack pipe wr req (sys_broker S) = Ok (r, resp, br)"
    "\<And>k t. sys_subs S k = Some t \<Longrightarrow> used br (th_box t)"
    "sys_inv (S\<lparr>sys_broker := br, sys_log := (\<lambda>i. if used br i then sys_log S i else [])\<rparr>)"
  shows "\<exists>S'. sys_next (Manage slack pipe wr req) S = Ok S' \<and> sys_inv S'"
proof -
  have "broadcast (\<lambda>i. used (sys_broker S) i \<and> \<not> used br i) (sys_subs S) = sys_subs S"
    using assms(2) by (intro broadcast_none) blast
  with assms show ?thesis by simp
qed

lemma manage_nothing:
  assumes inv: "sys_inv S" and "handle_manager slack pipe wr req (sys_broker S) = Ok (r, resp, sys_broker S)"
  shows "\<exists>S'. sys_next (Manage slack pipe wr req) S = Ok S' \<and> sys_inv S'"
proof (rule manage_result [OF assms(2)])
  note I = sys_invD [OF inv]
  show "used (sys_broker S) (th_box t)" if "sys_subs S k = Some t" for k t using I(4) [OF that] by (simp add: sub_ok_def Let_def)
  have "(\<lambda>i. if used (sys_broker S) i then sys_log S i else []) = sys_log S" using I(6) by auto
  then show "sys_inv (S\<lparr>sys_broker := sys_broker S, sys_log := (\<lambda>i. if used (sys_broker S) i then sys_log S i else [])\<rparr>)"
    using inv by simp
qed

lemma step_create:
  assumes inv: "sys_inv S" and ok: "action_ok (Manage slack True wr req) S" and op: "reg_op_code req = CREATE_BOX_OP"
  shows "\<exists>S'. sys_next (Manage slack True wr req) S = Ok S' \<and> sys_inv S'"
proof -
  let ?br = "sys_broker S" and ?nm = "string_of (reg_box_name req)"
  note I = sys_invD [OF inv]
  from ok have req: "request_ok req" "0 < slack" by simp_all
  note nm = request_label [OF req(1)] and create = handle_manager_create [OF req(1) op, of slack ?br]
  have sess: "used ?br (th_box t)" if "sys_subs S k = Some t" for k t using I(4) [OF that] by (simp add: sub_ok_def Let_def)
  show ?thesis
  proof (cases "\<exists>i. used ?br i \<and> label_at ?br i = ?nm")
    case True
    then obtain i where "used ?br i" "label_at ?br i = ?nm" by blast
    with create_box_duplicate [OF boxes_invD(2) [OF I(1)], of i "blank_response 4"] create manage_nothing [OF inv] show ?thesis
      by fastforce
  next
    case False
    then have new: "\<And>j. used ?br j \<Longrightarrow> label_at ?br j \<noteq> ?nm" by blast
    then have all: "\<forall>j. used ?br j \<longrightarrow> label_at ?br j \<noteq> ?nm" by blast
    from I(1) nm all req(2) blank_message show ?thesis
    proof (cases rule: create_box_cases [where resp = "blank_response 4"])
      case (created i fs)
      let ?br' = "?br\<lparr>broker_fs := fs, mbroker_boxes := (mbroker_boxes ?br)[i := new_box ?nm], box_count := box_count ?br + 1\<rparr>"
      have br': "boxes_inv ?br'"
        using created(7) count_views(4) [where br = "?br\<lparr>broker_fs := fs, mbroker_boxes := (mbroker_boxes ?br)[i := new_box ?nm]\<rparr>"] by simp
      note C = sys_inv_created [OF inv nm new created(2,3,5,6) br']
      from create [OF created(4)] show ?thesis
        by (intro manage_result [where br = ?br']) (use C sess in simp_all)
    next
      case (failed fs)
      note G = sys_inv_grown [OF inv failed(3,4)]
      from create [OF failed(2)] show ?thesis
        by (intro manage_result [where br = "?br\<lparr>broker_fs := fs\<rparr>"]) (use G sess in simp_all)
    qed
  qed
qed

lemma step_delete:
  assumes inv: "sys_inv S" and ok: "action_ok (Manage slack True wr req) S" and op: "reg_op_code req = DELETE_BOX_OP"
  shows "\<exists>S'. sys_next (Manage slack True wr req) S = Ok S' \<and> sys_inv S'"
proof -
  let ?br = "sys_broker S" and ?nm = "string_of (reg_box_name req)"
  note I = sys_invD [OF inv]
  from ok op have req: "request_ok req" and idle: "idle_box S ?nm" by simp_all
  note nm = request_label [OF req] and delete = handle_manager_delete [OF req op, of ?br]
  show ?thesis
  proof (cases "\<exists>i. used ?br i \<and> label_at ?br i = ?nm")
    case False
    then have "delete_box (blank_response 6) ?nm ?br = Ok (-1, told (blank_response 6) RESP_ERR_UNKNOWN_BOX, ?br)"
      using nm by (intro delete_box_unknown [OF boxes_invD(2) [OF I(1)]]) (auto simp: label_ok_def)
    from delete [OF this, of slack wr] manage_nothing [OF inv] show ?thesis by simp
  next
    case True
    then obtain i where i: "used ?br i" "label_at ?br i = ?nm" by blast
    have none: "pubs_on (sys_pubs S) i = {}" "subs_on (sys_subs S) i = {}"
      using idle i(2) by (auto simp: idle_box_def pubs_on_def subs_on_def)
    have closed: "a_handles (afs_of ?br) fd \<noteq> Some (ino_at ?br i, off)" for fd off
      using handle_session [OF inv i(1)] none by blast
    obtain fs where fs: "delete_box (blank_response 6) (label_at ?br i) ?br = Ok (0, blank_response 6, ?br\<lparr>broker_fs := fs,
        mbroker_boxes := (mbroker_boxes ?br)[i := (mbroker_boxes ?br ! i)\<lparr>box_alloc_state := NOT_USED\<rparr>]\<rparr>)"
      "fs2_inv fs" "abs_fs2 fs = a_remove (label_at ?br i) (ino_at ?br i) (afs_of ?br)"
      by (rule delete_box_used [OF I(1) i(1) closed]) (rule that)
    let ?br' = "?br\<lparr>broker_fs := fs, mbroker_boxes := (mbroker_boxes ?br)[i :=
      (mbroker_boxes ?br ! i)\<lparr>box_alloc_state := NOT_USED\<rparr>], box_count := box_count ?br - 1\<rparr>"
    have br': "boxes_inv ?br'"
      using boxes_inv_delete [OF I(1) i(1) fs(2,3)] count_views(4) [where br = "?br\<lparr>broker_fs := fs, mbroker_boxes := (mbroker_boxes ?br)[i :=
        (mbroker_boxes ?br ! i)\<lparr>box_alloc_state := NOT_USED\<rparr>]\<rparr>"] by simp
    note D = sys_inv_deleted [OF inv i(1) none fs(3) br']
    have sess: "used ?br' (th_box t)" if "sys_subs S k = Some t" for k t
      using I(4) [OF that] none(2) that D(1) by (auto simp: sub_ok_def Let_def subs_on_def)
    from delete [OF fs(1) [unfolded i(2)], of slack wr] show ?thesis
      by (intro manage_result [where br = ?br']) (use D(2) sess in simp_all)
  qed
qed

lemma step_manage:
  assumes inv: "sys_inv S" and ok: "action_ok (Manage slack pipe wr req) S"
  shows "\<exists>S'. sys_next (Manage slack pipe wr req) S = Ok S' \<and> sys_inv S'"
proof (cases "pipe \<and> (reg_op_code req = CREATE_BOX_OP \<or> reg_op_code req = DELETE_BOX_OP)")
  case True
  then have pipe: "pipe = True" by simp
  show ?thesis
    unfolding pipe using step_create [OF inv ok [unfolded pipe]] step_delete [OF inv ok [unfolded pipe]] True by blast
next
  case False
  then have "\<exists>r resp. handle_manager slack pipe wr req (sys_broker S) = Ok (r, resp, sys_broker S)"
    by (auto simp: handle_manager_def manager_response_init_def)
  with manage_nothing [OF inv] show ?thesis by blast
qed

lemma sys_next_total:
  assumes "sys_inv S" "action_ok x S"
  shows "\<exists>S'. sys_next x S = Ok S' \<and> sys_inv S'"
proof (cases x)
  case (Manage slack pipe wr req)
  show ?thesis unfolding Manage by (rule step_manage [OF assms(1) assms(2) [unfolded Manage]])
next
  case (Pub_start k pipe req)
  show ?thesis unfolding Pub_start by (rule step_pub_start [OF assms(1) assms(2) [unfolded Pub_start]])
next
  case (Pub_read k r)
  show ?thesis unfolding Pub_read by (rule step_pub_read [OF assms(1) assms(2) [unfolded Pub_read]])
next
  case (Sub_start k pipe req)
  show ?thesis unfolding Sub_start by (rule step_sub_start [OF assms(1) assms(2) [unfolded Sub_start]])
next
  case (Sub_run k wr)
  show ?thesis unfolding Sub_run by (rule step_sub_run [OF assms(1)])
next
  case (Spurious k)
  show ?thesis unfolding Spurious by (rule step_spurious [OF assms(1)])
qed

end
