(* ===== verification/Broker_Run.thy ===== *)
theory Broker_Run
  imports Sessions_Keep FS2_Theorems
begin

text \<open>
  The broker from its start: \<open>init_mbroker\<close> gives a broker without boxes and sessions, every state
  that is reached from there has the invariant, and a small broker to run.
\<close>

section \<open>The start\<close>

definition sys_start :: "system \<Rightarrow> bool" where
  "sys_start S \<longleftrightarrow>
     (let br = sys_broker S; a = afs_of br in
      fs2_inv (broker_fs br) \<and> a_names a = Map.empty \<and> a_handles a = Map.empty \<and>
      0 < a_block a \<and> a_block a \<le> MESSAGE_LENGTH \<and> a_slots a \<le> box_count_max br \<and>
      length (mbroker_boxes br) = box_count_max br \<and> \<not> mbroker_boxes_lock br \<and>
      (\<forall>b\<in>set (mbroker_boxes br). box_alloc_state b = NOT_USED \<and> \<not> box_mutex b) \<and> box_count br = 0 \<and>
      sys_pubs S = Map.empty \<and> sys_subs S = Map.empty \<and> sys_log S = (\<lambda>_. []))"

lemma sys_start_inv:
  assumes "sys_start S"
  shows "sys_inv S"
proof -
  let ?br = "sys_broker S"
  note S = assms [unfolded sys_start_def Let_def]
  have u: "\<not> used ?br i" for i using S by (auto simp: used_def)
  have "table_ok ?br" using S u by (auto simp: table_ok_def)
  moreover have "afs_ok (afs_of ?br)" using S by (simp add: afs_ok_def del: abs_simps)
  moreover have "files_ok ?br" using S u by (simp add: files_ok_def del: abs_simps)
  moreover have "fds_ok S" using S by (simp add: fds_ok_def fd_of_def del: abs_simps split: sum.split)
  ultimately show ?thesis using S u by (simp add: sys_inv_def boxes_inv_def del: abs_simps)
qed

interpretation sessions: stepping sys_start sys_step sys_inv
proof
  fix S S'
  assume "sys_inv S" "sys_step S S'"
  from this(2) obtain x where "action_ok x S" "sys_next x S = Ok S'" by (cases rule: sys_step.cases) blast
  with sys_next_total [OF \<open>sys_inv S\<close>] show "sys_inv S'" by force
qed (rule sys_start_inv)

lemma foldR_map:
  "n = length xs \<Longrightarrow> foldR (\<lambda>i ys. bindR (arr_get ys i) (\<lambda>y. arr_set ys i (f y))) [0..<n] xs = Ok (map f xs)"
proof -
  have "k \<le> length xs \<Longrightarrow> foldR (\<lambda>i ys. bindR (arr_get ys i) (\<lambda>y. arr_set ys i (f y))) [0..<k] xs =
      Ok (map f (take k xs) @ drop k xs)" for k
  proof (induction k)
    case (Suc k)
    then have "(map f (take k xs) @ drop k xs)[k := f (xs ! k)] = map f (take (Suc k) xs) @ drop (Suc k) xs"
      "(map f (take k xs) @ drop k xs) ! k = xs ! k"
      by (simp_all add: list_update_append take_Suc_conv_app_nth Cons_nth_drop_Suc [symmetric] nth_append)
    with Suc show ?case by (simp add: foldR_append)
  qed simp
  moreover assume "n = length xs"
  ultimately show ?thesis by simp
qed

text \<open>The parameters of the broker's file system, and the limit on its directory.\<close>

definition broker_params :: "nat \<Rightarrow> tfs_params" where
  "broker_params n = tfs_default_params2\<lparr>max_inode_count := of_nat n\<rparr>"

lemma broker_params_ok:
  assumes "0 < n" "n < 2 ^ 31"
  shows "params_ok (broker_params n)" "0 < unat (max_inode_count (broker_params n))"
    "0 < unat (max_block_count (broker_params n))" "a_slots (a_init (broker_params n)) = 23" "a_block (a_init (broker_params n)) = 1024"
proof -
  have "unat (of_nat n :: size_t) = n" using assms by (simp add: unat_of_nat take_bit_nat_eq_self)
  with assms show "params_ok (broker_params n)" "0 < unat (max_inode_count (broker_params n))"
    "0 < unat (max_block_count (broker_params n))" "a_slots (a_init (broker_params n)) = 23" "a_block (a_init (broker_params n)) = 1024"
    by (simp_all add: broker_params_def tfs_default_params2_def params_ok_def a_init_def)
qed

lemma init_mbroker_starts:
  assumes n: "23 \<le> box_count_max br" "box_count_max br < 2 ^ 31"
    and al: "allocs_ok (broker_params (box_count_max br)) (up_allocs al)"
    and fs: "\<not> allocated2 (broker_fs br)" "\<not> g_library_mutex (broker_fs br)"
    and br: "box_count br = 0" "\<not> mbroker_boxes_lock br" "length mem = box_count_max br"
  obtains br' where "init_mbroker al (Some mem) br = Ok (0, br')" "box_count_max br' = box_count_max br"
    "a_slots (afs_of br') = 23"
    "sys_start \<lparr>sys_broker = br', sys_pubs = Map.empty, sys_subs = Map.empty, sys_log = (\<lambda>_. [])\<rparr>"
proof -
  let ?p = "broker_params (box_count_max br)"
  let ?free = "map (\<lambda>b. b\<lparr>box_alloc_state := NOT_USED, box_mutex := False\<rparr>) mem"
  have pos: "0 < box_count_max br" using n(1) by simp
  note P = broker_params_ok [OF pos n(2)]
  obtain s where s: "tfs_init2 (Some ?p) al (broker_fs br) = Ok (0, s)" "fs2_inv s" "abs_fs2 s = a_init ?p"
    using tfs_init2_agrees [OF P(1-3) al fs] by blast
  let ?br = "br\<lparr>broker_fs := s, mbroker_boxes := ?free\<rparr>"
  have "init_mbroker al (Some mem) br = Ok (0, ?br)"
    using s(1) br(3) foldR_map [of "box_count_max br" mem "\<lambda>b. b\<lparr>box_alloc_state := NOT_USED, box_mutex := False\<rparr>"]
    by (simp add: init_mbroker_def broker_params_def or_null_def)
  moreover have "sys_start \<lparr>sys_broker = ?br, sys_pubs = Map.empty, sys_subs = Map.empty, sys_log = (\<lambda>_. [])\<rparr>"
    unfolding sys_start_def Let_def using s(2,3) P(4,5) br n(1) by (auto simp: a_init_def simp del: abs_simps)
  ultimately show thesis using that [of ?br] s(3) P(4) by (simp del: abs_simps)
qed

section \<open>Running a small broker\<close>

text \<open>An executable part of the contract, for runs that delete nothing.\<close>

fun action_safe :: "action \<Rightarrow> system \<Rightarrow> bool" where
  "action_safe (Manage slack pipe wr req) S \<longleftrightarrow> 0 < slack \<and> request_ok req \<and> reg_op_code req \<noteq> DELETE_BOX_OP"
| "action_safe (Pub_start k pipe req) S \<longleftrightarrow> sys_pubs S k = None \<and> request_ok req"
| "action_safe (Pub_read k r) S \<longleftrightarrow> (case r of Whole bs \<Rightarrow> length bs = sizeof_publisher \<and> 0 \<in> set (tl bs) | _ \<Rightarrow> True)"
| "action_safe (Sub_start k pipe req) S \<longleftrightarrow> sys_subs S k = None \<and> request_ok req"
| "action_safe (Sub_run k wr) S \<longleftrightarrow> True"
| "action_safe (Spurious k) S \<longleftrightarrow> True"

fun sys_run :: "action list \<Rightarrow> system \<Rightarrow> system option" where
  "sys_run [] S = Some S"
| "sys_run (x # xs) S =
     (if action_safe x S then (case sys_next x S of Ok S' \<Rightarrow> sys_run xs S' | _ \<Rightarrow> None) else None)"

lemma action_safe_ok: "action_safe x S \<Longrightarrow> action_ok x S"
  by (cases x) auto

lemma sys_run_reaches: "sys_run xs S = Some S' \<Longrightarrow> sys_step\<^sup>*\<^sup>* S S'"
proof (induction xs arbitrary: S)
  case (Cons x xs)
  then obtain S1 where "action_safe x S" "sys_next x S = Ok S1" "sys_run xs S1 = Some S'"
    by (auto split: if_splits result.splits)
  with Cons.IH action_safe_ok sys_step.intros show ?case by (metis converse_rtranclp_into_rtranclp)
qed simp

definition demo_broker :: broker where
  "demo_broker =
     \<lparr>broker_fs = demo_fs2,
      mbroker_boxes = replicate 3 \<lparr>box_name = [], box_n_publishers = 7, box_n_subscribers = 7, box_size = 7,
        box_mutex = False, box_alloc_state = NOT_USED\<rparr>,
      mbroker_boxes_lock = False, box_count = 0, box_count_max = 3\<rparr>"

definition demo_system :: system where
  "demo_system = \<lparr>sys_broker = demo_broker, sys_pubs = Map.empty, sys_subs = Map.empty, sys_log = (\<lambda>_. [])\<rparr>"

definition demo_request :: "byte \<Rightarrow> string \<Rightarrow> registration_request_t" where
  "demo_request op nm =
     \<lparr>reg_op_code = op, reg_pipe_name = replicate PIPE_PATHNAME_LENGTH 0, reg_box_name = pad BOX_NAME_LENGTH (cstr nm)\<rparr>"

definition demo_message :: "string \<Rightarrow> received" where
  "demo_message m = Whole (PUBLISH_OP_CODE # pad MESSAGE_LENGTH (cstr m))"

definition accepts :: "byte list \<Rightarrow> syscall" where
  "accepts bs = Count (length bs)"

lemma demo_system_start: "sys_start demo_system"
  using demo_fs2_init(2,3) by (simp add: sys_start_def demo_system_def demo_broker_def a_init_def demo_params_def del: abs_simps)

text \<open>A box, a publisher and a subscriber; two messages are published, one is delivered.\<close>

definition demo_actions :: "action list" where
  "demo_actions =
     [Manage 1 True accepts (demo_request CREATE_BOX_OP ''b''), Pub_start 0 True (demo_request PUB_REGISTER_OP ''b''),
      Sub_start 0 True (demo_request SUB_REGISTER_OP ''b''), Pub_read 0 (demo_message ''hi''),
      Pub_read 0 (demo_message ''you''), Sub_run 0 accepts]"

end
