(* ===== verification/Broker_Theorems.thy ===== *)
theory Broker_Theorems
  imports Broker_Run
begin

text \<open>
  The properties of the broker with its sessions: what subscribers are sent, that no step fails,
  when a subscriber sleeps, that it receives what is stored, and the counters of the boxes.
\<close>

section \<open>A run to look at\<close>

definition demo_state :: system where
  "demo_state = (case sys_run demo_actions demo_system of Some S \<Rightarrow> S | None \<Rightarrow> demo_system)"

definition demo_view :: "system \<Rightarrow> bool" where
  "demo_view S \<longleftrightarrow>
     map_option (\<lambda>t. (th_got t, th_box t, th_mode t)) (sys_subs S 0) = Some ([cstr ''hi''], 0, Running) \<and>
     sys_log S 0 = [cstr ''hi'', cstr ''you''] \<and> used (sys_broker S) 0 \<and> label_at (sys_broker S) 0 = cstr ''b'' \<and>
     length (contents_at (sys_broker S) 0) = 7 \<and> a_block (afs_of (sys_broker S)) = 88 \<and>
     map_option pub_box (sys_pubs S 0) = Some 0"

lemma demo_run: "case sys_run demo_actions demo_system of Some S \<Rightarrow> demo_view S | None \<Rightarrow> False"
  by code_simp

lemma demo_state_view: "sys_run demo_actions demo_system = Some demo_state" "demo_view demo_state"
  using demo_run by (auto simp: demo_state_def split: option.splits)

lemma demo_reached: "sys_step\<^sup>*\<^sup>* demo_system demo_state" "sys_inv demo_state"
  using sys_run_reaches [OF demo_state_view(1)] sessions.reachable_good [OF _ demo_system_start] by simp_all

section \<open>Delivery\<close>

text \<open>
  C1: Subscribers are sent what was published, in order. In every state the broker can reach, with
  any number of boxes, publishers and subscribers whose steps interleave in any order, what a
  subscriber has been sent is a prefix of the messages its box has accepted, from the first one on.
\<close>

theorem subscribers_get_prefix:
  assumes "sys_start S0" "sys_step\<^sup>*\<^sup>* S0 S" "sys_subs S k = Some t"
  shows "prefix (th_got t) (sys_log S (th_box t))"
  using sys_invD(4) [OF sessions.reachable_good [OF assms(2,1)] assms(3)] by (simp add: sub_ok_def Let_def)

theorem subscribers_get_prefix_witness:
  "prefix (th_got (the (sys_subs demo_state 0))) (sys_log demo_state (th_box (the (sys_subs demo_state 0))))"
  using subscribers_get_prefix [OF demo_system_start demo_reached(1), of 0 "the (sys_subs demo_state 0)"] demo_state_view(2)
  by (auto simp: demo_view_def)

text \<open>
  C3: No step of the broker fails: in every state it can reach, every request, message and wake-up
  that keeps the contract is handled without abort, deadlock or undefined behaviour, and afterwards
  no mutex is left locked.
\<close>

theorem broker_steps_return:
  assumes "sys_start S0" "sys_step\<^sup>*\<^sup>* S0 S" "action_ok x S"
  shows "\<exists>S'. sys_next x S = Ok S' \<and> sys_inv S' \<and> \<not> mbroker_boxes_lock (sys_broker S') \<and>
    (\<forall>b\<in>set (mbroker_boxes (sys_broker S')). \<not> box_mutex b)"
proof -
  obtain S' where S': "sys_next x S = Ok S'" "sys_inv S'"
    using sys_next_total [OF sessions.reachable_good [OF assms(2,1)] assms(3)] by blast
  note T = table_okD [OF boxes_invD(2) [OF sys_invD(1) [OF S'(2)]]]
  with S' show ?thesis by (auto simp: in_set_conv_nth)
qed

theorem broker_steps_return_witness:
  "\<exists>S'. sys_next (Pub_read 0 End_of_file) demo_state = Ok S' \<and> sys_inv S' \<and> \<not> mbroker_boxes_lock (sys_broker S') \<and>
    (\<forall>b\<in>set (mbroker_boxes (sys_broker S')). \<not> box_mutex b)"
  by (rule broker_steps_return [OF demo_system_start demo_reached(1)]) simp

text \<open>
  C5: No wake-up is lost: a subscriber that sleeps on the condition variable of its box has been sent
  every message the box has accepted (as long as the size of the box, a 64-bit counter, has not
  wrapped around).
\<close>

theorem sleeping_subscriber_has_all:
  assumes "sys_start S0" "sys_step\<^sup>*\<^sup>* S0 S" "sys_subs S k = Some t" "th_mode t = Waiting"
    "length (stream (sys_log S (th_box t))) < 2 ^ 64"
  shows "th_got t = sys_log S (th_box t)"
  using sys_invD(4) [OF sessions.reachable_good [OF assms(2,1)] assms(3)] assms(4,5) by (simp add: sub_ok_def Let_def)

definition sleepy_actions :: "action list" where
  "sleepy_actions =
     [Manage 1 True accepts (demo_request CREATE_BOX_OP ''b''), Sub_start 4 True (demo_request SUB_REGISTER_OP ''b''),
      Sub_run 4 accepts]"

definition sleepy_state :: system where
  "sleepy_state = (case sys_run sleepy_actions demo_system of Some S \<Rightarrow> S | None \<Rightarrow> demo_system)"

lemma sleepy_run: "case sys_run sleepy_actions demo_system of Some S \<Rightarrow>
    map_option th_mode (sys_subs S 4) = Some Waiting \<and> map_option th_box (sys_subs S 4) = Some 0 \<and> sys_log S 0 = [] | None \<Rightarrow> False"
  by code_simp

lemma sleepy_reached: "sys_step\<^sup>*\<^sup>* demo_system sleepy_state" "map_option th_mode (sys_subs sleepy_state 4) = Some Waiting"
  "map_option th_box (sys_subs sleepy_state 4) = Some 0" "sys_log sleepy_state 0 = []"
  using sleepy_run sys_run_reaches [of sleepy_actions demo_system] by (auto simp: sleepy_state_def split: option.splits)

theorem sleeping_subscriber_has_all_witness:
  "th_got (the (sys_subs sleepy_state 4)) = sys_log sleepy_state (th_box (the (sys_subs sleepy_state 4)))"
  using sleeping_subscriber_has_all [OF demo_system_start sleepy_reached(1), of 4 "the (sys_subs sleepy_state 4)"] sleepy_reached(2-4)
  by auto

section \<open>Progress\<close>

text \<open>One round of a subscriber that is not asleep and has something to read.\<close>

lemma sub_round_delivers:
  assumes inv: "sys_inv S" and k: "sys_subs S k = Some t" and awake: "th_mode t \<noteq> Waiting"
    and more: "length (th_got t) < stored (contents_at (sys_broker S) (th_box t))"
    and small: "length (stream (sys_log S (th_box t))) < 2 ^ 64"
    and wr: "subscriber_response_send wr (response_of (sys_log S (th_box t) ! length (th_got t))) = 0"
  obtains S' t' where "sys_next (Sub_run k wr) S = Ok S'" "sys_inv S'" "sys_log S' = sys_log S" "sys_subs S' k = Some t'"
    "th_got t' = th_got t @ [sys_log S (th_box t) ! length (th_got t)]" "th_mode t' = Running" "th_box t' = th_box t"
    "contents_at (sys_broker S') (th_box t) = contents_at (sys_broker S) (th_box t)"
    "a_block (afs_of (sys_broker S')) = a_block (afs_of (sys_broker S))"
proof -
  let ?br = "sys_broker S" and ?i = "th_box t" and ?m = "sys_log S (th_box t) ! length (th_got t)"
  note I = sys_invD [OF inv]
  have u: "used ?br ?i" "prefix (th_got t) (sys_log S ?i)"
    "sub_total_read (th_session t) = of_nat (length (stream (th_got t)))"
    using I(4) [OF k] by (simp_all add: sub_ok_def Let_def)
  note B = box_okD [OF I(5) [OF u(1)]] and len = usedD [OF boxes_invD(2) [OF I(1)] u(1)]
  have "\<not> length (stream (sys_log S ?i)) \<le> length (stream (th_got t))"
    using read_everything [OF u(2)] more B(1) by (auto simp: store_ok_def)
  moreover have "length (stream (th_got t)) \<le> length (stream (sys_log S ?i))" using prefix_length_le [OF stream_mono [OF u(2)]] .
  ultimately have "\<not> sub_total_read (th_session t) \<ge> box_size (mbroker_boxes ?br ! ?i)"
    using small u(3) B(2) by (simp add: word_le_nat_alt unat_of_nat take_bit_nat_eq_self)
  then have woken: "sys_next (Sub_run k wr) S = bindR (subscriber_woken wr (th_session t) ?br) (\<lambda>res. sub_goes_on k t res S)"
    using k awake subscriber_round_eq [OF I(1) I(4) [OF k], of wr] by (cases "th_mode t") simp_all
  from I(1) I(4) [OF k] B(1) I(2) show thesis
  proof (cases rule: subscriber_woken_cases [where wr = wr])
    case (sent fs)
    have t: "touches ?br ?i (mbroker_boxes ?br ! ?i) fs (contents_at ?br ?i)"
      by (rule touches_handles [OF I(1) u(1) sent(4)]) (use sent(5) len in \<open>simp_all del: abs_simps stream_simps\<close>)
    have same: "contents_at (touch ?i (mbroker_boxes ?br ! ?i) fs ?br) ?i = contents_at ?br ?i"
      using touches_views(5) [OF I(1) t u(1)] by simp
    let ?t = "\<lparr>th_session = (th_session t)\<lparr>sub_total_read := of_nat (length (stream (th_got t @ [?m])))\<rparr>, th_mode = Running,
      th_got = th_got t @ [?m]\<rparr>"
    have "bindR (subscriber_woken wr (th_session t) ?br) (\<lambda>res. sub_goes_on k t res S) =
        Ok (S\<lparr>sys_broker := touch ?i (mbroker_boxes ?br ! ?i) fs ?br, sys_subs := (sys_subs S)(k \<mapsto> ?t)\<rparr>)"
      using sent by (simp add: sub_goes_on_def response_of_def string_of_pad del: stream_simps abs_simps)
    from that [where t' = ?t, OF trans [OF woken this] sub_receives [OF inv k sent(1,4,5)]] show thesis
      using same touchesD(8) [OF t] by (simp del: stream_simps abs_simps)
  qed (use more wr in simp_all)
qed

text \<open>And as many rounds as there are messages to send.\<close>

lemma sub_rounds_deliver:
  assumes "\<forall>m. length m < MESSAGE_LENGTH \<longrightarrow> subscriber_response_send wr (response_of m) = 0"
  shows "sys_inv S \<Longrightarrow> sys_subs S k = Some t \<Longrightarrow> th_mode t \<noteq> Waiting \<Longrightarrow>
    length (contents_at (sys_broker S) (th_box t)) < a_block (afs_of (sys_broker S)) \<Longrightarrow>
    n = length (sys_log S (th_box t)) - length (th_got t) \<Longrightarrow>
    \<exists>S' t'. foldR sys_next (replicate n (Sub_run k wr)) S = Ok S' \<and>
      sys_subs S' k = Some t' \<and> th_box t' = th_box t \<and> th_got t' = sys_log S (th_box t)"
proof (induction n arbitrary: S t)
  case 0
  have "prefix (th_got t) (sys_log S (th_box t))" using sys_invD(4) [OF 0(1,2)] by (simp add: sub_ok_def Let_def)
  with 0 show ?case by (auto simp: prefix_def)
next
  case (Suc n)
  let ?i = "th_box t"
  have u: "used (sys_broker S) ?i" using sys_invD(4) [OF Suc.prems(1,2)] by (simp add: sub_ok_def Let_def)
  note B = box_okD(1) [OF sys_invD(5) [OF Suc.prems(1) u]]
  have c: "stored (contents_at (sys_broker S) ?i) = length (sys_log S ?i)" "contents_at (sys_broker S) ?i = stream (sys_log S ?i)"
    using B Suc.prems(4) by (auto simp: store_ok_def)
  have "length (stream (sys_log S ?i)) < 2 ^ 64"
    using c(2) Suc.prems(4) sys_invD(2) [OF Suc.prems(1)] by simp
  from Suc.prems(5) have lt: "length (th_got t) < length (sys_log S ?i)" by simp
  then have "sys_log S ?i ! length (th_got t) \<in> set (sys_log S ?i)" by simp
  with B assms have "subscriber_response_send wr (response_of (sys_log S ?i ! length (th_got t))) = 0"
    by (auto simp: store_ok_def)
  moreover from lt have "length (th_got t) < stored (contents_at (sys_broker S) ?i)" using c(1) by simp
  ultimately obtain S' t' where S': "sys_next (Sub_run k wr) S = Ok S'" "sys_inv S'" "sys_log S' = sys_log S" "sys_subs S' k = Some t'"
    "th_got t' = th_got t @ [sys_log S ?i ! length (th_got t)]" "th_mode t' = Running" "th_box t' = ?i"
    "contents_at (sys_broker S') ?i = contents_at (sys_broker S) ?i"
    "a_block (afs_of (sys_broker S')) = a_block (afs_of (sys_broker S))"
    using sub_round_delivers [OF Suc.prems(1-3), of wr] \<open>length (stream (sys_log S ?i)) < 2 ^ 64\<close> by metis
  have "\<exists>S'' t''. foldR sys_next (replicate n (Sub_run k wr)) S' = Ok S'' \<and>
      sys_subs S'' k = Some t'' \<and> th_box t'' = th_box t' \<and> th_got t'' = sys_log S' (th_box t')"
    by (rule Suc.IH [OF S'(2,4)]) (use S' Suc.prems lt in \<open>simp_all del: abs_simps\<close>)
  then show ?case using S'(1,3,7) by (simp del: sys_next.simps)
qed

text \<open>
  C4: What is stored gets delivered: as long as the file of a box is not full, a subscriber of it that
  is awake and whose client takes what it is sent has, after one round for each message it lacks,
  been sent every message the box has accepted.
\<close>

theorem subscriber_catches_up:
  assumes "sys_start S0" "sys_step\<^sup>*\<^sup>* S0 S" "sys_subs S k = Some t" "th_mode t \<noteq> Waiting"
    "length (contents_at (sys_broker S) (th_box t)) < a_block (afs_of (sys_broker S))"
    "\<forall>m. length m < MESSAGE_LENGTH \<longrightarrow> subscriber_response_send wr (response_of m) = 0"
  shows "\<exists>S' t'. foldR sys_next (replicate (length (sys_log S (th_box t)) - length (th_got t)) (Sub_run k wr)) S = Ok S' \<and>
    sys_subs S' k = Some t' \<and> th_box t' = th_box t \<and> th_got t' = sys_log S (th_box t)"
  by (rule sub_rounds_deliver [OF assms(6) sessions.reachable_good [OF assms(2,1)] assms(3-5) refl])

lemma accepts_response: "length m < MESSAGE_LENGTH \<Longrightarrow> subscriber_response_send accepts (response_of m) = 0"
  by (simp add: subscriber_response_send_def publisher_request_send_def accepts_def publisher_bytes_def response_of_def)

theorem subscriber_catches_up_witness:
  "\<exists>S' t'. foldR sys_next (replicate 1 (Sub_run 0 accepts)) demo_state = Ok S' \<and> sys_subs S' 0 = Some t' \<and> th_box t' = 0 \<and>
    th_got t' = [cstr ''hi'', cstr ''you'']"
proof -
  obtain t where t: "sys_subs demo_state 0 = Some t" "th_got t = [cstr ''hi'']" "th_box t = 0" "th_mode t = Running"
    using demo_state_view(2) by (auto simp: demo_view_def)
  from subscriber_catches_up [OF demo_system_start demo_reached(1) t(1), of accepts] demo_state_view(2) t accepts_response
  show ?thesis by (simp add: demo_view_def del: abs_simps sys_next.simps)
qed

section \<open>Counters\<close>



text \<open>Boxes and names are in the directory of the file system.\<close>

lemma used_bounded:
  assumes "boxes_inv br"
  shows "card {i. used br i} \<le> a_slots (afs_of br)"
proof -
  note I = boxes_invD [OF assms] and T = table_okD [OF boxes_invD(2) [OF assms]]
  have "inj_on (label_at br) {i. used br i}" using T(5) by (auto intro: inj_onI)
  then have "card {i. used br i} = card (label_at br ` {i. used br i})" by (simp add: card_image)
  also have "\<dots> \<le> card (dom (a_names (afs_of br)))"
    using used_file(1) [OF assms] afs_okD(1) [OF I(3)] by (intro card_mono) (auto simp del: abs_simps)
  also have "\<dots> \<le> a_slots (afs_of br)" using afs_okD(2) [OF I(3)] .
  finally show ?thesis .
qed

text \<open>
  \<open>box_count\<close> is the number of boxes in every state the broker can reach, and it is bounded by
  the directory of the file system: there are never more boxes than entries in one block, 23 with
  the parameters \<open>init_mbroker\<close> uses, whatever \<open>BOX_COUNT_MAX\<close> says.
\<close>

theorem box_count_bounded:
  assumes "sys_start S0" "sys_step\<^sup>*\<^sup>* S0 S"
  shows "box_count (sys_broker S) = int (card {i. used (sys_broker S) i}) \<and>
    0 \<le> box_count (sys_broker S) \<and> box_count (sys_broker S) \<le> int (a_slots (afs_of (sys_broker S)))"
  using sys_invD(1,10) [OF sessions.reachable_good [OF assms(2,1)]] used_bounded by simp

theorem box_count_bounded_witness:
  "box_count (sys_broker demo_state) = int (card {i. used (sys_broker demo_state) i}) \<and>
    0 \<le> box_count (sys_broker demo_state) \<and> box_count (sys_broker demo_state) \<le> int (a_slots (afs_of (sys_broker demo_state)))"
  by (rule box_count_bounded [OF demo_system_start demo_reached(1)])

text \<open>
  \<open>init_mbroker\<close> succeeds whatever the memory it is given holds, and leaves a broker without
  boxes from which all the states of the other properties are reached; its file system has room for
  23 files and blocks of 1024 bytes.
\<close>

theorem init_mbroker_ready:
  assumes "23 \<le> box_count_max br" "box_count_max br < 2 ^ 31"
    "allocs_ok (broker_params (box_count_max br)) (up_allocs al)"
    "\<not> allocated2 (broker_fs br)" "\<not> g_library_mutex (broker_fs br)"
    "box_count br = 0" "\<not> mbroker_boxes_lock br" "length mem = box_count_max br"
  shows "\<exists>br'. init_mbroker al (Some mem) br = Ok (0, br') \<and> a_slots (afs_of br') = 23 \<and>
    sys_start \<lparr>sys_broker = br', sys_pubs = Map.empty, sys_subs = Map.empty, sys_log = (\<lambda>_. [])\<rparr>"
  using init_mbroker_starts [OF assms] by metis

definition broker_allocs :: "nat \<Rightarrow> fs2_allocs" where
  "broker_allocs n =
     \<lparr>a_inode_table2 = Some (replicate n \<lparr>i_node_type2 = T_FILE2, i_size2 = 9, i_data_block2 = 5\<rparr>),
      a_freeinode_ts2 = Some (replicate n TAKEN), a_fs_data2 = Some (replicate 1048576 65),
      a_free_blocks2 = Some (replicate 1024 TAKEN), a_open_file_table2 = Some (replicate 16 \<lparr>of_inumber = 3, of_offset = 4\<rparr>),
      a_free_open_file_entries2 = Some (replicate 16 TAKEN)\<rparr>"

definition stopped_broker :: "nat \<Rightarrow> broker" where
  "stopped_broker n =
     \<lparr>broker_fs = blank2, mbroker_boxes = [], mbroker_boxes_lock = False, box_count = 0, box_count_max = n\<rparr>"

theorem init_mbroker_ready_witness:
  "\<exists>br'. init_mbroker (broker_allocs 1024) (Some (replicate 1024 \<lparr>box_name = [65], box_n_publishers = 7, box_n_subscribers = 7,
      box_size = 7, box_mutex = True, box_alloc_state = USED\<rparr>)) (stopped_broker 1024) = Ok (0, br') \<and> a_slots (afs_of br') = 23 \<and>
    sys_start \<lparr>sys_broker = br', sys_pubs = Map.empty, sys_subs = Map.empty, sys_log = (\<lambda>_. [])\<rparr>"
  by (rule init_mbroker_ready) (simp_all add: stopped_broker_def blank2_def allocs_ok_def broker_params_def
      tfs_default_params2_def up_allocs_def broker_allocs_def)

end
