(* ===== verification/Box_Theorems.thy ===== *)
theory Box_Theorems
  imports Broker_Theorems
begin

text \<open>
  The properties of the operations on boxes: creation and removal with every way they can fail, the
  listing, the storage of a message, and where names and messages run out of space.
\<close>

section \<open>Lookup after a change of the table\<close>

lemma get_box_None_iff:
  assumes "table_ok br" "0 \<notin> set nm"
  shows "get_box nm br = Ok None \<longleftrightarrow> (\<forall>i. used br i \<longrightarrow> label_at br i \<noteq> nm)"
  using assms by (cases rule: get_box_cases) auto

lemma get_box_cong:
  assumes "table_ok br" "table_ok br'" "0 \<notin> set nm" "box_count_max br' = box_count_max br"
    "\<And>i. (used br' i \<and> label_at br' i = nm) = (used br i \<and> label_at br i = nm)"
  shows "get_box nm br' = get_box nm br"
  using get_box_find [OF assms(1,3)] get_box_find [OF assms(2,3)] assms(4,5) by simp

lemma told_message: "0 \<notin> set msg \<Longrightarrow> string_at (man_error_message (told resp msg)) 0 = Ok msg"
  by (rule string_at_terminated) (simp_all add: told_def read_at_def)

lemma error_strings: "0 \<notin> set RESP_ERR_DUPLICATE_BOX" "0 \<notin> set RESP_ERR_CREATE_BOX" "0 \<notin> set RESP_ERR_UNKNOWN_BOX"
  by (simp_all add: error_texts)

section \<open>Creating and deleting\<close>

text \<open>
  C18: \<open>create_box\<close> does what it says. For a name of 1 to 30 bytes it succeeds exactly when no box has
  the name and the file system has a handle and, unless a file of that name is left over, an inode
  and a directory entry; then \<open>get_box\<close> finds the box, empty. Otherwise it reports -1 with the
  message for a duplicate or for a failed creation, and \<open>get_box\<close> answers as before. No other box is
  affected, and the table stays well-formed.
\<close>

theorem create_box_exact:
  assumes inv: "boxes_inv br" and nm: "label_ok nm" and pre: "0 < slack" "length (man_error_message resp) = ERR_MESSAGE_LENGTH"
  shows "\<exists>r resp' br'. create_box slack resp nm br = Ok (r, resp', br') \<and> boxes_inv br' \<and>
    (r = 0 \<longleftrightarrow> get_box nm br = Ok None \<and> can_create nm (afs_of br)) \<and>
    (r = 0 \<longrightarrow> (\<exists>i. get_box nm br' = Ok (Some i) \<and> contents_at br' i = [])) \<and>
    (r \<noteq> 0 \<longrightarrow> r = -1 \<and> get_box nm br' = get_box nm br \<and> string_at (man_error_message resp') 0 =
      Ok (if get_box nm br = Ok None then RESP_ERR_CREATE_BOX else RESP_ERR_DUPLICATE_BOX)) \<and>
    (\<forall>nm'. 0 \<notin> set nm' \<longrightarrow> nm' \<noteq> nm \<longrightarrow> get_box nm' br' = get_box nm' br)"
proof -
  note I = boxes_invD [OF inv] and T = table_okD [OF boxes_invD(2) [OF inv]]
  have z: "0 \<notin> set nm" using nm by (simp add: label_ok_def)
  note none = get_box_None_iff [OF I(2) z]
  show ?thesis
  proof (cases "get_box nm br = Ok None")
    case False
    then obtain i where "used br i" "label_at br i = nm" using none by blast
    with create_box_duplicate [OF I(2) _ pre(2), of i slack] False inv show ?thesis
      by (auto simp: told_message error_strings)
  next
    case True
    with none have all: "\<forall>i. used br i \<longrightarrow> label_at br i \<noteq> nm" by blast
    from inv nm all pre show ?thesis
    proof (cases rule: create_box_cases)
      case (created i fs)
      let ?br = "br\<lparr>broker_fs := fs, mbroker_boxes := (mbroker_boxes br)[i := new_box nm]\<rparr>"
      note T' = boxes_invD(2) [OF created(7)]
      have u: "used ?br j \<longleftrightarrow> used br j \<or> j = i" for j using created(2,3) T(1) by (auto simp: used_def nth_list_update)
      have box: "label_at ?br j = (if j = i then nm else label_at br j)" for j
        using created(2) T(1) nm by (cases "j = i") auto
      have "get_box nm ?br = Ok (Some i)" using get_box_Some [OF T', of i] u box by simp
      moreover have "contents_at ?br i = []"
      proof -
        obtain x where x: "a_names (abs_fs2 fs) nm = Some x" using created(6) by blast
        have "a_nodes (abs_fs2 fs) x = Some (File [])"
          using grown_keeps(7) [OF created(5) x] grown_keeps(6) [OF created(5)] I(4) all by (auto simp: files_ok_def)
        moreover have "ino_at ?br i = x" using x box unfolding ino_at_def by (simp del: abs_simps)
        ultimately show ?thesis by (simp add: contents_at_def del: abs_simps)
      qed
      moreover have "get_box nm' ?br = get_box nm' br" if "0 \<notin> set nm'" "nm' \<noteq> nm" for nm'
        by (rule get_box_cong [OF I(2) T' that(1)]) (use u box that(2) created(3) in auto)
      ultimately show ?thesis using created True by auto
    next
      case (failed fs)
      note T' = boxes_invD(2) [OF failed(4)]
      have "get_box nm' (br\<lparr>broker_fs := fs\<rparr>) = get_box nm' br" if "0 \<notin> set nm'" for nm'
        by (rule get_box_cong [OF I(2) T' that]) (auto simp: used_def)
      with failed True z show ?thesis by (auto simp: told_message error_strings)
    qed
  qed
qed

lemma demo_boxes: "boxes_inv (sys_broker demo_state)"
  using sys_invD(1) [OF demo_reached(2)] .

theorem create_box_exact_witness:
  "\<exists>r resp' br'. create_box 1 (blank_response 4) (cstr ''b'') (sys_broker demo_state) = Ok (r, resp', br') \<and> boxes_inv br' \<and>
    (r = 0 \<longleftrightarrow> get_box (cstr ''b'') (sys_broker demo_state) = Ok None \<and> can_create (cstr ''b'') (afs_of (sys_broker demo_state))) \<and>
    r = -1 \<and> string_at (man_error_message resp') 0 = Ok RESP_ERR_DUPLICATE_BOX"
proof -
  let ?br = "sys_broker demo_state"
  have nm: "label_ok (cstr ''b'')" by (simp add: label_ok_def cstr_def)
  have "get_box (cstr ''b'') ?br = Ok (Some 0)"
    using get_box_Some [OF boxes_invD(2) [OF demo_boxes], of 0] demo_state_view(2) by (simp add: demo_view_def)
  with create_box_exact [OF demo_boxes nm, of 1 "blank_response 4"] show ?thesis by auto
qed

text \<open>
  C19: \<open>delete_box\<close> does what it says, for a box on which no file handle is open: it succeeds exactly when
  a box has the name, otherwise it reports -1 and \<open>Box doesn't exist\<close> and changes nothing; afterwards
  \<open>get_box\<close> does not find the name, and it answers as before for every other name.
\<close>

theorem delete_box_exact:
  assumes inv: "boxes_inv br" and nm: "0 \<notin> set nm" and pre: "length (man_error_message resp) = ERR_MESSAGE_LENGTH"
    and closed: "\<forall>i fd off. get_box nm br = Ok (Some i) \<longrightarrow> a_handles (afs_of br) fd \<noteq> Some (ino_at br i, off)"
  shows "\<exists>r resp' br'. delete_box resp nm br = Ok (r, resp', br') \<and> boxes_inv br' \<and> get_box nm br' = Ok None \<and>
    (r = 0 \<longleftrightarrow> get_box nm br \<noteq> Ok None) \<and>
    (r \<noteq> 0 \<longrightarrow> r = -1 \<and> br' = br \<and> string_at (man_error_message resp') 0 = Ok RESP_ERR_UNKNOWN_BOX) \<and>
    (\<forall>nm'. 0 \<notin> set nm' \<longrightarrow> nm' \<noteq> nm \<longrightarrow> get_box nm' br' = get_box nm' br)"
proof -
  note I = boxes_invD [OF inv] and T = table_okD [OF boxes_invD(2) [OF inv]]
  from I(2) nm show ?thesis
  proof (cases rule: get_box_cases)
    case none
    then have "\<And>i. used br i \<Longrightarrow> label_at br i \<noteq> nm" by blast
    with delete_box_unknown [OF I(2) nm _ pre] none inv show ?thesis by (auto simp: told_message error_strings)
  next
    case (box i)
    have c: "a_handles (afs_of br) fd \<noteq> Some (ino_at br i, off)" for fd off using closed box(1) by blast
    let ?b = "(mbroker_boxes br ! i)\<lparr>box_alloc_state := NOT_USED\<rparr>"
    obtain fs where fs: "delete_box resp (label_at br i) br = Ok (0, resp, br\<lparr>broker_fs := fs, mbroker_boxes :=
        (mbroker_boxes br)[i := ?b]\<rparr>)" "fs2_inv fs" "abs_fs2 fs = a_remove (label_at br i) (ino_at br i) (afs_of br)"
      by (rule delete_box_used [OF inv box(2) c]) (rule that)
    let ?br = "br\<lparr>broker_fs := fs, mbroker_boxes := (mbroker_boxes br)[i := ?b]\<rparr>"
    have inv': "boxes_inv ?br" by (rule boxes_inv_delete [OF inv box(2) fs(2,3)])
    note T' = boxes_invD(2) [OF inv'] and len = usedD [OF I(2) box(2)]
    have u: "used ?br j \<longleftrightarrow> used br j \<and> j \<noteq> i" for j using len by (auto simp: used_def nth_list_update)
    have lab: "label_at ?br j = label_at br j" for j
      using len by (cases "j = i") (auto simp: label_of_def)
    have "get_box nm ?br = Ok None" using get_box_None_iff [OF T' nm] u lab T(5) [OF _ box(2)] box(3) by auto
    moreover have "get_box nm' ?br = get_box nm' br" if "0 \<notin> set nm'" "nm' \<noteq> nm" for nm'
      by (rule get_box_cong [OF I(2) T' that(1)]) (use u lab that(2) box(3) in auto)
    ultimately show ?thesis using fs(1) box inv' by auto
  qed
qed

text \<open>A broker with one box and no sessions.\<close>

definition made_state :: system where
  "made_state = (case sys_run [Manage 1 True accepts (demo_request CREATE_BOX_OP ''b'')] demo_system of Some S \<Rightarrow> S | None \<Rightarrow> demo_system)"

lemma made_run: "case sys_run [Manage 1 True accepts (demo_request CREATE_BOX_OP ''b'')] demo_system of
    Some S \<Rightarrow> used (sys_broker S) 0 \<and> label_at (sys_broker S) 0 = cstr ''b'' | None \<Rightarrow> False"
  by code_simp

lemma made_state_view:
  "sys_inv made_state" "used (sys_broker made_state) 0" "label_at (sys_broker made_state) 0 = cstr ''b''"
  "sys_pubs made_state = Map.empty" "sys_subs made_state = Map.empty"
proof -
  obtain S where S: "sys_run [Manage 1 True accepts (demo_request CREATE_BOX_OP ''b'')] demo_system = Some S" "made_state = S"
    "used (sys_broker S) 0" "label_at (sys_broker S) 0 = cstr ''b''"
    using made_run by (auto simp: made_state_def split: option.splits)
  show "sys_inv made_state" using sessions.reachable_good [OF sys_run_reaches [OF S(1)] demo_system_start] S(2) by simp
  have "sys_pubs S = Map.empty" "sys_subs S = broadcast (\<lambda>i. used demo_broker i \<and> \<not> used (sys_broker S) i) Map.empty"
    using S(1) by (auto simp: demo_system_def bindR_eq_Ok split: if_splits result.splits prod.splits)
  then show "sys_pubs made_state = Map.empty" "sys_subs made_state = Map.empty"
    using S(2) broadcast_none [of Map.empty] by simp_all
qed (use made_run in \<open>auto simp: made_state_def split: option.splits\<close>)

lemma made_state_reached: "sys_step\<^sup>*\<^sup>* demo_system made_state"
  using made_run sys_run_reaches [of "[Manage 1 True accepts (demo_request CREATE_BOX_OP ''b'')]" demo_system]
  by (auto simp: made_state_def split: option.splits)

lemma made_state_closed: "a_handles (afs_of (sys_broker made_state)) fd \<noteq> Some (ino_at (sys_broker made_state) 0, off)"
  using handle_session [OF made_state_view(1,2)] made_state_view(4,5) by (auto simp: pubs_on_def subs_on_def)

theorem delete_box_exact_witness:
  "\<exists>r resp' br'. delete_box (blank_response 6) (cstr ''b'') (sys_broker made_state) = Ok (r, resp', br') \<and> r = 0 \<and>
    boxes_inv br' \<and> get_box (cstr ''b'') br' = Ok None"
proof -
  let ?br = "sys_broker made_state"
  have inv: "boxes_inv ?br" using sys_invD(1) [OF made_state_view(1)] .
  have "get_box (cstr ''b'') ?br = Ok (Some 0)"
    using get_box_Some [OF boxes_invD(2) [OF inv] made_state_view(2)] made_state_view(3) by simp
  with delete_box_exact [OF inv, of "cstr ''b''" "blank_response 6"] made_state_closed show ?thesis
    by (auto simp: cstr_def simp del: abs_simps)
qed

section \<open>Listing\<close>

definition list_entry :: "broker \<Rightarrow> nat \<Rightarrow> nat \<Rightarrow> list_manager_response_t" where
  "list_entry br j i =
     (let b = mbroker_boxes br ! i in
      \<lparr>list_op_code = LIST_MANAGER_OP, list_last_flag = (if int (Suc j) = box_count br then 1 else 0),
       list_box_name = box_name b, list_box_size = box_size b, list_n_publishers = box_n_publishers b,
       list_n_subscribers = box_n_subscribers b\<rparr>)"

lemma list_entry_wf: "box_wf (mbroker_boxes br ! i) \<Longrightarrow> list_wf (list_entry br j i)"
proof -
  assume "box_wf (mbroker_boxes br ! i)"
  then have "length (box_name (mbroker_boxes br ! i)) = BOX_NAME_LENGTH" unfolding box_wf_def label_ok_def by auto
  then show ?thesis by (simp add: list_wf_def list_entry_def Let_def)
qed

lemma list_loop_eq:
  assumes br: "table_ok br" and wr: "\<And>j r. list_wf r \<Longrightarrow> list_manager_response_send (wr j) r = 0"
  shows "(\<forall>i\<in>set is. i < box_count_max br) \<Longrightarrow> box_count br = int (j + length (filter (used br) is)) \<Longrightarrow>
    list_loop wr br is j = Ok (map (\<lambda>(j, i). list_entry br j i) (enumerate j (filter (used br) is)))"
proof (induction "is" arbitrary: j)
  case (Cons i "is")
  then have i: "i < length (mbroker_boxes br)" using table_okD(1) [OF br] by simp
  show ?case
  proof (cases "used br i")
    case False
    then have nu: "box_alloc_state (mbroker_boxes br ! i) \<noteq> USED" using i by (simp add: used_def)
    with Cons False i show ?thesis by (cases "filter (used br) is") simp_all
  next
    case True
    note wf = table_okD(4) [OF br True]
    let ?b = "mbroker_boxes br ! i"
    have nm: "list_manager_response_init l (Some (slash # label_of ?b)) x y z = Ok (0, \<lparr>list_op_code = LIST_MANAGER_OP,
        list_last_flag = l, list_box_name = box_name ?b, list_box_size = x, list_n_publishers = y, list_n_subscribers = z\<rparr>)" for l x y z
      using wf by (simp add: list_manager_response_init_def strcpy_zeros box_wf_def label_ok_def)
    have "list_manager_response_send (wr j) (list_entry br j i) = 0" by (rule wr [OF list_entry_wf [OF wf]])
    moreover have "box_count br \<noteq> int j" using Cons.prems(2) True by simp
    ultimately show ?thesis
      using Cons True i box_wf_path [OF wf] nm by (simp add: used_def list_entry_def Let_def)
  qed
qed simp

lemma used_filter: "table_ok br \<Longrightarrow> {i. used br i} = set (filter (used br) [0..<box_count_max br])"
  by (auto simp: used_def table_ok_def)

text \<open>The responses \<open>handle_list\<close> sends.\<close>

definition list_entries :: "broker \<Rightarrow> list_manager_response_t list" where
  "list_entries br = map (\<lambda>(j, i). list_entry br j i) (enumerate 0 (filter (used br) [0..<box_count_max br]))"

lemma handle_list_sends:
  assumes inv: "boxes_inv br" and count: "box_count br = int (card {i. used br i})"
  shows "(\<And>j r. list_wf r \<Longrightarrow> list_manager_response_send (wr j) r = 0) \<Longrightarrow> handle_list True wr br = Ok (0, list_entries br)"
    and "j < length (list_entries br) \<Longrightarrow> list_last_flag (list_entries br ! j) = (if Suc j = length (list_entries br) then 1 else 0)"
    and "\<forall>r\<in>set (list_entries br). list_wf r"
proof -
  let ?is = "filter (used br) [0..<box_count_max br]"
  note I = boxes_invD [OF inv]
  have n: "box_count br = int (length ?is)"
    using count distinct_card [of ?is] unfolding used_filter [OF I(2)] by simp
  show "handle_list True wr br = Ok (0, list_entries br)" if "\<And>j r. list_wf r \<Longrightarrow> list_manager_response_send (wr j) r = 0"
    using list_loop_eq [OF I(2) that, of "[0..<box_count_max br]" 0] n by (simp add: handle_list_def list_entries_def)
  show "j < length (list_entries br) \<Longrightarrow> list_last_flag (list_entries br ! j) = (if Suc j = length (list_entries br) then 1 else 0)"
    using n by (simp add: list_entries_def list_entry_def Let_def nth_enumerate_eq)
  show "\<forall>r\<in>set (list_entries br). list_wf r"
    using table_okD(4) [OF I(2)] by (auto simp: list_entries_def in_set_enumerate_eq intro!: list_entry_wf dest!: nth_mem)
qed

text \<open>
  \<open>handle_list\<close> sends one response for every box, in the order of the table, with the name, size and
  numbers of publishers and subscribers of the box; the last response and no other carries the last
  flag. The client decodes exactly these responses from the bytes in its pipe.
\<close>

theorem handle_list_complete:
  assumes inv: "boxes_inv br" and count: "box_count br = int (card {i. used br i})"
    and wr: "\<forall>j r. list_wf r \<longrightarrow> list_manager_response_send (wr j) r = 0"
  shows "\<exists>resps. handle_list True wr br = Ok (0, resps) \<and>
    map (\<lambda>r. (list_box_name r, list_box_size r, list_n_publishers r, list_n_subscribers r)) resps =
      map (\<lambda>i. let b = mbroker_boxes br ! i in (box_name b, box_size b, box_n_publishers b, box_n_subscribers b))
        (filter (used br) [0..<box_count_max br]) \<and>
    (\<forall>j < length resps. list_last_flag (resps ! j) = (if Suc j = length resps then 1 else 0)) \<and>
    receive sizeof_list list_of (concat (map list_bytes resps)) = resps"
proof -
  note sends = handle_list_sends [OF inv count]
  have "map (\<lambda>r. (list_box_name r, list_box_size r, list_n_publishers r, list_n_subscribers r)) (list_entries br) =
      map (\<lambda>i. let b = mbroker_boxes br ! i in (box_name b, box_size b, box_n_publishers b, box_n_subscribers b))
        (filter (used br) [0..<box_count_max br])"
    by (rule nth_equalityI) (simp_all add: list_entries_def list_entry_def Let_def nth_enumerate_eq)
  with sends(1) [of wr] sends(2) wr list_wire.receive_sent [OF sends(3), of "[]"] show ?thesis by auto
qed

theorem handle_list_complete_witness:
  "\<exists>resps. handle_list True (\<lambda>j. accepts) (sys_broker made_state) = Ok (0, resps) \<and>
    receive sizeof_list list_of (concat (map list_bytes resps)) = resps"
proof -
  have "list_manager_response_send accepts r = 0" if "list_wf r" for r
    using that by (simp add: list_manager_response_send_def accepts_def list_wire.enc_size)
  with handle_list_complete [OF sys_invD(1,10) [OF made_state_view(1)], of "\<lambda>j. accepts"] show ?thesis by blast
qed

section \<open>Storing a message\<close>

text \<open>
  What \<open>write_message\<close> stores and returns, for a handle at the end of a file: the message and its
  terminator are appended as far as the block reaches; the result is the length of the message when
  the message without the terminator fits, and -1 otherwise. So a message that ends exactly at the
  end of the block is reported as written although its terminator is lost.
\<close>

theorem write_message_exact:
  assumes "fs2_inv s" "stands (abs_fs2 s) fd i (length c) c" "length m < 2 ^ 63"
    "length c \<le> a_block (abs_fs2 s)" "c \<noteq> [] \<or> 0 < a_free (abs_fs2 s)"
  shows "\<exists>s'. write_message fd m s = Ok (if length c + length m \<le> a_block (abs_fs2 s) then int (length m) else -1, s') \<and>
    fs2_inv s' \<and> abs_fs2 s' = appended fd i c (take (a_block (abs_fs2 s) - length c) (m @ [0])) (abs_fs2 s)"
  using write_message_appends [OF assms] by metis

theorem write_message_exact_witness:
  "\<exists>fd s'. write_message fd (cstr ''more'') (broker_fs (sys_broker demo_state)) = Ok (4, s') \<and> fs2_inv s'"
proof -
  let ?br = "sys_broker demo_state" and ?c = "contents_at (sys_broker demo_state) 0"
  obtain p where p: "sys_pubs demo_state 0 = Some p" "pub_box p = 0" and c: "length ?c = 7" "a_block (afs_of ?br) = 88"
    using demo_state_view(2) by (auto simp: demo_view_def)
  have st: "stands (afs_of ?br) (pub_box_fd p) (ino_at ?br 0) (length ?c) ?c"
    using pub_stands [OF demo_boxes sys_invD(3) [OF demo_reached(2) p(1)]] p(2) by simp
  from write_message_exact [OF boxes_invD(1) [OF demo_boxes] st, of "cstr ''more''"] c show ?thesis
    by (fastforce simp: cstr_def simp del: abs_simps)
qed

definition full_message :: received where
  "full_message = Whole (PUBLISH_OP_CODE # pad MESSAGE_LENGTH (replicate 88 65))"



section \<open>Names that do not fit\<close>

text \<open>
  C36: \<open>box_initialize\<close> on every name: it is defined only when an unused byte follows its buffer, which is
  one byte too short for every name, and when the name has at most 30 bytes, although the protocol
  allows 31. Otherwise it writes past the end of an array.
\<close>

theorem box_initialize_exact:
  assumes "0 \<notin> set nm"
  shows "box_initialize slack nm = (if 0 < slack \<and> length nm \<le> 30 then Ok (0, new_box nm) else Undef)"
proof (cases slack)
  case 0
  then show ?thesis by (cases nm) (simp_all add: box_initialize_def Let_def mem_write_def write_at_def)
next
  case (Suc k)
  have t: "mem_write (replicate (length nm + 1 + slack) 0) 0 [slash, 0] = Ok (slash # replicate (length nm + slack) 0)"
    using Suc by (simp add: write_at_start)
  have u: "mem_write (slash # replicate (length nm + slack) 0) 1 (nm @ [0]) = Ok ((slash # nm) @ 0 # replicate k 0)"
    using Suc by (simp add: write_at_def)
  have s: "string_at ((slash # nm) @ 0 # replicate k 0) 0 = Ok (slash # nm)"
    by (rule string_at_terminated) (use assms in \<open>auto simp: read_at_def slash_def\<close>)
  have c: "strcpy (replicate BOX_NAME_LENGTH 0) (slash # nm) =
      (if length nm \<le> 30 then Ok (pad BOX_NAME_LENGTH (slash # nm)) else Undef)"
    using strcpy_zeros [of "slash # nm" BOX_NAME_LENGTH] by (simp add: strcpy_def mem_write_def)
  show ?thesis
    unfolding box_initialize_def Let_def t bindR.simps u s c using Suc by (simp add: new_box_def)
qed

theorem box_initialize_exact_witness: "box_initialize 0 (cstr ''news'') = Undef"
  using box_initialize_exact [of "cstr ''news''" 0] by (simp add: cstr_def)

end
