(* ===== verification/Protocol_Theorems.thy ===== *)
theory Protocol_Theorems
  imports Box_Theorems
begin

text \<open>The properties of requests: what clients send, and how it reaches the worker threads of the broker.\<close>

section \<open>Registration requests\<close>

definition request_of :: "byte \<Rightarrow> cstring \<Rightarrow> cstring \<Rightarrow> registration_request_t" where
  "request_of op pipe box =
     \<lparr>reg_op_code = op, reg_pipe_name = pad PIPE_PATHNAME_LENGTH pipe, reg_box_name = pad BOX_NAME_LENGTH box\<rparr>"

lemma pad_update_last: "length s < n \<Longrightarrow> (pad n s)[n - 1 := 0] = pad n s"
proof -
  assume "length s < n"
  then have "\<not> n - 1 < length s" by linarith
  with \<open>length s < n\<close> have "pad n s ! (n - 1) = 0" by (simp add: pad_def nth_append)
  then show ?thesis by (metis list_update_id)
qed

lemma strcpy_too_long: "n \<le> length s \<Longrightarrow> strcpy (replicate n 0) s = Undef"
  by (simp add: strcpy_def mem_write_def)

text \<open>
  C35: A registration request on every input. For a pipe name below 256 bytes and a box name below 32
  bytes, the request that \<open>registration_request_init\<close> fills takes 289 bytes on the wire, the broker
  decodes the same request from them, and the strings it finds in it are the two names; the send
  function reports success if all bytes were written. A longer name is copied past the end of its
  array: the truncation that follows comes too late.
\<close>

theorem registration_request_exact:
  assumes "0 \<notin> set pipe" "0 \<notin> set box"
  shows "if length pipe < PIPE_PATHNAME_LENGTH \<and> length box < BOX_NAME_LENGTH
    then registration_request_init op pipe (Some box) = Ok (0, request_of op pipe box) \<and>
      registration_of (registration_bytes (request_of op pipe box)) = request_of op pipe box \<and>
      string_at (reg_pipe_name (request_of op pipe box)) 0 = Ok pipe \<and>
      string_at (reg_box_name (request_of op pipe box)) 0 = Ok box \<and>
      registration_request_send accepts (request_of op pipe box) = 0
    else registration_request_init op pipe (Some box) = Undef"
proof (cases "length pipe < PIPE_PATHNAME_LENGTH \<and> length box < BOX_NAME_LENGTH")
  case True
  then have wf: "registration_wf (request_of op pipe box)" by (simp add: registration_wf_def request_of_def)
  have "registration_request_init op pipe (Some box) = Ok (0, request_of op pipe box)"
    using True pad_update_last [of pipe PIPE_PATHNAME_LENGTH] pad_update_last [of box BOX_NAME_LENGTH]
    by (simp add: registration_request_init_def strcpy_zeros request_of_def)
  with True registration_wire.dec_enc [OF wf] registration_wire.enc_size [OF wf] assms show ?thesis
    by (simp add: request_of_def string_at_pad registration_request_send_def accepts_def)
next
  case False
  then show ?thesis
    using strcpy_too_long [of PIPE_PATHNAME_LENGTH pipe] strcpy_too_long [of BOX_NAME_LENGTH box]
      strcpy_zeros [of pipe PIPE_PATHNAME_LENGTH]
    by (cases "length pipe < PIPE_PATHNAME_LENGTH") (simp_all add: registration_request_init_def)
qed

theorem registration_request_exact_witness:
  "registration_request_init PUB_REGISTER_OP (cstr ''/tmp/p'') (Some (cstr ''news'')) =
     Ok (0, request_of PUB_REGISTER_OP (cstr ''/tmp/p'') (cstr ''news'')) \<and>
   registration_request_init PUB_REGISTER_OP (cstr ''/tmp/p'') (Some (replicate 32 65)) = Undef"
  using registration_request_exact [of "cstr ''/tmp/p''" "cstr ''news''" PUB_REGISTER_OP]
    registration_request_exact [of "cstr ''/tmp/p''" "replicate 32 65" PUB_REGISTER_OP]
  by (simp add: cstr_def)

section \<open>From the pipe to the workers\<close>

lemma main_loop_requests:
  "\<forall>r\<in>set reqs. registration_wf r \<Longrightarrow>
     main_loop (map (\<lambda>r. (Whole (registration_bytes r), False)) reqs) = (reqs, False)"
  by (induction reqs) (simp_all add: registration_wire.dec_enc)

lemma take_all_worker:
  "take_all pcq_dequeue n q = Some (es, q') \<Longrightarrow>
     take_all worker_round n q = Some (map (\<lambda>r. (r, requests_handler r)) es, q')"
proof (induction n arbitrary: q es)
  case (Suc n)
  then obtain e q1 es1 where "pcq_dequeue q = Some (Ok (e, q1))" "take_all pcq_dequeue n q1 = Some (es1, q')" "es = e # es1"
    by (auto split: option.splits result.splits prod.splits)
  with Suc.IH show ?case by (simp add: worker_round_def)
qed simp



end
