(* ===== verification/Client_Theorems.thy ===== *)
theory Client_Theorems
  imports Clients Protocol_Theorems "HOL-Library.Multiset"
begin

text \<open>
  The properties of the client programs, and of client and broker together: connecting, the lines of a
  publisher that reach the screen of a subscriber, and what a manager is told.
\<close>

section \<open>Sorting\<close>

text \<open>A comparison function as \<open>qsort\<close> expects it.\<close>

locale comparison =
  fixes cmp :: "'a \<Rightarrow> 'a \<Rightarrow> int"
  assumes total: "cmp a b \<le> 0 \<or> cmp b a \<le> 0"
    and trans: "cmp a b \<le> 0 \<Longrightarrow> cmp b c \<le> 0 \<Longrightarrow> cmp a c \<le> 0"
begin

lemma set_insert: "set (qsort_insert cmp x xs) = insert x (set xs)"
  by (induction xs) auto

lemma sorted_insert: "sorted_wrt (\<lambda>a b. cmp a b \<le> 0) xs \<Longrightarrow> sorted_wrt (\<lambda>a b. cmp a b \<le> 0) (qsort_insert cmp x xs)"
proof (induction xs)
  case (Cons y ys)
  then show ?case using total [of x y] trans [of x y] by (auto simp: set_insert)
qed simp

lemma sorted_qsort: "sorted_wrt (\<lambda>a b. cmp a b \<le> 0) (qsort cmp xs)"
  by (induction xs) (simp_all add: sorted_insert)

text \<open>Where no two elements compare equal, every way of sorting gives the same list.\<close>

lemma sorted_unique:
  assumes "sorted_wrt (\<lambda>a b. cmp a b \<le> 0) xs" "sorted_wrt (\<lambda>a b. cmp a b \<le> 0) ys" "set xs = set ys" "distinct xs" "distinct ys"
    and "\<And>a b. a \<in> set xs \<Longrightarrow> b \<in> set xs \<Longrightarrow> cmp a b \<le> 0 \<Longrightarrow> cmp b a \<le> 0 \<Longrightarrow> a = b"
  shows "xs = ys"
  using assms
proof (induction xs arbitrary: ys)
  case (Cons x xs)
  from Cons.prems(3) have "ys \<noteq> []" by auto
  then obtain y zs where ys: "ys = y # zs" by (cases ys) blast+
  have "x = y"
  proof (rule ccontr)
    assume "x \<noteq> y"
    with Cons.prems(3) ys have "x \<in> set zs" "y \<in> set xs" by auto
    with Cons.prems(1,2) ys have "cmp x y \<le> 0" "cmp y x \<le> 0" by auto
    with Cons.prems(6) [of x y] \<open>y \<in> set xs\<close> \<open>x \<noteq> y\<close> show False by simp
  qed
  have "set xs = set zs" using Cons.prems(3-5) ys \<open>x = y\<close> by auto
  then have "xs = zs" using Cons.prems ys by (intro Cons.IH) auto
  then show ?case using ys \<open>x = y\<close> by simp
qed simp

end

lemma mset_qsort_insert: "mset (qsort_insert cmp x xs) = add_mset x (mset xs)"
  by (induction xs) auto

lemma mset_qsort: "mset (qsort cmp xs) = mset xs"
  by (induction xs) (simp_all add: mset_qsort_insert)

lemma strcmp_0: "strcmp xs ys = 0 \<longleftrightarrow> xs = ys"
  by (induction xs ys rule: strcmp.induct) (auto split: if_splits)

lemma strcmp_neg: "strcmp xs ys = - strcmp ys xs"
  by (induction xs ys rule: strcmp.induct) auto

lemma strcmp_trans: "strcmp xs ys \<le> 0 \<Longrightarrow> strcmp ys zs \<le> 0 \<Longrightarrow> strcmp xs zs \<le> 0"
proof (induction xs arbitrary: ys zs)
  case Nil
  then show ?case by (cases zs) simp_all
next
  case (Cons x xs)
  then obtain y ys' where ys: "ys = y # ys'" by (cases ys) auto
  with Cons.prems obtain z zs' where zs: "zs = z # zs'" by (cases zs) auto
  with Cons ys show ?case by (auto split: if_splits)
qed

interpretation by_name: comparison cmpstr
proof
  show "cmpstr a b \<le> 0 \<or> cmpstr b a \<le> 0" for a b
    using strcmp_neg [of "c_string (list_box_name a)" "c_string (list_box_name b)"] by (auto simp: cmpstr_def)
qed (auto simp: cmpstr_def intro: strcmp_trans)

section \<open>Connecting\<close>

lemma init_request:
  assumes "0 \<notin> set pipe" "length pipe < PIPE_PATHNAME_LENGTH" "length (case_option [] id box) < BOX_NAME_LENGTH"
  shows "registration_request_init op pipe box = Ok (0, request_of op pipe (case_option [] id box))"
    "string_at (reg_pipe_name (request_of op pipe (case_option [] id box))) 0 = Ok pipe"
  using assms pad_update_last [of pipe PIPE_PATHNAME_LENGTH] pad_update_last [of "the box" BOX_NAME_LENGTH]
  by (cases box; simp add: registration_request_init_def strcpy_zeros request_of_def string_at_pad; simp add: pad_def)+

text \<open>
  C23: Connecting on every branch, for names that fit (a manager that lists boxes names none). If everything
  succeeds, the broker's pipe has been sent exactly the bytes of one request with the given code and
  names, and it is closed again; if anything fails once the client's pipe exists, that pipe is removed
  before the process ends.
\<close>

theorem connect_exact:
  fixes env :: client_os and op :: byte
  assumes names: "0 \<notin> set pipe" "length pipe < PIPE_PATHNAME_LENGTH" "length (case_option [] id box) < BOX_NAME_LENGTH"
  defines "made \<equiv> (case os_mkfifo env pipe of Failed errno \<Rightarrow> errno = EEXIST | Count _ \<Rightarrow> True)"
    and "req \<equiv> registration_bytes (request_of op pipe (case_option [] id box))"
  defines "sent \<equiv> os_write env req = Count sizeof_registration"
  shows "\<exists>ok es. connect_to_mbroker env broker_pipe pipe box op = Ok (ok, es) \<and>
    (ok \<longleftrightarrow> made \<and> os_open env broker_pipe \<and> sent \<and> os_open env pipe) \<and>
    (ok \<longrightarrow> es = [Mkfifo pipe, Opened broker_pipe, Wrote broker_pipe req, Closed broker_pipe, Opened pipe]) \<and>
    (\<not> ok \<longrightarrow> (if made then last es = Unlinked pipe else es = [Mkfifo pipe]))"
proof -
  note init = init_request [OF names, of op]
  have fifo: "registration_request_mkfifo (os_mkfifo env) (request_of op pipe (case_option [] id box)) = Ok (if made then 0 else -1)"
    using init(2) by (simp add: registration_request_mkfifo_def made_def split: syscall.split)
  have send: "registration_request_send (os_write env) (request_of op pipe (case_option [] id box)) = 0 \<longleftrightarrow> sent"
    by (simp add: registration_request_send_def sent_def req_def split: syscall.split)
  show ?thesis
    by (simp add: connect_to_mbroker_def init fifo send exit_failure_def req_def Let_def)
qed

definition demo_os :: client_os where
  "demo_os = \<lparr>os_mkfifo = (\<lambda>_. Count 0), os_open = (\<lambda>p. p \<noteq> cstr ''/gone''), os_write = accepts, os_unlink = (\<lambda>_. True)\<rparr>"

theorem connect_exact_witness:
  "\<exists>es. connect_to_mbroker demo_os (cstr ''/gone'') (cstr ''/p'') (Some (cstr ''b'')) 1 = Ok (False, es) \<and>
    last es = Unlinked (cstr ''/p'')"
  using connect_exact [where pipe = "cstr ''/p''" and box = "Some (cstr ''b'')" and env = demo_os and op = 1 and broker_pipe = "cstr ''/gone''"]
  by (auto simp: cstr_def demo_os_def)

text \<open>A client that connects.\<close>

lemma demo_connects:
  assumes "length (case_option [] id box) < BOX_NAME_LENGTH"
  shows "\<exists>es. connect_to_mbroker demo_os (cstr ''/r'') (cstr ''/p'') box op = Ok (True, es)"
  using init_request [of "cstr ''/p''" box op] assms
  by (simp add: cstr_def connect_to_mbroker_def registration_request_mkfifo_def registration_request_send_def demo_os_def accepts_def
      registration_bytes_def request_of_def Let_def)

section \<open>From the publisher's lines to the subscriber's screen\<close>

definition line_ok :: "cstring \<Rightarrow> bool" where
  "line_ok l \<longleftrightarrow> newline \<notin> set l \<and> 0 \<notin> set l \<and> length l \<le> MESSAGE_LENGTH - 2"

abbreviation text_of :: "cstring list \<Rightarrow> byte list" where
  "text_of ls \<equiv> concat (map (\<lambda>l. l @ [newline]) ls)"

lemma fgets_line:
  assumes "line_ok l"
  shows "fgets MESSAGE_LENGTH (l @ newline # rest) = Some (l @ [newline], rest)" "line_of (l @ [newline]) = l"
proof -
  have "takeWhile (\<lambda>c. c \<noteq> newline) (l @ newline # rest) = l"
    using assms by (subst takeWhile_append2) (auto simp: line_ok_def)
  then show "fgets MESSAGE_LENGTH (l @ newline # rest) = Some (l @ [newline], rest)"
    using assms by (simp add: fgets_def line_ok_def)
  show "line_of (l @ [newline]) = l"
    unfolding line_of_def using assms by (subst takeWhile_append2) (auto simp: line_ok_def)
qed

text \<open>A line makes a request that the broker can read.\<close>

lemma request_for_line:
  assumes "line_ok l" "publisher_wf req"
  obtains req' where "publisher_request_init req l = Ok (0, req')" "publisher_wf req'"
    "message_of (Whole (publisher_bytes req')) = l" "length (publisher_bytes req') = sizeof_publisher"
    "0 \<in> set (tl (publisher_bytes req'))"
proof -
  let ?m = "l @ 0 # drop (length l + 1) (pub_message req)"
  let ?req = "\<lparr>pub_op_code = PUBLISH_OP_CODE, pub_message = ?m\<rparr>"
  have len: "length l < length (pub_message req)" using assms by (simp add: line_ok_def publisher_wf_def)
  have "publisher_request_init req l = Ok (0, ?req)"
    using len by (simp add: publisher_request_init_def strcpy_def write_at_start)
  moreover have wf: "publisher_wf ?req" using assms by (simp add: publisher_wf_def line_ok_def)
  moreover have "message_of (Whole (publisher_bytes ?req)) = l"
    unfolding message_of.simps publisher_wire.dec_enc [OF wf] string_of_def using assms(1)
    by (simp, subst takeWhile_append2) (auto simp: line_ok_def)
  ultimately show thesis
    using that [of ?req] publisher_wire.enc_size [OF wf] by (simp add: publisher_bytes_def)
qed

lemma pub_loop_lines:
  assumes wr: "\<And>n r. publisher_wf r \<Longrightarrow> publisher_request_send (wr n) r = 0"
  shows "\<forall>l\<in>set ls. line_ok l \<Longrightarrow> publisher_wf req \<Longrightarrow>
    \<exists>blocks. pub_loop wr n req (text_of ls) = Ok (True, blocks) \<and> map (\<lambda>b. message_of (Whole b)) blocks = ls \<and>
      (\<forall>b\<in>set blocks. length b = sizeof_publisher \<and> 0 \<in> set (tl b))"
proof (induction ls arbitrary: n req)
  case Nil
  then show ?case by (simp add: pub_loop.simps fgets_def)
next
  case (Cons l ls)
  then have l: "line_ok l" by simp
  obtain req' where req': "publisher_request_init req l = Ok (0, req')" "publisher_wf req'"
    "message_of (Whole (publisher_bytes req')) = l" "length (publisher_bytes req') = sizeof_publisher"
    "0 \<in> set (tl (publisher_bytes req'))" using request_for_line [OF l Cons.prems(2)] .
  obtain blocks where "pub_loop wr (Suc n) req' (text_of ls) = Ok (True, blocks)" "map (\<lambda>b. message_of (Whole b)) blocks = ls"
    "\<forall>b\<in>set blocks. length b = sizeof_publisher \<and> 0 \<in> set (tl b)"
    using Cons.IH [OF _ req'(2)] Cons.prems(1) by auto
  with req' wr [OF req'(2), of n] fgets_line [OF l] show ?case
    by (subst pub_loop.simps) (simp del: message_of.simps)
qed

lemma publish_step:
  assumes inv: "sys_inv S" and k: "sys_pubs S k = Some p" and bs: "length bs = sizeof_publisher" "0 \<in> set (tl bs)"
  defines "i \<equiv> pub_box p" and "c \<equiv> contents_at (sys_broker S) (pub_box p)" and "m \<equiv> message_of (Whole bs)"
  assumes room: "length c + length m < a_block (afs_of (sys_broker S))" "c \<noteq> [] \<or> 0 < a_free (afs_of (sys_broker S))"
  obtains S' where "sys_next (Pub_read k (Whole bs)) S = Ok S'" "sys_inv S'" "sys_pubs S' = sys_pubs S"
    "sys_log S' = (sys_log S)(i := sys_log S i @ [m])" "contents_at (sys_broker S') i = c @ m @ [0]"
    "a_block (afs_of (sys_broker S')) = a_block (afs_of (sys_broker S))" "sys_subs S' = broadcast (\<lambda>j. j = i) (sys_subs S)"
proof -
  let ?br = "sys_broker S"
  note I = sys_invD [OF inv]
  have u: "used ?br i" using I(3) [OF k] by (simp add: pub_ok_def i_def)
  note bx = usedD [OF boxes_invD(2) [OF I(1)] u]
  have "pub_message (publisher_of bs) = tl bs" using bs(1) by (cases bs) (simp_all add: publisher_of_def read_at_def)
  then have m: "0 \<notin> set m" "length m < MESSAGE_LENGTH" using string_at_nul [OF bs(2)] bs(1) by (simp_all add: m_def)
  from I(1) I(3) [OF k] bs show thesis
  proof (cases rule: publisher_round_cases)
    case (accepted fs)
    let ?b = "mbroker_boxes ?br ! i"
    let ?b' = "?b\<lparr>box_size := box_size ?b + of_nat (length m) + 1\<rparr>"
    have all: "take (a_block (afs_of ?br) - length c) (m @ [0]) = m @ [0]" using room(1) by simp
    have fs: "abs_fs2 fs = appended (pub_box_fd p) (ino_at ?br i) c (m @ [0]) (afs_of ?br)"
      using accepted(5) all by (simp add: i_def c_def m_def del: abs_simps)
    have t: "touches ?br i ?b' fs (c @ m @ [0])"
      using u accepted(4) fs room(1) bx by (simp add: touches_def del: abs_simps)
    let ?S = "S\<lparr>sys_broker := touch i ?b' fs ?br, sys_subs := broadcast (\<lambda>j. j = i) (sys_subs S),
      sys_log := (sys_log S)(i := sys_log S i @ [m])\<rparr>"
    have "sys_next (Pub_read k (Whole bs)) S = Ok ?S" using accepted(3) k by (simp add: i_def m_def)
    moreover have "sys_inv ?S"
      using pub_accepts [OF inv k m] accepted(1,4,5) by (simp add: i_def c_def m_def del: abs_simps)
    ultimately show thesis
      using touches_views(5) [OF I(1) t u] touchesD(8) [OF t] by (intro that [of ?S]) (simp_all del: sys_next.simps abs_simps)
  qed (use room in \<open>simp_all add: c_def i_def m_def del: abs_simps\<close>)
qed

lemma publish_all:
  "sys_inv S \<Longrightarrow> sys_pubs S k = Some p \<Longrightarrow> \<forall>b\<in>set blocks. length b = sizeof_publisher \<and> 0 \<in> set (tl b) \<Longrightarrow>
   length (contents_at (sys_broker S) (pub_box p)) + length (stream (map (\<lambda>b. message_of (Whole b)) blocks)) \<le> a_block (afs_of (sys_broker S)) \<Longrightarrow>
   contents_at (sys_broker S) (pub_box p) \<noteq> [] \<or> 0 < a_free (afs_of (sys_broker S)) \<Longrightarrow>
   \<exists>S'. foldR sys_next (map (\<lambda>b. Pub_read k (Whole b)) blocks) S = Ok S' \<and> sys_inv S' \<and> sys_step\<^sup>*\<^sup>* S S' \<and>
     sys_log S' (pub_box p) = sys_log S (pub_box p) @ map (\<lambda>b. message_of (Whole b)) blocks \<and>
     length (contents_at (sys_broker S') (pub_box p)) =
       length (contents_at (sys_broker S) (pub_box p)) + length (stream (map (\<lambda>b. message_of (Whole b)) blocks)) \<and>
     a_block (afs_of (sys_broker S')) = a_block (afs_of (sys_broker S)) \<and>
     (\<forall>j t. sys_subs S j = Some t \<longrightarrow> (\<exists>t'. sys_subs S' j = Some t' \<and> th_session t' = th_session t \<and> th_got t' = th_got t \<and>
        (th_mode t' = Waiting \<longrightarrow> th_mode t = Waiting \<and> \<not> (th_box t = pub_box p \<and> blocks \<noteq> []))))"
proof (induction blocks arbitrary: S)
  case Nil
  then show ?case by auto
next
  case (Cons b blocks)
  let ?m = "message_of (Whole b)" and ?i = "pub_box p"
  have b: "length b = sizeof_publisher" "0 \<in> set (tl b)" using Cons.prems(3) by simp_all
  have room: "length (contents_at (sys_broker S) ?i) + length ?m < a_block (afs_of (sys_broker S))"
    using Cons.prems(4) by (simp del: message_of.simps abs_simps)
  obtain S1 where S1: "sys_next (Pub_read k (Whole b)) S = Ok S1" "sys_inv S1" "sys_pubs S1 = sys_pubs S"
    "sys_log S1 = (sys_log S)(?i := sys_log S ?i @ [?m])" "contents_at (sys_broker S1) ?i = contents_at (sys_broker S) ?i @ ?m @ [0]"
    "a_block (afs_of (sys_broker S1)) = a_block (afs_of (sys_broker S))" "sys_subs S1 = broadcast (\<lambda>j. j = ?i) (sys_subs S)"
    using publish_step [OF Cons.prems(1,2) b room Cons.prems(5)] .
  have step: "sys_step S S1" by (rule sys_step.intros [OF _ S1(1)]) (use b in simp)
  from Cons.IH [OF S1(2), unfolded S1(3), OF Cons.prems(2)] Cons.prems(3,4) S1(5,6) obtain S' where S':
    "foldR sys_next (map (\<lambda>b. Pub_read k (Whole b)) blocks) S1 = Ok S'" "sys_inv S'" "sys_step\<^sup>*\<^sup>* S1 S'"
    "sys_log S' ?i = sys_log S1 ?i @ map (\<lambda>b. message_of (Whole b)) blocks"
    "length (contents_at (sys_broker S') ?i) =
      length (contents_at (sys_broker S1) ?i) + length (stream (map (\<lambda>b. message_of (Whole b)) blocks))"
    "a_block (afs_of (sys_broker S')) = a_block (afs_of (sys_broker S1))"
    "\<forall>j t. sys_subs S1 j = Some t \<longrightarrow> (\<exists>t'. sys_subs S' j = Some t' \<and> th_session t' = th_session t \<and> th_got t' = th_got t \<and>
        (th_mode t' = Waiting \<longrightarrow> th_mode t = Waiting \<and> \<not> (th_box t = ?i \<and> blocks \<noteq> [])))"
    by (auto simp del: message_of.simps abs_simps sys_next.simps)
  have "foldR sys_next (map (\<lambda>b. Pub_read k (Whole b)) (b # blocks)) S = Ok S'"
    using S1(1) S'(1) by (simp del: sys_next.simps)
  moreover have "sys_step\<^sup>*\<^sup>* S S'" using step S'(3) by (rule converse_rtranclp_into_rtranclp)
  moreover have "\<exists>t'. sys_subs S' j = Some t' \<and> th_session t' = th_session t \<and> th_got t' = th_got t \<and>
      (th_mode t' = Waiting \<longrightarrow> th_mode t = Waiting \<and> th_box t \<noteq> ?i)" if "sys_subs S j = Some t" for j t
  proof -
    let ?t = "if th_box t = ?i \<and> th_mode t = Waiting then t\<lparr>th_mode := Woken\<rparr> else t"
    have "sys_subs S1 j = Some ?t" using that S1(7) by (simp add: broadcast_def)
    with S'(7) obtain t' where "sys_subs S' j = Some t'" "th_session t' = th_session ?t" "th_got t' = th_got ?t"
      "th_mode t' = Waiting \<longrightarrow> th_mode ?t = Waiting" by blast
    then show ?thesis by (auto split: if_splits)
  qed
  ultimately show ?case using S'(2,4,5,6) S1(4,5,6) by (intro exI [of _ S']) (simp del: message_of.simps abs_simps sys_next.simps)
qed

text \<open>The subscriber prints what it is sent.\<close>

lemma sub_loop_prints:
  "\<forall>m\<in>set ms. 0 \<notin> set m \<and> length m < MESSAGE_LENGTH \<Longrightarrow>
    sub_loop n (map (\<lambda>m. (Whole (publisher_bytes (response_of m)), False)) ms) = Ok (Reading, ms, n + of_nat (length ms))"
proof (induction ms arbitrary: n)
  case (Cons m ms)
  then have "publisher_wf (response_of m)" by (simp add: publisher_wf_def response_of_def)
  moreover have "string_at (pub_message (response_of m)) 0 = Ok m" using Cons.prems by (simp add: response_of_def string_at_pad)
  ultimately show ?case using Cons by (simp add: publisher_wire.dec_enc algebra_simps)
qed simp

text \<open>
  C2: From the keyboard of a publisher to the screen of a subscriber. In every state the broker can
  reach, let a publisher of a box type lines (of at most 1022 characters, without a zero byte)
  that fit into what is left of the box. Then \<open>pub\<close> reads to the end of its input; the broker accepts
  each block it writes; and after one round for each message that the subscriber lacks, every
  subscriber of the box, asleep or not, has been sent, and \<open>sub\<close> prints, all the messages of the box, the typed
  lines at the end and in the order in which they were typed.
\<close>

theorem typed_lines_are_printed:
  assumes "sys_start S0" "sys_step\<^sup>*\<^sup>* S0 S" "sys_pubs S k = Some p" "sys_subs S j = Some t" "th_box t = pub_box p"
    and ls: "\<forall>l\<in>set ls. line_ok l" "ls \<noteq> []" and req: "publisher_wf req"
    and room: "length (contents_at (sys_broker S) (pub_box p)) + length (text_of ls) < a_block (afs_of (sys_broker S))"
      "contents_at (sys_broker S) (pub_box p) \<noteq> [] \<or> 0 < a_free (afs_of (sys_broker S))"
    and pub_wr: "\<forall>n r. publisher_wf r \<longrightarrow> publisher_request_send (pub_wr n) r = 0"
    and sub_wr: "\<forall>m. length m < MESSAGE_LENGTH \<longrightarrow> subscriber_response_send sub_wr (response_of m) = 0"
  shows "\<exists>blocks S1 S2 t'. pub_loop pub_wr 0 req (text_of ls) = Ok (True, blocks) \<and>
    foldR sys_next (map (\<lambda>b. Pub_read k (Whole b)) blocks) S = Ok S1 \<and>
    foldR sys_next (replicate (length (sys_log S (pub_box p) @ ls) - length (th_got t)) (Sub_run j sub_wr)) S1 = Ok S2 \<and>
    sys_subs S2 j = Some t' \<and> th_got t' = sys_log S (pub_box p) @ ls \<and>
    sub_loop 0 (map (\<lambda>m. (Whole (publisher_bytes (response_of m)), False)) (th_got t')) =
      Ok (Reading, sys_log S (pub_box p) @ ls, of_nat (length (sys_log S (pub_box p) @ ls)))"
proof -
  let ?i = "pub_box p"
  have inv: "sys_inv S" by (rule sessions.reachable_good [OF assms(2,1)])
  obtain blocks where blocks: "pub_loop pub_wr 0 req (text_of ls) = Ok (True, blocks)" "map (\<lambda>b. message_of (Whole b)) blocks = ls"
      "\<forall>b\<in>set blocks. length b = sizeof_publisher \<and> 0 \<in> set (tl b)"
    using pub_loop_lines [OF _ ls(1) req, of pub_wr 0] pub_wr by (auto simp del: message_of.simps)
  have len: "length (stream ls) = length (text_of ls)" by (induction ls) simp_all
  obtain S1 t1 where S1: "foldR sys_next (map (\<lambda>b. Pub_read k (Whole b)) blocks) S = Ok S1" "sys_inv S1" "sys_log S1 ?i = sys_log S ?i @ ls"
      "length (contents_at (sys_broker S1) ?i) = length (contents_at (sys_broker S) ?i) + length (text_of ls)"
      "a_block (afs_of (sys_broker S1)) = a_block (afs_of (sys_broker S))"
      "sys_subs S1 j = Some t1" "th_session t1 = th_session t" "th_got t1 = th_got t" "th_mode t1 \<noteq> Waiting"
    using publish_all [OF inv assms(3) blocks(3)] room blocks(2) len assms(4,5) ls(2)
    by (fastforce simp del: message_of.simps abs_simps sys_next.simps stream_simps)
  have box: "th_box t1 = ?i" using S1(7) assms(5) by simp
  obtain S2 t' where S2: "foldR sys_next (replicate (length (sys_log S ?i @ ls) - length (th_got t)) (Sub_run j sub_wr)) S1 = Ok S2"
      "sys_subs S2 j = Some t'" "th_got t' = sys_log S ?i @ ls"
    using sub_rounds_deliver [OF sub_wr S1(2,6,9)] S1(3-5,8) room(1) box by (fastforce simp del: abs_simps sys_next.simps)
  have "used (sys_broker S1) ?i" using sys_invD(4) [OF S1(2,6)] box by (simp add: sub_ok_def Let_def)
  then have "\<forall>m\<in>set (sys_log S1 ?i). 0 \<notin> set m \<and> length m < MESSAGE_LENGTH"
    using box_okD(1) [OF sys_invD(5) [OF S1(2)]] by (simp add: store_ok_def)
  from sub_loop_prints [OF this, of 0] blocks(1) S1(1,3) S2 show ?thesis by auto
qed

lemma accepts_request: "publisher_wf r \<Longrightarrow> publisher_request_send accepts r = 0"
  by (simp add: publisher_request_send_def accepts_def publisher_bytes_def publisher_wf_def)

theorem typed_lines_are_printed_witness:
  "\<exists>blocks S1 S2 t'. pub_loop (\<lambda>n. accepts) 0 (response_of []) (cstr ''a'' @ newline # cstr ''b'' @ [newline]) = Ok (True, blocks) \<and>
    foldR sys_next (map (\<lambda>b. Pub_read 0 (Whole b)) blocks) demo_state = Ok S1 \<and>
    foldR sys_next (replicate 3 (Sub_run 0 accepts)) S1 = Ok S2 \<and>
    sys_subs S2 0 = Some t' \<and> th_got t' = [cstr ''hi'', cstr ''you'', cstr ''a'', cstr ''b''] \<and>
    sub_loop 0 (map (\<lambda>m. (Whole (publisher_bytes (response_of m)), False)) (th_got t')) =
      Ok (Reading, [cstr ''hi'', cstr ''you'', cstr ''a'', cstr ''b''], 4)"
proof -
  note V = demo_state_view(2) [unfolded demo_view_def]
  obtain t where t: "sys_subs demo_state 0 = Some t" "th_got t = [cstr ''hi'']" "th_box t = 0" using V by auto
  obtain p where p: "sys_pubs demo_state 0 = Some p" "pub_box p = 0" using V by auto
  have ls: "\<forall>l\<in>set [cstr ''a'', cstr ''b'']. line_ok l" by (simp add: line_ok_def cstr_def newline_def)
  have wf: "publisher_wf (response_of [])" by (simp add: publisher_wf_def response_of_def)
  have room: "length (contents_at (sys_broker demo_state) (pub_box p)) + length (text_of [cstr ''a'', cstr ''b'']) < a_block (afs_of (sys_broker demo_state))"
    "contents_at (sys_broker demo_state) (pub_box p) \<noteq> [] \<or> 0 < a_free (afs_of (sys_broker demo_state))"
    using V p(2) by (auto simp: cstr_def simp del: abs_simps)
  show ?thesis
    using typed_lines_are_printed [OF demo_system_start demo_reached(1) p(1) t(1) _ ls _ wf room, of "\<lambda>n. accepts" accepts]
      accepts_request accepts_response t(2,3) p(2) V
    by (simp add: eval_nat_numeral del: sys_next.simps abs_simps)
qed

section \<open>What the manager is told\<close>

text \<open>\<open>qsort\<close> of mapped elements.\<close>

lemma qsort_map: "qsort cmp (map f xs) = map f (qsort (\<lambda>a b. cmp (f a) (f b)) xs)"
proof -
  have "qsort_insert cmp (f x) (map f ys) = map f (qsort_insert (\<lambda>a b. cmp (f a) (f b)) x ys)" for x ys
    by (induction ys) simp_all
  then show ?thesis by (induction xs) simp_all
qed

lemma length_qsort [simp]: "length (qsort cmp xs) = length xs"
  using mset_qsort [of cmp xs] by (metis size_mset)

text \<open>The answers to \<open>list\<close>, read as far as the flag.\<close>

lemma list_read_all:
  assumes "\<forall>r\<in>set rs. list_wf r"
  shows "rs \<noteq> [] \<Longrightarrow> \<forall>j < length rs. list_last_flag (rs ! j) = (if Suc j = length rs then 1 else 0) \<Longrightarrow>
    length got + length rs \<le> n \<Longrightarrow> list_read n got (map (\<lambda>r. Whole (list_bytes r)) rs) = Ok (False, got @ rs)"
  using assms
proof (induction rs arbitrary: got)
  case (Cons r rs)
  note flag = Cons.prems(2) [rule_format, of 0]
  show ?case
  proof (cases "rs = []")
    case True
    then show ?thesis using Cons.prems flag by (simp add: list_wire.dec_enc)
  next
    case False
    have "list_last_flag (rs ! j) = (if Suc j = length rs then 1 else 0)" if "j < length rs" for j
      using Cons.prems(2) [rule_format, of "Suc j"] that by simp
    with Cons.IH [OF False, of "got @ [r]"] Cons.prems(3,4) flag False show ?thesis by (simp add: list_wire.dec_enc)
  qed
qed simp

lemma sorted_strict:
  "sorted_wrt (\<lambda>i j. strcmp (f i) (f j) \<le> 0) xs \<Longrightarrow> distinct xs \<Longrightarrow> inj_on f (set xs) \<Longrightarrow>
    sorted_wrt (\<lambda>i j. strcmp (f i) (f j) < 0) xs"
  by (induction xs) (auto simp: order_less_le strcmp_0)

lemma box_lines_eq: "(\<And>x. x \<in> set xs \<Longrightarrow> box_line (f x) = Ok (g x)) \<Longrightarrow> box_lines (map f xs) = Ok (map g xs)"
  by (induction xs) simp_all

lemma box_name_parts:
  assumes "box_wf b"
  shows "string_at (box_name b) 1 = Ok (label_of b)" "c_string (box_name b) = slash # label_of b"
proof -
  have ok: "label_ok (label_of b)" and nm: "box_name b = pad BOX_NAME_LENGTH (slash # label_of b)" using assms by (simp_all add: box_wf_def)
  have "length (box_name b) = BOX_NAME_LENGTH" unfolding nm using ok by (simp add: label_ok_def)
  then show "string_at (box_name b) 1 = Ok (label_of b)"
    using ok unfolding string_at_def label_of_def [symmetric] by (simp add: label_ok_def)
  show "c_string (box_name b) = slash # label_of b"
    unfolding c_string_def nm using ok by (intro takeWhile_pad) (auto simp: label_ok_def slash_def)
qed

text \<open>The order in which the boxes are shown.\<close>

definition shown :: "broker \<Rightarrow> nat list" where
  "shown br = map snd (qsort (\<lambda>a b. cmpstr (case a of (j, i) \<Rightarrow> list_entry br j i) (case b of (j, i) \<Rightarrow> list_entry br j i))
     (enumerate 0 (filter (used br) [0..<box_count_max br])))"

definition line_for :: "box_t \<Rightarrow> answer" where
  "line_for b = Box_line (label_of b) (box_size b) (box_n_publishers b) (box_n_subscribers b)"

lemma mset_shown: "mset (shown br) = mset (filter (used br) [0..<box_count_max br])"
  unfolding shown_def mset_map mset_qsort by (simp flip: mset_map)

lemma shown_entries:
  assumes "used br i" "used br i'" "table_ok br"
  shows "box_line (list_entry br j i) = Ok (line_for (mbroker_boxes br ! i))"
    "cmpstr (list_entry br j i) (list_entry br j' i') = strcmp (label_at br i) (label_at br i')"
  using box_name_parts [OF table_okD(4)] assms by (simp_all add: box_line_def cmpstr_def list_entry_def line_for_def Let_def)

lemma shown_all:
  assumes "table_ok br"
  shows "distinct (shown br)" "set (shown br) = {i. used br i}"
    "sorted_wrt (\<lambda>i j. strcmp (label_at br i) (label_at br j) < 0) (shown br)"
    "box_lines (qsort cmpstr (list_entries br)) = Ok (map (\<lambda>i. line_for (mbroker_boxes br ! i)) (shown br))"
proof -
  show dist: "distinct (shown br)" and all: "set (shown br) = {i. used br i}"
    using used_filter [OF assms] mset_eq_setD [OF mset_shown] mset_eq_imp_distinct_iff [OF mset_shown, of br] by simp_all
  show "box_lines (qsort cmpstr (list_entries br)) = Ok (map (\<lambda>i. line_for (mbroker_boxes br ! i)) (shown br))"
    unfolding list_entries_def qsort_map shown_def map_map
    by (rule box_lines_eq) (use all shown_entries [OF _ _ assms] in \<open>force simp: shown_def\<close>)
  have "sorted_wrt (\<lambda>i j. strcmp (label_at br i) (label_at br j) \<le> 0) (shown br)"
    using by_name.sorted_qsort [of "list_entries br"] unfolding list_entries_def qsort_map sorted_wrt_map shown_def
    by (rule sorted_wrt_mono_rel [rotated]) (use all shown_entries [OF _ _ assms] in \<open>force simp: shown_def\<close>)
  then show "sorted_wrt (\<lambda>i j. strcmp (label_at br i) (label_at br j) < 0) (shown br)"
    by (rule sorted_strict [OF _ dist]) (use table_okD(5) [OF assms] all in \<open>auto intro!: inj_onI\<close>)
qed

text \<open>
  C20: \<open>manager list\<close> shows the boxes of the broker. What \<open>handle_list\<close> sends makes \<open>list_boxes\<close> print one line
  for each box, none missing and none twice, in increasing order of the names, with the name, the size
  and the numbers of publishers and subscribers the box has; without boxes it says so. The client's pipe
  is removed at the end.
\<close>

theorem manager_lists_boxes:
  assumes inv: "boxes_inv br" and count: "box_count br = int (card {i. used br i})"
    and wr: "\<forall>j r. list_wf r \<longrightarrow> list_manager_response_send (wr j) r = 0"
    and conn: "connect_to_mbroker env (args ! 1) (args ! 2) None LIST_BOX_OP = Ok (True, es)" and max: "box_count_max br \<le> box_max"
  shows "\<exists>resps st is. handle_list True wr br = Ok (0, resps) \<and>
    list_boxes env box_max args (map (\<lambda>r. Whole (list_bytes r)) resps) =
      Ok (st, if is = [] then [NO_BOXES_FOUND]
              else map (\<lambda>i. line_for (mbroker_boxes br ! i)) is,
          es @ [Closed (args ! 2), Unlinked (args ! 2)]) \<and>
    distinct is \<and> set is = {i. used br i} \<and> sorted_wrt (\<lambda>i j. strcmp (label_at br i) (label_at br j) < 0) is"
proof -
  note T = boxes_invD(2) [OF inv] and sends = handle_list_sends [OF inv count] and S = shown_all [OF boxes_invD(2) [OF inv]]
  have len: "length (list_entries br) = length (shown br)"
    using mset_shown [of br] by (metis length_enumerate length_map list_entries_def size_mset)
  have "list_read box_max [] (map (\<lambda>r. Whole (list_bytes r)) (list_entries br)) = Ok (shown br = [], list_entries br)"
  proof (cases "shown br = []")
    case True
    then show ?thesis using len by simp
  next
    case False
    have "length (list_entries br) \<le> box_max"
      using max length_filter_le [of "used br" "[0..<box_count_max br]"] by (simp add: list_entries_def)
    moreover have "list_entries br \<noteq> []" using len False by (metis length_0_conv)
    ultimately show ?thesis using list_read_all [OF sends(3), of "[]" box_max] sends(2) False by auto
  qed
  then have "list_boxes env box_max args (map (\<lambda>r. Whole (list_bytes r)) (list_entries br)) =
      Ok (fst (finish env (args ! 2)), if shown br = [] then [NO_BOXES_FOUND] else map (\<lambda>i. line_for (mbroker_boxes br ! i)) (shown br),
        es @ [Closed (args ! 2), Unlinked (args ! 2)])"
    using conn S(4) by (simp add: list_boxes_def finish_def)
  with sends(1) [of wr] wr S show ?thesis by blast
qed

theorem manager_lists_boxes_witness:
  "\<exists>resps st is es. handle_list True (\<lambda>j. accepts) (sys_broker demo_state) = Ok (0, resps) \<and>
    list_boxes demo_os (box_count_max (sys_broker demo_state)) [cstr ''manager'', cstr ''/r'', cstr ''/p'', cstr ''list'']
      (map (\<lambda>r. Whole (list_bytes r)) resps) =
      Ok (st, map (\<lambda>i. line_for (mbroker_boxes (sys_broker demo_state) ! i)) is, es) \<and> 0 \<in> set is"
proof -
  let ?br = "sys_broker demo_state" and ?args = "[cstr ''manager'', cstr ''/r'', cstr ''/p'', cstr ''list'']"
  obtain es where es: "connect_to_mbroker demo_os (?args ! 1) (?args ! 2) None LIST_BOX_OP = Ok (True, es)"
    using demo_connects [of None LIST_BOX_OP] by auto
  have wr: "\<forall>j r. list_wf r \<longrightarrow> list_manager_response_send accepts r = 0"
    by (simp add: list_manager_response_send_def accepts_def list_bytes_def list_wf_def)
  obtain resps st "is" where sent: "handle_list True (\<lambda>j. accepts) ?br = Ok (0, resps)"
    and shown: "list_boxes demo_os (box_count_max ?br) ?args (map (\<lambda>r. Whole (list_bytes r)) resps) =
      Ok (st, if is = [] then [NO_BOXES_FOUND] else map (\<lambda>i. line_for (mbroker_boxes ?br ! i)) is,
          es @ [Closed (?args ! 2), Unlinked (?args ! 2)])" and "set is = {i. used ?br i}"
    using manager_lists_boxes [OF sys_invD(1,10) [OF demo_reached(2)] wr es order_refl] by blast
  moreover have "used ?br 0" using demo_state_view(2) by (simp add: demo_view_def)
  ultimately have "0 \<in> set is" "is \<noteq> []" by auto
  with sent shown show ?thesis by (intro exI conjI) (assumption | simp)+
qed

section \<open>Creating a box\<close>

text \<open>The two sides of a request to create a box: the broker's response and what the client makes of it.\<close>

lemma create_handled:
  assumes "label_ok nm" "create_box slack (blank_response 4) nm br = Ok (ret, resp, br')"
  shows "handle_manager slack True wr (request_of CREATE_BOX_OP pipe nm) br =
    Ok (if manager_response_send wr (resp\<lparr>man_ret_code := ret\<rparr>) = 0 then 0 else -1, Some (resp\<lparr>man_ret_code := ret\<rparr>),
        if ret = 0 then br'\<lparr>box_count := box_count br' + 1\<rparr> else br')"
proof -
  have "string_at (reg_box_name (request_of CREATE_BOX_OP pipe nm)) 0 = Ok nm"
    using assms(1) by (simp add: request_of_def label_ok_def string_at_pad)
  with assms(2) show ?thesis
    by (simp add: handle_manager_def manager_response_init_def blank_response_def request_of_def op_codes)
qed

lemma create_told:
  assumes "length args = 5" "connect_to_mbroker env (args ! 1) (args ! 2) (Some (args ! 4)) op = Ok (True, es)"
    "manager_wf resp" "string_at (man_error_message resp) 0 = Ok msg"
  shows "create_delete_box env op args (Whole (manager_bytes resp)) =
    Ok (fst (finish env (args ! 2)), [if man_ret_code resp = -1 then ERR_answer msg else OK_answer],
        es @ [Closed (args ! 2), Unlinked (args ! 2)])"
  using assms by (simp add: create_delete_box_def manager_wire.dec_enc finish_def Let_def)

text \<open>
  C21: \<open>manager create\<close> tells the truth. For a broker in good order, \<open>OK\<close> is printed exactly when there was
  no box of that name and the file system could create its file, and then there is such a box
  and \<open>box_count\<close> is one more; otherwise the error that is printed says which of the two it was, and the table of
  boxes is as before.
\<close>

theorem manager_create_answered:
  assumes inv: "boxes_inv br" and nm: "label_ok nm" "0 < slack"
    and args: "length args = 5" "args ! 4 = nm"
    and conn: "connect_to_mbroker env (args ! 1) (args ! 2) (Some nm) CREATE_BOX_OP = Ok (True, es)"
  shows "\<exists>r resp br' st a. handle_manager slack True wr (request_of CREATE_BOX_OP (args ! 2) nm) br = Ok (r, Some resp, br') \<and>
    create_delete_box env CREATE_BOX_OP args (Whole (manager_bytes resp)) =
      Ok (st, [a], es @ [Closed (args ! 2), Unlinked (args ! 2)]) \<and>
    (a = OK_answer \<longleftrightarrow> get_box nm br = Ok None \<and> can_create nm (afs_of br)) \<and>
    (a = OK_answer \<longrightarrow> box_count br' = box_count br + 1 \<and> (\<exists>i. used br' i \<and> label_at br' i = nm)) \<and>
    (a \<noteq> OK_answer \<longrightarrow> a = ERR_answer (if get_box nm br = Ok None then RESP_ERR_CREATE_BOX else RESP_ERR_DUPLICATE_BOX) \<and>
      mbroker_boxes br' = mbroker_boxes br \<and> box_count br' = box_count br)"
proof -
  let ?resp = "blank_response 4"
  note I = boxes_invD [OF inv] and T = table_okD [OF boxes_invD(2) [OF inv]]
  have z: "0 \<notin> set nm" using nm by (simp add: label_ok_def)
  note handled = create_handled [OF nm(1)] and told = create_told [OF args(1) conn [folded args(2)]]
  have err: ?thesis
    if "create_box slack ?resp nm br = Ok (-1, told ?resp msg, br')" "mbroker_boxes br' = mbroker_boxes br" "box_count br' = box_count br"
      "\<not> (get_box nm br = Ok None \<and> can_create nm (afs_of br))" "0 \<notin> set msg" "length msg < 1024"
      "msg = (if get_box nm br = Ok None then RESP_ERR_CREATE_BOX else RESP_ERR_DUPLICATE_BOX)" for msg br'
  proof -
    let ?r = "told ?resp msg\<lparr>man_ret_code := -1\<rparr>"
    have "manager_wf ?r" using that(6) by (simp add: manager_wf_def told_def blank_response_def int32_range_def)
    from told [OF this, of msg] told_message [OF that(5), of ?resp] have "create_delete_box env CREATE_BOX_OP args (Whole (manager_bytes ?r)) =
        Ok (fst (finish env (args ! 2)), [ERR_answer msg], es @ [Closed (args ! 2), Unlinked (args ! 2)])" by simp
    with handled [OF that(1)] show ?thesis by (rule_tac exI, rule_tac exI [of _ ?r]) (use that(2-4,7) in auto)
  qed
  show ?thesis
  proof (cases "get_box nm br = Ok None")
    case False
    then obtain i where "used br i" "label_at br i = nm" using get_box_None_iff [OF I(2) z] by blast
    with create_box_duplicate [OF I(2), of i ?resp slack] False error_strings error_lengths show ?thesis
      by (intro err) (simp_all add: blank_response_def)
  next
    case True
    then have all: "\<forall>i. used br i \<longrightarrow> label_at br i \<noteq> nm" using get_box_None_iff [OF I(2) z] by blast
    have len: "length (man_error_message ?resp) = ERR_MESSAGE_LENGTH" by (simp add: blank_response_def)
    from inv nm(1) all nm(2) len show ?thesis
    proof (cases rule: create_box_cases)
      case (created i fs)
      have "used (br\<lparr>broker_fs := fs, mbroker_boxes := (mbroker_boxes br)[i := new_box nm]\<rparr>) i"
        using created(2) T(1) by (simp add: used_def)
      moreover have "manager_wf ?resp" "string_at (man_error_message ?resp) 0 = Ok []"
        by (simp_all add: manager_wf_def blank_response_def int32_range_def string_at_def)
      ultimately show ?thesis
        using handled [OF created(4)] told [of ?resp "[]"] created(1,2) T(1) True nm(1) by (auto simp: blank_response_def)
    next
      case (failed fs)
      with True error_strings error_lengths show ?thesis by (intro err [OF failed(2)]) simp_all
    qed
  qed
qed

theorem manager_create_answered_witness:
  "\<exists>r resp br' st es. handle_manager 1 True accepts (request_of CREATE_BOX_OP (cstr ''/p'') (cstr ''b'')) (sys_broker demo_state) =
      Ok (r, Some resp, br') \<and>
    create_delete_box demo_os CREATE_BOX_OP [cstr ''manager'', cstr ''/r'', cstr ''/p'', cstr ''create'', cstr ''b''] (Whole (manager_bytes resp)) =
      Ok (st, [ERR_answer RESP_ERR_DUPLICATE_BOX], es)"
proof -
  let ?args = "[cstr ''manager'', cstr ''/r'', cstr ''/p'', cstr ''create'', cstr ''b'']"
  obtain es where es: "connect_to_mbroker demo_os (?args ! 1) (?args ! 2) (Some (cstr ''b'')) CREATE_BOX_OP = Ok (True, es)"
    using demo_connects [of "Some (cstr ''b'')" CREATE_BOX_OP] by (auto simp: cstr_def)
  have nm: "label_ok (cstr ''b'')" by (simp add: label_ok_def cstr_def)
  have "get_box (cstr ''b'') (sys_broker demo_state) = Ok (Some 0)"
    using get_box_Some [OF boxes_invD(2) [OF demo_boxes], of 0] demo_state_view(2) by (simp add: demo_view_def)
  with manager_create_answered [OF demo_boxes nm _ _ _ es, of 1 accepts] show ?thesis by auto
qed

section \<open>Deleting a box\<close>

lemma delete_handled:
  assumes "label_ok nm" "delete_box (blank_response 6) nm br = Ok (ret, resp, br')"
  shows "handle_manager slack True wr (request_of DELETE_BOX_OP pipe nm) br =
    Ok (if manager_response_send wr (resp\<lparr>man_ret_code := ret\<rparr>) = 0 then 0 else -1, Some (resp\<lparr>man_ret_code := ret\<rparr>),
        if ret = 0 then br'\<lparr>box_count := box_count br' - 1\<rparr> else br')"
proof -
  have "string_at (reg_box_name (request_of DELETE_BOX_OP pipe nm)) 0 = Ok nm"
    using assms(1) by (simp add: request_of_def label_ok_def string_at_pad)
  with assms(2) show ?thesis
    by (simp add: handle_manager_def manager_response_init_def blank_response_def request_of_def op_codes)
qed

text \<open>
  C22: \<open>manager delete\<close> tells the truth. In every state the broker can reach, for a name without a
  session on its box, \<open>OK\<close> is printed exactly when there is a box of that name; then it is gone,
  \<open>box_count\<close> is one less and every other box is as before. Otherwise the user is told that the box does not
  exist, and nothing has changed.
\<close>

theorem manager_delete_answered:
  assumes reach: "sys_start S0" "sys_step\<^sup>*\<^sup>* S0 S" and nm: "label_ok nm" "idle_box S nm"
    and args: "length args = 5" "args ! 4 = nm"
    and conn: "connect_to_mbroker env (args ! 1) (args ! 2) (Some nm) DELETE_BOX_OP = Ok (True, es)"
  shows "\<exists>r resp br' st a. handle_manager slack True wr (request_of DELETE_BOX_OP (args ! 2) nm) (sys_broker S) = Ok (r, Some resp, br') \<and>
    create_delete_box env DELETE_BOX_OP args (Whole (manager_bytes resp)) =
      Ok (st, [a], es @ [Closed (args ! 2), Unlinked (args ! 2)]) \<and>
    (a = OK_answer \<longleftrightarrow> (\<exists>i. used (sys_broker S) i \<and> label_at (sys_broker S) i = nm)) \<and>
    (a = OK_answer \<longrightarrow> box_count br' = box_count (sys_broker S) - 1 \<and>
      (\<forall>i. used br' i \<longleftrightarrow> used (sys_broker S) i \<and> label_at (sys_broker S) i \<noteq> nm) \<and>
      (\<forall>i. used br' i \<longrightarrow> mbroker_boxes br' ! i = mbroker_boxes (sys_broker S) ! i)) \<and>
    (a \<noteq> OK_answer \<longrightarrow> a = ERR_answer RESP_ERR_UNKNOWN_BOX \<and> br' = sys_broker S)"
proof -
  let ?br = "sys_broker S" and ?resp = "blank_response 6"
  have inv: "sys_inv S" by (rule sessions.reachable_good [OF reach(2,1)])
  note I = boxes_invD [OF sys_invD(1) [OF inv]] and T = table_okD [OF boxes_invD(2) [OF sys_invD(1) [OF inv]]]
  have z: "0 \<notin> set nm" using nm by (simp add: label_ok_def)
  have len: "length (man_error_message ?resp) = ERR_MESSAGE_LENGTH" by (simp add: blank_response_def)
  note handled = delete_handled [OF nm(1)] and told = create_told [OF args(1) conn [folded args(2)]]
  show ?thesis
  proof (cases "\<exists>i. used ?br i \<and> label_at ?br i = nm")
    case False
    let ?r = "told ?resp RESP_ERR_UNKNOWN_BOX\<lparr>man_ret_code := -1\<rparr>"
    have d: "delete_box ?resp nm ?br = Ok (-1, told ?resp RESP_ERR_UNKNOWN_BOX, ?br)"
      by (rule delete_box_unknown [OF I(2) z _ len]) (use False in auto)
    have "manager_wf ?r" using error_lengths by (simp add: manager_wf_def told_def blank_response_def int32_range_def)
    from told [OF this, of RESP_ERR_UNKNOWN_BOX] told_message [OF error_strings(3), of ?resp] handled [OF d] False
    show ?thesis by (rule_tac exI, rule_tac exI [of _ ?r]) auto
  next
    case True
    then obtain i where i: "used ?br i" "label_at ?br i = nm" by blast
    have closed: "a_handles (afs_of ?br) fd \<noteq> Some (ino_at ?br i, off)" for fd off
      using handle_session [OF inv i(1)] nm(2) i(2) by (fastforce simp: idle_box_def pubs_on_def subs_on_def)
    let ?b = "(mbroker_boxes ?br ! i)\<lparr>box_alloc_state := NOT_USED\<rparr>"
    obtain fs where fs: "delete_box ?resp (label_at ?br i) ?br = Ok (0, ?resp, ?br\<lparr>broker_fs := fs, mbroker_boxes := (mbroker_boxes ?br)[i := ?b]\<rparr>)"
      by (rule delete_box_used [OF sys_invD(1) [OF inv] i(1) closed]) (rule that)
    let ?br' = "?br\<lparr>broker_fs := fs, mbroker_boxes := (mbroker_boxes ?br)[i := ?b], box_count := box_count ?br - 1\<rparr>"
    have u: "used ?br' j \<longleftrightarrow> used ?br j \<and> label_at ?br j \<noteq> nm" for j
      using i T(5) [OF _ i(1), of j] by (auto simp: used_def nth_list_update)
    moreover have "mbroker_boxes ?br' ! j = mbroker_boxes ?br ! j" if "used ?br' j" for j
      using that u i(2) by (cases "j = i") auto
    moreover have "manager_wf ?resp" "string_at (man_error_message ?resp) 0 = Ok []" "man_ret_code ?resp = 0"
      by (simp_all add: manager_wf_def blank_response_def int32_range_def string_at_def)
    ultimately show ?thesis
      using handled [OF fs [unfolded i(2)]] told [of ?resp "[]"] True
      by (rule_tac exI, rule_tac exI [of _ ?resp], rule_tac exI [of _ ?br']) (auto simp: blank_response_def)
  qed
qed

theorem manager_delete_answered_witness:
  "\<exists>r resp br' st es. handle_manager 1 True accepts (request_of DELETE_BOX_OP (cstr ''/p'') (cstr ''b'')) (sys_broker made_state) =
      Ok (r, Some resp, br') \<and>
    create_delete_box demo_os DELETE_BOX_OP [cstr ''manager'', cstr ''/r'', cstr ''/p'', cstr ''delete'', cstr ''b''] (Whole (manager_bytes resp)) =
      Ok (st, [OK_answer], es) \<and> \<not> used br' 0"
proof -
  let ?args = "[cstr ''manager'', cstr ''/r'', cstr ''/p'', cstr ''delete'', cstr ''b'']"
  obtain es where es: "connect_to_mbroker demo_os (?args ! 1) (?args ! 2) (Some (cstr ''b'')) DELETE_BOX_OP = Ok (True, es)"
    using demo_connects [of "Some (cstr ''b'')" DELETE_BOX_OP] by (auto simp: cstr_def)
  have nm: "label_ok (cstr ''b'')" by (simp add: label_ok_def cstr_def)
  have "idle_box made_state (cstr ''b'')" using made_state_view(4,5) by (simp add: idle_box_def)
  from manager_delete_answered [OF demo_system_start made_state_reached nm this _ _ es, of 1 accepts] made_state_view(2,3)
  show ?thesis by (simp, elim exE conjE) auto
qed

text \<open>The usage text offers \<open>remove\<close>, which is answered with the usage text; without a command \<open>main\<close> reads past its arguments.\<close>

lemma manager_remove_refused: "manager_command [prog, broker_pipe, pipe, cstr ''remove'', box] = Ok Usage"
  by (simp add: manager_command_def cstr_def)

lemma manager_needs_command: "length argv \<le> 3 \<Longrightarrow> manager_command argv = Undef"
  by (simp add: manager_command_def)

end
