(* ===== verification/Server.thy ===== *)
theory Server
  imports Protocol_Theorems
begin

text \<open>
  The broker as a whole: the main thread that reads registration requests (\<open>main\<close> of
  \<open>mbroker/mbroker.c\<close>), the bounded queue, the pool of worker threads (\<open>worker_thread_fn\<close>) and the
  sessions they hold. A worker holds at most one session, which has the worker's number. The record also
  keeps, for the theorems, the requests that have arrived and those that workers have taken.
\<close>

section \<open>State and steps\<close>

record server =
  srv_queue :: "registration_request_t pc_queue_t"
  srv_workers :: nat
  srv_system :: system
  srv_arrived :: "registration_request_t list"
  srv_taken :: "registration_request_t list"

text \<open>
  What happens next: a \<open>read\<close> on the registration pipe returns, a worker that waits for work goes on, or a
  session does. A worker is given what the stack, the client's pipe and its \<open>write\<close>s do.
\<close>

datatype server_action =
    Arrive received
  | Take nat nat bool "nat \<Rightarrow> byte list \<Rightarrow> syscall"
  | Session action

definition busy :: "system \<Rightarrow> nat \<Rightarrow> bool" where
  "busy S k \<longleftrightarrow> sys_pubs S k \<noteq> None \<or> sys_subs S k \<noteq> None"

fun is_round :: "action \<Rightarrow> bool" where
  "is_round (Pub_read k r) \<longleftrightarrow> True"
| "is_round (Sub_run k write) \<longleftrightarrow> True"
| "is_round (Spurious k) \<longleftrightarrow> True"
| "is_round _ \<longleftrightarrow> False"

text \<open>\<open>requests_handler\<close> in worker \<open>k\<close>, up to the point where the handler waits for its client.\<close>

definition serve ::
  "nat \<Rightarrow> nat \<Rightarrow> bool \<Rightarrow> (nat \<Rightarrow> byte list \<Rightarrow> syscall) \<Rightarrow> registration_request_t \<Rightarrow> handler option \<Rightarrow>
     system \<Rightarrow> system result" where
  "serve k slack pipe write req handler S =
     (case handler of
        None \<Rightarrow> Ok S
      | Some Handle_publisher \<Rightarrow> sys_next (Pub_start k pipe req) S
      | Some Handle_subscriber \<Rightarrow> sys_next (Sub_start k pipe req) S
      | Some Handle_manager \<Rightarrow> sys_next (Manage slack pipe (write 0) req) S
      | Some Handle_list \<Rightarrow> bindR (handle_list pipe write (sys_broker S)) (\<lambda>_. Ok S))"

text \<open>\<open>None\<close>: the thread has to wait, or there is no such thread.\<close>

fun srv_next :: "server_action \<Rightarrow> server \<Rightarrow> server result option" where
  "srv_next (Arrive r) V =
     (case r of
        Whole bs \<Rightarrow>
          map_option (\<lambda>res. bindR res (\<lambda>(_, q).
            Ok (V\<lparr>srv_queue := q, srv_arrived := srv_arrived V @ [registration_of bs]\<rparr>)))
            (pcq_enqueue (registration_of bs) (srv_queue V))
      | _ \<Rightarrow> Some (Ok V))"
| "srv_next (Take k slack pipe write) V =
     (if k < srv_workers V \<and> \<not> busy (srv_system V) k
      then map_option (\<lambda>res. bindR res (\<lambda>((req, handler), q).
             bindR (serve k slack pipe write req handler (srv_system V)) (\<lambda>S.
             Ok (V\<lparr>srv_queue := q, srv_system := S, srv_taken := srv_taken V @ [req]\<rparr>))))
             (worker_round (srv_queue V))
      else None)"
| "srv_next (Session x) V =
     (if is_round x then Some (bindR (sys_next x (srv_system V)) (\<lambda>S. Ok (V\<lparr>srv_system := S\<rparr>))) else None)"

text \<open>
  The contract of \<open>Sessions\<close>, for what arrives and for the request that is taken next: requests for a box
  name it properly, and a box is deleted only when nobody is connected to it.
\<close>

definition arrival_ok :: "registration_request_t \<Rightarrow> bool" where
  "arrival_ok req \<longleftrightarrow> requests_handler req \<in> {None, Some Handle_list} \<or> request_ok req"

fun srv_ok :: "server_action \<Rightarrow> server \<Rightarrow> bool" where
  "srv_ok (Arrive r) V \<longleftrightarrow> (case r of Whole bs \<Rightarrow> arrival_ok (registration_of bs) | _ \<Rightarrow> True)"
| "srv_ok (Take k slack pipe write) V \<longleftrightarrow> 0 < slack \<and>
     (case pcq_elems (srv_queue V) of
        req # _ \<Rightarrow> reg_op_code req = DELETE_BOX_OP \<longrightarrow> idle_box (srv_system V) (string_of (reg_box_name req))
      | [] \<Rightarrow> True)"
| "srv_ok (Session x) V \<longleftrightarrow> action_ok x (srv_system V)"

inductive srv_step :: "server \<Rightarrow> server \<Rightarrow> bool" where
  srv_step: "srv_ok x V \<Longrightarrow> srv_next x V = Some (Ok V') \<Longrightarrow> srv_step V V'"

inductive_cases srv_stepE: "srv_step V V'"

text \<open>The state in which \<open>main\<close> enters its loop.\<close>

definition srv_start :: "server \<Rightarrow> bool" where
  "srv_start V \<longleftrightarrow>
     pcq_wf (srv_queue V) [] \<and> unat (pcq_capacity (srv_queue V)) = srv_workers V \<and> sys_start (srv_system V) \<and>
     srv_arrived V = [] \<and> srv_taken V = []"

section \<open>The sessions of a step\<close>

text \<open>Which sessions there are after a step of a session, and after a request was served.\<close>

lemma dom_broadcast [simp]: "dom (broadcast B subs) = dom subs"
  by (auto simp: broadcast_def dom_def)

lemma broadcast_SomeD2: "broadcast B subs k = Some t \<Longrightarrow> \<exists>t. subs k = Some t"
  by (auto simp: broadcast_def)

lemma sub_goes_on_sessions:
  assumes "sub_goes_on k t res S = Ok S'" "sys_subs S k = Some t"
  shows "sys_pubs S' = sys_pubs S \<and> dom (sys_subs S') \<subseteq> dom (sys_subs S)"
  using assms by (auto simp: sub_goes_on_def bindR_eq_Ok split: sub_next.splits prod.splits if_splits)

lemma round_sessions:
  assumes "is_round x" "sys_next x S = Ok S'"
  shows "dom (sys_pubs S') \<subseteq> dom (sys_pubs S) \<and> dom (sys_subs S') \<subseteq> dom (sys_subs S)"
proof (cases x)
  case (Pub_read k r)
  then show ?thesis using assms(2)
    by (auto simp: bindR_eq_Ok dest: broadcast_SomeD2 split: option.splits if_splits prod.splits)
next
  case (Sub_run k wr)
  then have "S' = S \<or> (\<exists>t res. sub_goes_on k t res S = Ok S' \<and> sys_subs S k = Some t)"
    using assms(2) by (auto simp: bindR_eq_Ok split: option.splits sub_mode.splits)
  then show ?thesis by (elim disjE exE conjE) (auto dest: sub_goes_on_sessions)
next
  case (Spurious k)
  then show ?thesis using assms(2) by (auto split: option.splits if_splits)
qed (use assms(1) in simp_all)

lemma serve_sessions:
  assumes "serve k slack pipe wr req handler S = Ok S'"
  shows "sys_pubs S' = sys_pubs S \<and> dom (sys_subs S') \<subseteq> insert k (dom (sys_subs S)) \<or>
    sys_subs S' = sys_subs S \<and> dom (sys_pubs S') \<subseteq> insert k (dom (sys_pubs S))"
proof (cases handler)
  case (Some h)
  then show ?thesis
  proof (cases h)
    case Handle_publisher
    with Some assms obtain x :: "int + pub_session" and br where "S' = (case x of Inl _ \<Rightarrow> S\<lparr>sys_broker := br\<rparr>
        | Inr p \<Rightarrow> S\<lparr>sys_broker := br, sys_pubs := (sys_pubs S)(k \<mapsto> p)\<rparr>)" by (fastforce simp: serve_def bindR_eq_Ok)
    then show ?thesis by (cases x) auto
  next
    case Handle_subscriber
    with Some assms obtain x :: "int + sub_session" and br where "S' = (case x of Inl _ \<Rightarrow> S\<lparr>sys_broker := br\<rparr>
        | Inr u \<Rightarrow> S\<lparr>sys_broker := br, sys_subs := (sys_subs S)(k \<mapsto> \<lparr>th_session = u, th_mode = Running, th_got = []\<rparr>)\<rparr>)"
      by (fastforce simp: serve_def bindR_eq_Ok)
    then show ?thesis by (cases x) auto
  next
    case Handle_manager
    with Some assms show ?thesis by (auto simp: serve_def bindR_eq_Ok dest: broadcast_SomeD2 split: prod.splits)
  qed (use Some assms in \<open>auto simp: serve_def bindR_eq_Ok\<close>)
qed (use assms in \<open>auto simp: serve_def\<close>)

section \<open>Serving a request\<close>

lemma list_loop_total:
  assumes "table_ok br"
  shows "\<forall>i\<in>set is. i < box_count_max br \<Longrightarrow> \<exists>resps. list_loop wr br is j = Ok resps"
proof (induction "is" arbitrary: j)
  case (Cons i "is")
  then have i: "i < length (mbroker_boxes br)" using table_okD(1) [OF assms] by simp
  obtain resps where "list_loop wr br is (Suc j) = Ok resps" using Cons by auto
  moreover obtain resps' where "list_loop wr br is j = Ok resps'" using Cons by auto
  moreover have "string_at (box_name (mbroker_boxes br ! i)) 0 = Ok (slash # label_at br i)" "label_ok (label_at br i)" if "used br i"
    using box_wf_path table_okD(4) [OF assms that] by (auto simp: box_wf_def)
  ultimately show ?case
    using i by (cases "used br i") (auto simp: used_def label_ok_def list_manager_response_init_def strcpy_zeros)
qed simp

lemma serve_total:
  assumes inv: "sys_inv S" and req: "arrival_ok req" "0 < slack" "\<not> busy S k"
    and del: "reg_op_code req = DELETE_BOX_OP \<Longrightarrow> idle_box S (string_of (reg_box_name req))"
  shows "\<exists>S'. serve k slack pipe wr req (requests_handler req) S = Ok S' \<and> (S' = S \<or> sys_step S S')"
proof -
  have step: "\<exists>S'. sys_next x S = Ok S' \<and> (S' = S \<or> sys_step S S')" if "action_ok x S" for x
    using sys_next_total [OF inv that] that by (blast intro: sys_step.intros)
  have free: "sys_pubs S k = None" "sys_subs S k = None" using req(3) by (simp_all add: busy_def)
  show ?thesis
  proof (cases "requests_handler req")
    case (Some h)
    show ?thesis
    proof (cases h)
      case Handle_list
      obtain resps where "list_loop wr (sys_broker S) [0..<box_count_max (sys_broker S)] 0 = Ok resps"
        using list_loop_total [OF boxes_invD(2) [OF sys_invD(1) [OF inv]], of "[0..<box_count_max (sys_broker S)]" wr 0] by auto
      with Some Handle_list show ?thesis by (simp add: serve_def handle_list_def)
    next
      case Handle_publisher
      then have "action_ok (Pub_start k pipe req) S" using Some req(1) free by (simp add: arrival_ok_def)
      from step [OF this] Some Handle_publisher show ?thesis by (simp add: serve_def del: sys_next.simps)
    next
      case Handle_subscriber
      then have "action_ok (Sub_start k pipe req) S" using Some req(1) free by (simp add: arrival_ok_def)
      from step [OF this] Some Handle_subscriber show ?thesis by (simp add: serve_def del: sys_next.simps)
    next
      case Handle_manager
      then have "action_ok (Manage slack pipe (wr 0) req) S" using Some req(1,2) del by (simp add: arrival_ok_def)
      from step [OF this] Some Handle_manager show ?thesis by (simp add: serve_def del: sys_next.simps)
    qed
  qed (simp add: serve_def)
qed

section \<open>The invariant\<close>

text \<open>The workers that hold sessions of the one and of the other kind.\<close>

definition pool_ok :: "nat \<Rightarrow> nat set \<Rightarrow> nat set \<Rightarrow> bool" where
  "pool_ok n A B \<longleftrightarrow> A \<subseteq> {..<n} \<and> B \<subseteq> {..<n} \<and> A \<inter> B = {}"

lemma pool_ok_shrink: "pool_ok n A B \<Longrightarrow> A' \<subseteq> A \<Longrightarrow> B' \<subseteq> B \<Longrightarrow> pool_ok n A' B'"
  by (auto simp: pool_ok_def)

lemma pool_ok_grow:
  "pool_ok n A B \<Longrightarrow> k < n \<Longrightarrow> k \<notin> A \<Longrightarrow> k \<notin> B \<Longrightarrow> A' = A \<and> B' \<subseteq> insert k B \<or> B' = B \<and> A' \<subseteq> insert k A \<Longrightarrow> pool_ok n A' B'"
  by (auto simp: pool_ok_def)

lemma pool_ok_card: "pool_ok n A B \<Longrightarrow> card A + card B \<le> n"
  using card_mono [of "{..<n}" "A \<union> B"] by (auto simp: pool_ok_def card_Un_disjoint finite_subset)

definition srv_inv :: "server \<Rightarrow> bool" where
  "srv_inv V \<longleftrightarrow>
     (let q = srv_queue V; S = srv_system V in
      sys_inv S \<and> pcq_wf q (pcq_elems q) \<and> unat (pcq_capacity q) = srv_workers V \<and>
      srv_arrived V = srv_taken V @ pcq_elems q \<and> (\<forall>req\<in>set (pcq_elems q). arrival_ok req) \<and>
      pool_ok (srv_workers V) (dom (sys_pubs S)) (dom (sys_subs S)))"

lemma srv_invD:
  assumes "srv_inv V"
  shows "sys_inv (srv_system V)" "pcq_wf (srv_queue V) (pcq_elems (srv_queue V))"
    "unat (pcq_capacity (srv_queue V)) = srv_workers V" "srv_arrived V = srv_taken V @ pcq_elems (srv_queue V)"
    "\<forall>req\<in>set (pcq_elems (srv_queue V)). arrival_ok req"
    "pool_ok (srv_workers V) (dom (sys_pubs (srv_system V))) (dom (sys_subs (srv_system V)))"
  using assms by (simp_all add: srv_inv_def Let_def)

lemma srv_start_inv: "srv_start V \<Longrightarrow> srv_inv V"
  using pcq_wf_elems [of "srv_queue V" "[]"] sys_start_inv [of "srv_system V"]
  by (auto simp: srv_start_def srv_inv_def sys_start_def pool_ok_def Let_def)

text \<open>Who has to wait: the main thread for room in the queue, a worker for a request.\<close>

fun waits :: "server_action \<Rightarrow> server \<Rightarrow> bool" where
  "waits (Arrive r) V \<longleftrightarrow> (\<exists>bs. r = Whole bs) \<and> length (pcq_elems (srv_queue V)) = srv_workers V"
| "waits (Take k slack pipe wr) V \<longleftrightarrow> \<not> k < srv_workers V \<or> busy (srv_system V) k \<or> pcq_elems (srv_queue V) = []"
| "waits (Session x) V \<longleftrightarrow> \<not> is_round x"

lemma arrive_next:
  assumes inv: "srv_inv V" and ok: "srv_ok (Arrive r) V" and go: "\<not> waits (Arrive r) V"
  shows "\<exists>V'. srv_next (Arrive r) V = Some (Ok V') \<and> srv_inv V' \<and> srv_system V' = srv_system V"
proof (cases r)
  case (Whole bs)
  note I = srv_invD [OF inv]
  have "length (pcq_elems (srv_queue V)) < unat (pcq_capacity (srv_queue V))"
    using pcq.bounded [OF I(2)] I(3) go Whole by simp
  from pcq.enq_adds [OF I(2) this, of "registration_of bs"] obtain q where
    "pcq_enqueue (registration_of bs) (srv_queue V) = Some (Ok (0, q))" "pcq_wf q (pcq_elems q)"
    "pcq_elems q = pcq_elems (srv_queue V) @ [registration_of bs]" "unat (pcq_capacity q) = unat (pcq_capacity (srv_queue V))" by blast
  with I ok Whole show ?thesis by (auto simp: srv_inv_def Let_def)
qed (use inv in simp_all)

lemma take_next:
  assumes inv: "srv_inv V" and ok: "srv_ok (Take k slack pipe wr) V" and go: "\<not> waits (Take k slack pipe wr) V"
  shows "\<exists>V'. srv_next (Take k slack pipe wr) V = Some (Ok V') \<and> srv_inv V' \<and> srv_workers V' = srv_workers V \<and>
    (srv_system V' = srv_system V \<or> sys_step (srv_system V) (srv_system V')) \<and>
    srv_taken V' = srv_taken V @ [hd (pcq_elems (srv_queue V))]"
proof -
  let ?S = "srv_system V"
  note I = srv_invD [OF inv]
  from go have k: "k < srv_workers V" "\<not> busy ?S k" by simp_all
  from go obtain req reqs where q: "pcq_elems (srv_queue V) = req # reqs" by (cases "pcq_elems (srv_queue V)") auto
  from pcq.deq_takes [OF I(2) q] obtain q' where q': "pcq_dequeue (srv_queue V) = Some (Ok (req, q'))" "pcq_wf q' (pcq_elems q')"
    "pcq_elems q' = reqs" "unat (pcq_capacity q') = unat (pcq_capacity (srv_queue V))" by blast
  have "arrival_ok req" using I(5) q by simp
  then obtain S' where S': "serve k slack pipe wr req (requests_handler req) ?S = Ok S'" "S' = ?S \<or> sys_step ?S S'"
    using serve_total [OF I(1), of req slack k] ok k(2) q by auto
  have "sys_inv S'" using S'(2) I(1) sessions.step_good by blast
  moreover have "pool_ok (srv_workers V) (dom (sys_pubs S')) (dom (sys_subs S'))"
    using serve_sessions [OF S'(1)] k by (intro pool_ok_grow [OF I(6) k(1)]) (auto simp: busy_def)
  ultimately show ?thesis
    using q' q S' k I(3-5) by (auto simp: worker_round_def srv_inv_def Let_def)
qed

lemma session_next:
  assumes inv: "srv_inv V" and ok: "srv_ok (Session x) V" and go: "\<not> waits (Session x) V"
  shows "\<exists>V'. srv_next (Session x) V = Some (Ok V') \<and> srv_inv V' \<and> sys_step (srv_system V) (srv_system V') \<and>
    srv_queue V' = srv_queue V \<and> srv_taken V' = srv_taken V"
proof -
  note I = srv_invD [OF inv]
  obtain S' where S': "sys_next x (srv_system V) = Ok S'" "sys_inv S'" using sys_next_total [OF I(1)] ok by auto
  have "dom (sys_pubs S') \<subseteq> dom (sys_pubs (srv_system V)) \<and> dom (sys_subs S') \<subseteq> dom (sys_subs (srv_system V))"
    using round_sessions [OF _ S'(1)] go by simp
  then have "pool_ok (srv_workers V) (dom (sys_pubs S')) (dom (sys_subs S'))" using pool_ok_shrink [OF I(6)] by blast
  moreover have "sys_step (srv_system V) S'" using ok S'(1) by (auto intro: sys_step.intros simp del: sys_next.simps)
  ultimately show ?thesis
    using go S' I by (auto simp: srv_inv_def Let_def simp del: sys_next.simps)
qed

lemma waits_next:
  assumes "srv_inv V" "waits x V"
  shows "srv_next x V = None"
proof (cases x)
  case (Arrive r)
  then show ?thesis using assms pcq.enq_waits [OF srv_invD(2) [OF assms(1)]] srv_invD(3) [OF assms(1)] by auto
next
  case (Take k slack pipe wr)
  then show ?thesis using assms pcq.deq_waits [OF srv_invD(2) [OF assms(1)]] by (auto simp: worker_round_def)
next
  case (Session x)
  then show ?thesis using assms by simp
qed

lemma srv_next_total:
  assumes "srv_inv V" "srv_ok x V" "\<not> waits x V"
  shows "\<exists>V'. srv_next x V = Some (Ok V') \<and> srv_inv V' \<and> (srv_system V' = srv_system V \<or> sys_step (srv_system V) (srv_system V'))"
proof (cases x)
  case (Arrive r)
  with arrive_next [of V r] assms show ?thesis by metis
next
  case (Take k slack pipe wr)
  with take_next [of V k slack pipe wr] assms show ?thesis by metis
next
  case (Session x)
  with session_next [of V x] assms show ?thesis by metis
qed

lemma srv_step_good:
  assumes "srv_inv V" "srv_step V V'"
  shows "srv_inv V'" "sys_step\<^sup>*\<^sup>* (srv_system V) (srv_system V')"
proof -
  from assms(2) obtain x where x: "srv_ok x V" "srv_next x V = Some (Ok V')" by (rule srv_stepE)
  with waits_next [OF assms(1), of x] have "\<not> waits x V" by auto
  from srv_next_total [OF assms(1) x(1) this] x(2)
  show "srv_inv V'" "sys_step\<^sup>*\<^sup>* (srv_system V) (srv_system V')" by auto
qed

interpretation servers: stepping srv_start srv_step srv_inv
  by unfold_locales (rule srv_start_inv, assumption, rule srv_step_good(1))

end
