(* ===== verification/Server_Theorems.thy ===== *)
theory Server_Theorems
  imports Server
begin

text \<open>
  The properties of the broker as a whole: that its sessions behave as those of \<open>Sessions\<close>, which requests are
  served and when, how many sessions there are, and when nobody is served any more.
\<close>

section \<open>Runs\<close>

text \<open>An executable part of the contract, for runs that delete nothing.\<close>

fun srv_safe :: "server_action \<Rightarrow> server \<Rightarrow> bool" where
  "srv_safe (Arrive r) V \<longleftrightarrow> (case r of Whole bs \<Rightarrow> arrival_ok (registration_of bs) | _ \<Rightarrow> True)"
| "srv_safe (Take k slack pipe wr) V \<longleftrightarrow>
     0 < slack \<and> (case pcq_elems (srv_queue V) of req # _ \<Rightarrow> reg_op_code req \<noteq> DELETE_BOX_OP | [] \<Rightarrow> True)"
| "srv_safe (Session x) V \<longleftrightarrow> action_safe x (srv_system V)"

fun srv_run :: "server_action list \<Rightarrow> server \<Rightarrow> server option" where
  "srv_run [] V = Some V"
| "srv_run (x # xs) V =
     (if srv_safe x V then (case srv_next x V of Some (Ok V') \<Rightarrow> srv_run xs V' | _ \<Rightarrow> None) else None)"

lemma srv_safe_ok: "srv_safe x V \<Longrightarrow> srv_ok x V"
  by (cases x) (auto dest: action_safe_ok split: list.splits)

lemma srv_run_reaches: "srv_run xs V = Some V' \<Longrightarrow> srv_step\<^sup>*\<^sup>* V V'"
proof (induction xs arbitrary: V)
  case (Cons x xs)
  then obtain V1 where "srv_safe x V" "srv_next x V = Some (Ok V1)" "srv_run xs V1 = Some V'"
    by (auto split: if_splits option.splits result.splits)
  with Cons.IH show ?case by (blast intro: srv_step.intros srv_safe_ok converse_rtranclp_into_rtranclp)
qed simp

text \<open>A broker with one worker, a box and a subscriber that waits for messages; a publisher has asked for a session.\<close>

definition demo_server :: server where
  "demo_server =
     \<lparr>srv_queue = \<lparr>pcq_buffer = [demo_request 0 ''x''], pcq_capacity = 1, pcq_current_size = 0, pcq_head = 0, pcq_tail = 0\<rparr>,
      srv_workers = 1, srv_system = demo_system, srv_arrived = [], srv_taken = []\<rparr>"

abbreviation demo_arrival :: "byte \<Rightarrow> string \<Rightarrow> server_action" where
  "demo_arrival op nm \<equiv> Arrive (Whole (registration_bytes (demo_request op nm)))"

abbreviation demo_take :: server_action where
  "demo_take \<equiv> Take 0 1 True (\<lambda>_. accepts)"

definition starved_actions :: "server_action list" where
  "starved_actions =
     [demo_arrival CREATE_BOX_OP ''b'', demo_take, demo_arrival SUB_REGISTER_OP ''b'', demo_take, Session (Sub_run 0 accepts),
      demo_arrival PUB_REGISTER_OP ''b'']"

definition starved_view :: "server \<Rightarrow> bool" where
  "starved_view V \<longleftrightarrow> map_option th_mode (sys_subs (srv_system V) 0) = Some Waiting \<and> srv_workers V = 1 \<and>
     map_option th_box (sys_subs (srv_system V) 0) = Some 0 \<and>
     srv_taken V = [demo_request CREATE_BOX_OP ''b'', demo_request SUB_REGISTER_OP ''b''] \<and>
     pcq_elems (srv_queue V) = [demo_request PUB_REGISTER_OP ''b'']"

lemma starved_run: "case srv_run starved_actions demo_server of Some V \<Rightarrow> starved_view V | None \<Rightarrow> False"
  by code_simp

definition starved_server :: server where
  "starved_server = (case srv_run starved_actions demo_server of Some V \<Rightarrow> V | None \<Rightarrow> demo_server)"

lemma starved_server_view: "srv_step\<^sup>*\<^sup>* demo_server starved_server" "starved_view starved_server"
  using starved_run srv_run_reaches [of starved_actions demo_server] by (auto simp: starved_server_def split: option.splits)

lemma demo_server_start: "srv_start demo_server"
  using demo_system_start by (simp add: srv_start_def demo_server_def pcq_wf_def ring_def)

section \<open>The sessions of the pool\<close>

lemma srv_reaches:
  assumes "srv_start V0" "srv_step\<^sup>*\<^sup>* V0 V"
  shows "sys_step\<^sup>*\<^sup>* (srv_system V0) (srv_system V)"
  using assms(2)
proof (induction rule: rtranclp_induct)
  case (step V V')
  then have "srv_inv V" using servers.reachable_good assms(1) by blast
  from srv_step_good(2) [OF this step(2)] step.IH show ?case by (rule rtranclp_trans [rotated])
qed simp

text \<open>
  C6: The broker with its queue and its pool of workers refines the sessions on their own: every run, in
  which requests arrive, workers take them and sessions go on in any order, is a run of the sessions
  from a start without boxes. So what is true of all states of the sessions is true here: what a
  subscriber has been sent is a prefix of what its box has accepted, and no mutex is left locked.
\<close>

theorem server_refines_sessions:
  assumes "srv_start V0" "srv_step\<^sup>*\<^sup>* V0 V"
  shows "sys_start (srv_system V0) \<and> sys_step\<^sup>*\<^sup>* (srv_system V0) (srv_system V) \<and>
    (\<forall>k t. sys_subs (srv_system V) k = Some t \<longrightarrow> prefix (th_got t) (sys_log (srv_system V) (th_box t))) \<and>
    (\<forall>b\<in>set (mbroker_boxes (sys_broker (srv_system V))). \<not> box_mutex b)"
proof -
  have inv: "sys_inv (srv_system V)" by (rule srv_invD(1) [OF servers.reachable_good [OF assms(2,1)]])
  have "prefix (th_got t) (sys_log (srv_system V) (th_box t))" if "sys_subs (srv_system V) k = Some t" for k t
    using sys_invD(4) [OF inv that] by (simp add: sub_ok_def Let_def)
  moreover have "\<not> box_mutex b" if "b \<in> set (mbroker_boxes (sys_broker (srv_system V)))" for b
    using that table_okD(1,3) [OF boxes_invD(2) [OF sys_invD(1) [OF inv]]] by (auto simp: in_set_conv_nth)
  ultimately show ?thesis using assms(1) srv_reaches [OF assms] by (simp add: srv_start_def)
qed

theorem server_refines_sessions_witness:
  "sys_step\<^sup>*\<^sup>* (srv_system demo_server) (srv_system starved_server) \<and>
    prefix (th_got (the (sys_subs (srv_system starved_server) 0))) (sys_log (srv_system starved_server) 0)"
proof -
  obtain t where "sys_subs (srv_system starved_server) 0 = Some t" "th_box t = 0" using starved_server_view(2) by (auto simp: starved_view_def)
  then show ?thesis using server_refines_sessions [OF demo_server_start starved_server_view(1)] by force
qed

text \<open>
  C24: Requests are taken in the order in which they arrived, none twice and none left out: those that have
  arrived are those that workers have taken followed by those in the queue. The queue never
  holds more than \<open>max_sessions\<close> requests, and never more than \<open>max_sessions\<close> sessions are open.
\<close>

theorem server_serves_in_order:
  assumes "srv_start V0" "srv_step\<^sup>*\<^sup>* V0 V"
  shows "srv_arrived V = srv_taken V @ pcq_elems (srv_queue V) \<and> length (pcq_elems (srv_queue V)) \<le> srv_workers V \<and>
    card (dom (sys_pubs (srv_system V))) + card (dom (sys_subs (srv_system V))) \<le> srv_workers V"
proof -
  note I = srv_invD [OF servers.reachable_good [OF assms(2,1)]]
  from pcq.bounded [OF I(2)] I(3,4) pool_ok_card [OF I(6)] show ?thesis by simp
qed

theorem server_serves_in_order_witness:
  "srv_arrived starved_server = [demo_request CREATE_BOX_OP ''b'', demo_request SUB_REGISTER_OP ''b'', demo_request PUB_REGISTER_OP ''b''] \<and>
    card (dom (sys_pubs (srv_system starved_server))) + card (dom (sys_subs (srv_system starved_server))) \<le> 1"
  using server_serves_in_order [OF demo_server_start starved_server_view(1)] starved_server_view(2) by (simp add: starved_view_def)

section \<open>Waiting\<close>



text \<open>
  C25: When every worker holds a subscriber that waits for messages, nobody is served any more: whatever
  arrives, and whatever the sessions do, no request is taken and no session changes, unless a condition
  variable wakes up on its own. A publisher that would wake them stays in the queue for ever.
\<close>

theorem sleeping_pool_serves_nobody:
  assumes "srv_start V0" "srv_step\<^sup>*\<^sup>* V0 V"
    and asleep: "\<forall>k < srv_workers V. \<exists>t. sys_subs (srv_system V) k = Some t \<and> th_mode t = Waiting"
    and quiet: "\<forall>x\<in>set xs. \<forall>k. x \<noteq> Session (Spurious k)" and run: "srv_run xs V = Some V'"
  shows "srv_taken V' = srv_taken V \<and> srv_system V' = srv_system V"
  using run quiet asleep servers.reachable_good [OF assms(2,1)]
proof (induction xs arbitrary: V)
  case (Cons x xs)
  then obtain V1 where V1: "srv_safe x V" "srv_next x V = Some (Ok V1)" "srv_run xs V1 = Some V'"
    by (auto split: if_splits option.splits result.splits)
  note asleep = Cons.prems(3) and I = srv_invD [OF Cons.prems(4)]
  have no_pub: "sys_pubs (srv_system V) = Map.empty"
  proof -
    have "{..<srv_workers V} \<subseteq> dom (sys_subs (srv_system V))" using asleep by auto
    with I(6) have "dom (sys_pubs (srv_system V)) = {}" unfolding pool_ok_def by blast
    then show ?thesis by simp
  qed
  have sub: "th_mode t = Waiting" if "sys_subs (srv_system V) k = Some t" for k t
  proof -
    have "k < srv_workers V" using I(6) that by (auto simp: pool_ok_def)
    with asleep that show ?thesis by auto
  qed
  have "srv_taken V1 = srv_taken V \<and> srv_system V1 = srv_system V \<and> srv_workers V1 = srv_workers V"
  proof (cases x)
    case (Arrive r)
    with V1(2) show ?thesis by (cases r) (auto simp: bindR_eq_Ok)
  next
    case (Take k slack pipe wr)
    have "busy (srv_system V) k" if "k < srv_workers V" using asleep that by (auto simp: busy_def)
    with Take V1(2) show ?thesis by (simp split: if_splits)
  next
    case (Session y)
    have "sys_next y (srv_system V) = Ok (srv_system V)" if "is_round y"
    proof (cases y)
      case (Sub_run k wr)
      with sub show ?thesis by (cases "sys_subs (srv_system V) k") simp_all
    qed (use that no_pub Cons.prems(2) Session in auto)
    with Session V1(2) show ?thesis by (auto simp del: sys_next.simps split: if_splits)
  qed
  moreover have "srv_inv V1" using srv_step_good(1) [OF Cons.prems(4)] V1(1,2) srv_safe_ok by (blast intro: srv_step.intros)
  ultimately show ?case using Cons.IH [OF V1(3)] Cons.prems(2,3) by auto
qed simp

theorem sleeping_pool_serves_nobody_witness:
  "\<exists>V'. srv_run [Arrive End_of_file, Session (Sub_run 0 accepts)] starved_server = Some V' \<and>
    srv_taken V' = [demo_request CREATE_BOX_OP ''b'', demo_request SUB_REGISTER_OP ''b'']"
proof -
  obtain t where t: "sys_subs (srv_system starved_server) 0 = Some t" "th_mode t = Waiting"
    using starved_server_view(2) by (auto simp: starved_view_def)
  then obtain V' where V': "srv_run [Arrive End_of_file, Session (Sub_run 0 accepts)] starved_server = Some V'" by simp
  have "srv_taken V' = srv_taken starved_server \<and> srv_system V' = srv_system starved_server"
    by (rule sleeping_pool_serves_nobody [OF demo_server_start starved_server_view(1) _ _ V'])
      (use t starved_server_view(2) in \<open>simp_all add: starved_view_def\<close>)
  with V' starved_server_view(2) show ?thesis by (simp add: starved_view_def del: srv_run.simps)
qed

end
