(* ===== verification/Box_Races.thy ===== *)
theory Box_Races
  imports Box_Theorems
begin

text \<open>
  Two managers at once. \<open>create_box\<close> looks for a box of the same name before it takes any lock, and
  \<open>handle_manager\<close> counts the boxes without one. Here both functions are cut at these points, and
  the parts of two workers are interleaved.
\<close>

section \<open>The parts of a creation\<close>

text \<open>\<open>create_box\<close> after the search for a box of the same name.\<close>

definition create_new ::
  "nat \<Rightarrow> manager_response_t \<Rightarrow> cstring \<Rightarrow> broker \<Rightarrow> (int \<times> manager_response_t \<times> broker) result" where
  "create_new slack resp name br =
     bindR (box_initialize slack name) (\<lambda>(r, new_box).
     if r \<noteq> 0 then
       bindR (manager_response_set_error_msg resp RESP_ERR_INIT_BOX) (\<lambda>(_, resp). Ok (-1, resp, br))
     else
      bindR (string_at (box_name new_box) 0) (\<lambda>path.
      bindR (tfs_open2 (Some path) TFS_O_CREAT (broker_fs br)) (\<lambda>(fd, fs).
      if fd = -1 then
        bindR (manager_response_set_error_msg resp RESP_ERR_CREATE_BOX) (\<lambda>(_, resp).
        bindR (tfs_close2 fd fs) (\<lambda>(_, fs). Ok (-1, resp, br\<lparr>broker_fs := fs\<rparr>)))
      else
       bindR (tfs_close2 fd fs) (\<lambda>(_, fs).
       let br = br\<lparr>broker_fs := fs\<rparr> in
       if mbroker_boxes_lock br then Deadlock
       else
        bindR (findR (\<lambda>i. bindR (arr_get (mbroker_boxes br) i) (\<lambda>b. Ok (box_alloc_state b = NOT_USED)))
                 [0..<box_count_max br]) (\<lambda>slot.
        case slot of
          None \<Rightarrow> Ok (0, resp, br)
        | Some i \<Rightarrow> bindR (put_box i new_box br) (\<lambda>br. Ok (0, resp, br)))))))"

text \<open>Where a manager's worker is: about to search, to create, to read \<open>box_count\<close>, to write it back, or done.\<close>

datatype creation = Search | Create | Read_count | Write_count int | Created int

text \<open>The next part of a creation of \<open>name\<close>; \<open>box_count++\<close> reads the variable and writes it back.\<close>

definition creation_step :: "nat \<Rightarrow> cstring \<Rightarrow> creation \<Rightarrow> broker \<Rightarrow> (creation \<times> broker) result" where
  "creation_step slack name c br =
     (case c of
        Search \<Rightarrow> bindR (get_box name br) (\<lambda>found. Ok (if found \<noteq> None then Created (-1) else Create, br))
      | Create \<Rightarrow>
          bindR (create_new slack (blank_response 4) name br) (\<lambda>(ret, _, br).
          Ok (if ret = 0 then Read_count else Created ret, br))
      | Read_count \<Rightarrow> Ok (Write_count (box_count br), br)
      | Write_count n \<Rightarrow> Ok (Created 0, br\<lparr>box_count := n + 1\<rparr>)
      | Created r \<Rightarrow> Ok (Created r, br))"

text \<open>Two workers, \<open>False\<close> and \<open>True\<close>; the schedule says which one goes on.\<close>

fun creations ::
  "(bool \<Rightarrow> cstring) \<Rightarrow> bool list \<Rightarrow> (bool \<Rightarrow> creation) \<times> broker \<Rightarrow> ((bool \<Rightarrow> creation) \<times> broker) result" where
  "creations names [] cb = Ok cb"
| "creations names (w # ws) (c, br) =
     bindR (creation_step 1 (names w) (c w) br) (\<lambda>(x, br). creations names ws (c(w := x), br))"

section \<open>Alone and together\<close>

lemma create_box_parts:
  "create_box slack resp name br =
     bindR (get_box name br) (\<lambda>found.
     if found \<noteq> None then
       bindR (manager_response_set_error_msg resp RESP_ERR_DUPLICATE_BOX) (\<lambda>(_, resp). Ok (-1, resp, br))
     else create_new slack resp name br)"
  unfolding create_box_def create_new_def ..

text \<open>A worker that is not interrupted does what \<open>handle_manager\<close> does.\<close>

lemma creation_alone:
  assumes "create_box 1 (blank_response 4) (names w) br = Ok (ret, resp, br')" "c w = Search"
  shows "\<exists>c'. creations names [w, w, w, w] (c, br) = Ok (c', if ret = 0 then br'\<lparr>box_count := box_count br' + 1\<rparr> else br') \<and>
    c' w = Created ret \<and> (\<forall>v. v \<noteq> w \<longrightarrow> c' v = c v)"
proof -
  obtain found where found: "get_box (names w) br = Ok found" using assms(1) by (auto simp: create_box_def bindR_eq_Ok)
  show ?thesis
  proof (cases found)
    case None
    with found assms(1) have "create_new 1 (blank_response 4) (names w) br = Ok (ret, resp, br')" by (simp add: create_box_parts)
    with found None assms(2) show ?thesis by (auto simp: creation_step_def)
  next
    case (Some i)
    with found assms show ?thesis
      using set_error_msg [of RESP_ERR_DUPLICATE_BOX "blank_response 4"] error_lengths
      by (auto simp: creation_step_def create_box_parts blank_response_def)
  qed
qed

definition two_names :: "string \<Rightarrow> string \<Rightarrow> bool \<Rightarrow> cstring" where
  "two_names a b w = cstr (if w then b else a)"


end
