(* ===== verification/Broker_Main.thy ===== *)
theory Broker_Main
  imports Client_Theorems Server_Theorems Box_Races
begin

text \<open>
  The \<open>main\<close> function of the broker (\<open>mbroker/mbroker.c\<close>): its arguments, the start of the broker, the
  registration pipe, the queue and the worker threads, and its loop with the end by \<open>SIGINT\<close>. What the
  operating system does is a parameter. The macro \<open>PANIC\<close> exits, so that what follows it is not reached.
\<close>

section \<open>Arguments\<close>

text \<open>\<open>atoi\<close> of the C library; a value that is no \<open>int\<close> is undefined behaviour.\<close>

definition isspace :: "byte \<Rightarrow> bool" where
  "isspace c \<longleftrightarrow> c = 32 \<or> 9 \<le> c \<and> c \<le> 13"

fun digits_value :: "int \<Rightarrow> cstring \<Rightarrow> int" where
  "digits_value acc [] = acc"
| "digits_value acc (c # cs) = (if 48 \<le> c \<and> c \<le> 57 then digits_value (10 * acc + (uint c - 48)) cs else acc)"

definition atoi :: "cstring \<Rightarrow> int result" where
  "atoi s =
     (let s = dropWhile isspace s;
          v = (case s of
                 [] \<Rightarrow> 0
               | c # cs \<Rightarrow> if c = 45 then - digits_value 0 cs else if c = 43 then digits_value 0 cs else digits_value 0 s) in
      if int32_range v then Ok v else Undef)"

section \<open>Start\<close>

record broker_os =
  bos_mkfifo :: "cstring \<Rightarrow> syscall"
  bos_open_read :: "cstring \<Rightarrow> bool"
  bos_open_write :: "cstring \<Rightarrow> bool"
  bos_malloc :: "size_t \<Rightarrow> registration_request_t list option"
  bos_pthread_create :: "nat \<Rightarrow> bool"

text \<open>
  \<open>main\<close> up to its loop: it has ended with a status, or there are the queue and a number of workers. The
  array \<open>tid\<close> has \<open>max_sessions\<close> elements, which is undefined unless that is positive.
\<close>

definition mbroker_boot ::
  "broker_os \<Rightarrow> fs2_allocs \<Rightarrow> box_t list option \<Rightarrow> cstring list \<Rightarrow> broker \<Rightarrow>
     ((status + registration_request_t pc_queue_t \<times> nat) \<times> broker) result" where
  "mbroker_boot env al mem argv br =
     (if length argv < 3 \<or> argv ! 1 = cstr ''--help'' then Ok (Inl EXIT_FAILURE, br)
      else
       bindR (init_mbroker al mem br) (\<lambda>(r, br).
       if r \<noteq> 0 then Ok (Inl EXIT_FAILURE, br)
       else if (case bos_mkfifo env (argv ! 1) of Failed errno \<Rightarrow> errno \<noteq> EEXIST | Count _ \<Rightarrow> False) then Abort
       else if \<not> bos_open_read env (argv ! 1) then bindR (mbroker_destroy br) (\<lambda>(_, br). Ok (Inl EXIT_FAILURE, br))
       else if \<not> bos_open_write env (argv ! 1) then bindR (mbroker_destroy br) (\<lambda>(_, br). Ok (Inl EXIT_FAILURE, br))
       else
        bindR (atoi (argv ! 2)) (\<lambda>max_sessions.
        let capacity = word_of_int max_sessions in
        case pcq_create (bos_malloc env (pcq_bytes capacity)) capacity of
          (_, None) \<Rightarrow> Abort
        | (r, Some requests_queue) \<Rightarrow>
            if r \<noteq> 0 then Abort
            else if max_sessions \<le> 0 then Undef
            else if list_all (bos_pthread_create env) [0..<nat max_sessions]
              then Ok (Inr (requests_queue, nat max_sessions), br)
            else Abort)))"

text \<open>
  All of \<open>main\<close>, for what the \<open>read\<close>s on the registration pipe deliver: the exit status, none while it still
  runs, the requests it has put into the queue, and whether it has removed the pipe.
\<close>

definition mbroker_main ::
  "broker_os \<Rightarrow> fs2_allocs \<Rightarrow> box_t list option \<Rightarrow> cstring list \<Rightarrow> (received \<times> bool) list \<Rightarrow> broker \<Rightarrow>
     (status option \<times> registration_request_t list \<times> effect list \<times> broker) result" where
  "mbroker_main env al mem argv reads br =
     bindR (mbroker_boot env al mem argv br) (\<lambda>(boot, br).
     case boot of
       Inl st \<Rightarrow> Ok (Some st, [], [], br)
     | Inr _ \<Rightarrow>
         (case main_loop reads of
            (reqs, ended) \<Rightarrow>
              Ok (if ended then Some EXIT_SUCCESS else None, reqs, if ended then [Unlinked (argv ! 1)] else [], br)))"

section \<open>Numbers\<close>

text \<open>The digits of a number, as a user types them.\<close>

fun decimal :: "nat \<Rightarrow> cstring" where
  "decimal n = (if n < 10 then [48 + of_nat n] else decimal (n div 10) @ [48 + of_nat (n mod 10)])"

declare decimal.simps [simp del]

lemma digit_uint: "k < 10 \<Longrightarrow> uint (48 + of_nat k :: byte) = 48 + int k"
  by (simp add: uint_word_ariths unsigned_of_nat take_bit_eq_mod)

lemma digit_bounds: "k < 10 \<Longrightarrow> 48 \<le> (48 + of_nat k :: byte) \<and> (48 + of_nat k :: byte) \<le> 57"
  by (simp add: word_le_def digit_uint)

lemma digits_value_append: "\<forall>c\<in>set s. 48 \<le> c \<and> c \<le> 57 \<Longrightarrow> digits_value acc (s @ t) = digits_value (digits_value acc s) t"
  by (induction s arbitrary: acc) auto

lemma decimal_digits: "\<forall>c\<in>set (decimal n). 48 \<le> c \<and> c \<le> 57"
proof (induction n rule: decimal.induct)
  case (1 n)
  then show ?case using digit_bounds [of n] digit_bounds [of "n mod 10"] by (subst decimal.simps) auto
qed

lemma digits_value_decimal: "digits_value 0 (decimal n) = int n"
proof (induction n rule: decimal.induct)
  case (1 n)
  have "digits_value (int (n div 10)) [48 + of_nat (n mod 10)] = int n"
  proof -
    have "10 * int (n div 10) + int (n mod 10) = int n" by presburger
    then show ?thesis using digit_bounds [of "n mod 10"] digit_uint [of "n mod 10"] by simp
  qed
  with 1 digit_bounds [of n] digit_uint [of n] show ?case
    by (subst decimal.simps) (auto simp: digits_value_append [OF decimal_digits])
qed

lemma atoi_decimal:
  assumes "n < 2 ^ 31"
  shows "atoi (decimal n) = Ok (int n)"
proof -
  have "decimal n \<noteq> []" by (subst decimal.simps) simp
  then obtain c cs where d: "decimal n = c # cs" by (cases "decimal n") auto
  with decimal_digits [of n] have c: "48 \<le> c" "c \<le> 57" by auto
  have "\<not> isspace c" "c \<noteq> 45" "c \<noteq> 43" using c by (auto simp: isspace_def word_le_def)
  with d digits_value_decimal [of n] assms show ?thesis by (simp add: atoi_def int32_range_def)
qed

section \<open>The end of the broker\<close>

lemma destroy_free_boxes:
  assumes "length (mbroker_boxes br) = box_count_max br" "\<forall>b\<in>set (mbroker_boxes br). \<not> box_mutex b" "\<not> mbroker_boxes_lock br"
  obtains br' where "mbroker_destroy br = Ok (0, br')" "\<not> allocated2 (broker_fs br')" "mbroker_boxes br' = []"
proof -
  have "foldR (\<lambda>i u. bindR (arr_get (mbroker_boxes br) i) (\<lambda>b. if box_mutex b then Abort else Ok u)) is () = Ok ()"
    if "\<forall>i\<in>set is. i < length (mbroker_boxes br)" for "is"
    using that assms(2) by (induction "is") (auto simp: arr_get_def)
  with assms have "mbroker_destroy br = Ok (0, br\<lparr>broker_fs := snd (state_destroy2 (broker_fs br)), mbroker_boxes := []\<rparr>)"
    by (simp add: mbroker_destroy_def tfs_destroy2_def state_destroy2_def)
  from that [OF this] show thesis by (simp add: state_destroy2_def)
qed

text \<open>The loop ends when a \<open>read\<close> is interrupted by \<open>SIGINT\<close>.\<close>

lemma main_loop_ends:
  "\<forall>r\<in>set reqs. registration_wf r \<Longrightarrow>
    main_loop (map (\<lambda>r. (Whole (registration_bytes r), False)) reqs @ (Partial, True) # reads) = (reqs, True)"
  by (induction reqs) (simp_all add: registration_wire.dec_enc)

section \<open>Starting\<close>

definition new_server :: "registration_request_t pc_queue_t \<Rightarrow> nat \<Rightarrow> broker \<Rightarrow> server" where
  "new_server q n br =
     \<lparr>srv_queue = q, srv_workers = n,
      srv_system = \<lparr>sys_broker = br, sys_pubs = Map.empty, sys_subs = Map.empty, sys_log = (\<lambda>_. [])\<rparr>,
      srv_arrived = [], srv_taken = []\<rparr>"


definition demo_broker_os :: broker_os where
  "demo_broker_os =
     \<lparr>bos_mkfifo = (\<lambda>_. Failed EEXIST), bos_open_read = (\<lambda>_. True), bos_open_write = (\<lambda>_. True),
      bos_malloc = (\<lambda>n. Some (replicate (unat n div 8) (request_of 0 [] []))), bos_pthread_create = (\<lambda>_. True)\<rparr>"


text \<open>A number of sessions that is zero, or no number, is not noticed.\<close>

lemma zero_sessions_undefined:
  assumes "init_mbroker al mem br = Ok (0, br')" "bos_mkfifo env pipe = Count 0" "bos_open_read env pipe" "bos_open_write env pipe"
    "bos_malloc env 0 = Some []" "pipe \<noteq> cstr ''--help''"
  shows "mbroker_boot env al mem [prog, pipe, cstr ''many''] br = Undef"
  using assms by (simp add: mbroker_boot_def pcq_bytes_def pcq_create_def atoi_def isspace_def int32_range_def cstr_def)

end
